(* ===== verification/Prelude.thy ===== *)
theory Prelude
  imports Main "HOL-Library.Word"
begin

text \<open>
  Shared vocabulary of the development: outcomes of asynchronous code, the combinators that
  thread a world through a sequence of awaits, the parts of the Rust standard library that the
  gateway uses on strings, numbers and durations, and the generic lemmas on them.

  A Rust \<open>String\<close> or \<open>&[u8]\<close> is a \<^typ>\<open>string\<close>: one \<^typ>\<open>char\<close> per byte, UTF-8 encoded
  where the source has text. A \<open>Duration\<close> and an \<open>Instant\<close> are natural numbers of
  nanoseconds.
\<close>

section \<open>Collections\<close>

named_theorems await_simps \<open>unfolding rules of the await combinators\<close>
named_theorems await_elims \<open>inversion rules of the await combinators\<close>

section \<open>Asynchronous outcomes\<close>

text \<open>
  An asynchronous function of the source is a function from the world to an outcome and the
  world afterwards. \<open>Ready\<close> is the value of the finished future. \<open>Cancelled\<close> says that the
  future was dropped at one of its await points (a \<open>tokio::time::timeout\<close> elapsed, or the
  caller went away), so that the rest of its body never runs. \<open>Panicked\<close> is a panic, for
  example a failed \<open>expect\<close> or an index out of range.
\<close>

datatype 'a async = Ready (the_ready: 'a) | Cancelled | Panicked

type_synonym ('w, 'a) fut = "'w \<Rightarrow> 'a async \<times> 'w"

definition ret :: "'a \<Rightarrow> ('w, 'a) fut" where
  "ret x w = (Ready x, w)"

definition await :: "('w, 'a) fut \<Rightarrow> ('a \<Rightarrow> ('w, 'b) fut) \<Rightarrow> ('w, 'b) fut" where
  "await c k w =
     (case c w of
        (Ready x, w') \<Rightarrow> k x w'
      | (Cancelled, w') \<Rightarrow> (Cancelled, w')
      | (Panicked, w') \<Rightarrow> (Panicked, w'))"

text \<open>The \<open>?\<close> operator on an awaited \<open>Result\<close>: an error ends the function.\<close>

definition await_ok :: "('w, 'e + 'a) fut \<Rightarrow> ('a \<Rightarrow> ('w, 'e + 'b) fut) \<Rightarrow> ('w, 'e + 'b) fut" where
  "await_ok c k = await c (\<lambda>r. case r of Inl e \<Rightarrow> ret (Inl e) | Inr x \<Rightarrow> k x)"

text \<open>\<open>map_err\<close> on an awaited \<open>Result\<close>.\<close>

definition map_err :: "('e \<Rightarrow> 'f) \<Rightarrow> 'e + 'a \<Rightarrow> 'f + 'a" where
  "map_err f r = (case r of Inl e \<Rightarrow> Inl (f e) | Inr x \<Rightarrow> Inr x)"

definition bind_ok :: "'e + 'a \<Rightarrow> ('a \<Rightarrow> 'e + 'b) \<Rightarrow> 'e + 'b" where
  "bind_ok r k = (case r of Inl e \<Rightarrow> Inl e | Inr x \<Rightarrow> k x)"

fun is_ok :: "'e + 'a \<Rightarrow> bool" where
  "is_ok (Inl e) = False"
| "is_ok (Inr x) = True"

lemma map_err_simps [simp]:
  "map_err f (Inl e) = Inl (f e)"
  "map_err f (Inr x) = Inr x"
  by (simp_all add: map_err_def)

lemma bind_ok_simps [simp]:
  "bind_ok (Inl e) k = Inl e"
  "bind_ok (Inr x) k = k x"
  by (simp_all add: bind_ok_def)

lemma bind_ok_Inr_iff:
  "bind_ok r k = Inr y \<longleftrightarrow> (\<exists>x. r = Inr x \<and> k x = Inr y)"
  by (cases r) auto

lemma bind_ok_Inl_iff:
  "bind_ok r k = Inl e \<longleftrightarrow> r = Inl e \<or> (\<exists>x. r = Inr x \<and> k x = Inl e)"
  by (cases r) auto

lemma map_err_Inr_iff [simp]: "map_err f r = Inr x \<longleftrightarrow> r = Inr x"
  by (cases r) auto

lemma map_err_Inl_iff: "map_err f r = Inl e \<longleftrightarrow> (\<exists>d. r = Inl d \<and> e = f d)"
  by (cases r) auto

lemma is_ok_iff: "is_ok r \<longleftrightarrow> (\<exists>x. r = Inr x)"
  by (cases r) auto

lemma ret_apply [simp, await_simps]: "ret x w = (Ready x, w)"
  by (simp add: ret_def)

lemma await_ret [simp, await_simps]: "await (ret x) k = k x"
  by (simp add: await_def fun_eq_iff)

lemma await_ok_ret [simp, await_simps]:
  "await_ok (ret (Inr x)) k = k x"
  "await_ok (ret (Inl e)) k = ret (Inl e)"
  by (simp_all add: await_ok_def fun_eq_iff)

lemma await_Ready: "c w = (Ready x, w') \<Longrightarrow> await c k w = k x w'"
  by (simp add: await_def)

lemma await_Cancelled: "c w = (Cancelled, w') \<Longrightarrow> await c k w = (Cancelled, w')"
  by (simp add: await_def)

lemma await_Panicked: "c w = (Panicked, w') \<Longrightarrow> await c k w = (Panicked, w')"
  by (simp add: await_def)

lemma await_ok_Inr: "c w = (Ready (Inr x), w') \<Longrightarrow> await_ok c k w = k x w'"
  by (simp add: await_ok_def await_def)

lemma await_ok_Inl: "c w = (Ready (Inl e), w') \<Longrightarrow> await_ok c k w = (Ready (Inl e), w')"
  by (simp add: await_ok_def await_def)

lemma await_ok_Cancelled: "c w = (Cancelled, w') \<Longrightarrow> await_ok c k w = (Cancelled, w')"
  by (simp add: await_ok_def await_def)

lemma await_ok_Panicked: "c w = (Panicked, w') \<Longrightarrow> await_ok c k w = (Panicked, w')"
  by (simp add: await_ok_def await_def)

lemmas await_steps =
  await_Ready await_Cancelled await_Panicked
  await_ok_Inr await_ok_Inl await_ok_Cancelled await_ok_Panicked

lemma await_no_panic:
  assumes "fst (c w) \<noteq> Panicked"
    and "\<And>x w'. c w = (Ready x, w') \<Longrightarrow> fst (k x w') \<noteq> Panicked"
  shows "fst (await c k w) \<noteq> Panicked"
  using assms by (auto simp: await_def split: prod.splits async.splits)

lemma await_ReadyE [await_elims]:
  assumes "await c k w = (Ready y, w'')"
  obtains x w' where "c w = (Ready x, w')" and "k x w' = (Ready y, w'')"
  using assms by (auto simp: await_def split: prod.splits async.splits)

lemma await_ok_InrE [await_elims]:
  assumes "await_ok c k w = (Ready (Inr y), w'')"
  obtains x w' where "c w = (Ready (Inr x), w')" and "k x w' = (Ready (Inr y), w'')"
  using assms
  by (auto simp: await_ok_def split: sum.splits elim!: await_ReadyE)

text \<open>
  A judgement for whole asynchronous functions: every run of \<open>c\<close> from a world that satisfies
  \<open>P\<close> ends in an outcome and a world that satisfy \<open>Q\<close>. It composes over the await
  combinators, so that the components prove one rule per operation.
\<close>

definition runs :: "('w \<Rightarrow> bool) \<Rightarrow> ('w, 'a) fut \<Rightarrow> ('a async \<Rightarrow> 'w \<Rightarrow> bool) \<Rightarrow> bool" where
  "runs P c Q \<longleftrightarrow> (\<forall>w. P w \<longrightarrow> Q (fst (c w)) (snd (c w)))"

lemma runsI: "(\<And>w. P w \<Longrightarrow> Q (fst (c w)) (snd (c w))) \<Longrightarrow> runs P c Q"
  by (simp add: runs_def)

lemma runsD: "runs P c Q \<Longrightarrow> P w \<Longrightarrow> c w = (r, w') \<Longrightarrow> Q r w'"
  unfolding runs_def by force

lemma runs_ret: "(\<And>w. P w \<Longrightarrow> Q (Ready x) w) \<Longrightarrow> runs P (ret x) Q"
  by (simp add: runs_def)

lemma runs_await:
  assumes c: "runs P c R"
    and ready: "\<And>x. runs (R (Ready x)) (k x) Q"
    and cancelled: "\<And>w. R Cancelled w \<Longrightarrow> Q Cancelled w"
    and panicked: "\<And>w. R Panicked w \<Longrightarrow> Q Panicked w"
  shows "runs P (await c k) Q"
proof (rule runsI)
  fix w
  assume P: "P w"
  obtain r w' where cw: "c w = (r, w')" by fastforce
  with c P have R: "R r w'" by (blast dest: runsD)
  show "Q (fst (await c k w)) (snd (await c k w))"
  proof (cases r)
    case (Ready x)
    with R have "R (Ready x) w'" by simp
    with ready [of x] have "Q (fst (k x w')) (snd (k x w'))" by (simp add: runs_def)
    with cw Ready show ?thesis by (simp add: await_Ready)
  next
    case Cancelled
    with cw R cancelled show ?thesis by (simp add: await_Cancelled)
  next
    case Panicked
    with cw R panicked show ?thesis by (simp add: await_Panicked)
  qed
qed

lemma runs_await_ok:
  assumes c: "runs P c R"
    and ok: "\<And>x. runs (R (Ready (Inr x))) (k x) Q"
    and err: "\<And>e w. R (Ready (Inl e)) w \<Longrightarrow> Q (Ready (Inl e)) w"
    and cancelled: "\<And>w. R Cancelled w \<Longrightarrow> Q Cancelled w"
    and panicked: "\<And>w. R Panicked w \<Longrightarrow> Q Panicked w"
  shows "runs P (await_ok c k) Q"
  unfolding await_ok_def
proof (rule runs_await [OF c _ cancelled panicked])
  fix x
  show "runs (R (Ready x)) (case x of Inl e \<Rightarrow> ret (Inl e) | Inr y \<Rightarrow> k y) Q"
    using ok err by (cases x) (auto intro: runs_ret)
qed

lemma runs_weaken:
  assumes "runs P c Q" and "\<And>w. P' w \<Longrightarrow> P w" and "\<And>r w. Q r w \<Longrightarrow> Q' r w"
  shows "runs P' c Q'"
  using assms by (auto simp: runs_def)

lemma runs_if:
  "(b \<Longrightarrow> runs P c Q) \<Longrightarrow> (\<not> b \<Longrightarrow> runs P d Q) \<Longrightarrow> runs P (if b then c else d) Q"
  by simp

section \<open>Sequences\<close>

text \<open>
  \<open>collect::<Result<Vec<_>, _>>()\<close>: the first error of the sequence, or all its values.
\<close>

fun collect_ok :: "('e + 'a) list \<Rightarrow> 'e + 'a list" where
  "collect_ok [] = Inr []"
| "collect_ok (r # rs) = bind_ok r (\<lambda>x. bind_ok (collect_ok rs) (\<lambda>xs. Inr (x # xs)))"

text \<open>The position of the first element that satisfies a predicate.\<close>

fun first_index :: "('a \<Rightarrow> bool) \<Rightarrow> 'a list \<Rightarrow> nat option" where
  "first_index P [] = None"
| "first_index P (x # xs) = (if P x then Some 0 else map_option Suc (first_index P xs))"

lemma collect_ok_Inr_iff: "collect_ok rs = Inr xs \<longleftrightarrow> rs = map Inr xs"
  by (induction rs arbitrary: xs) (auto simp: bind_ok_Inr_iff)

lemma collect_ok_mapD:
  assumes "collect_ok (map f xs) = Inr ys"
  shows "length ys = length xs" and "i < length xs \<Longrightarrow> f (xs ! i) = Inr (ys ! i)"
proof -
  from assms have eq: "map f xs = map Inr ys" by (simp add: collect_ok_Inr_iff)
  then show len: "length ys = length xs" by (metis length_map)
  show "f (xs ! i) = Inr (ys ! i)" if "i < length xs"
    using that len arg_cong [OF eq, of "\<lambda>l. l ! i"] by simp
qed

lemma collect_ok_Inl_iff:
  "collect_ok rs = Inl e \<longleftrightarrow> (\<exists>xs ys. rs = map Inr xs @ Inl e # ys)"
proof (induction rs)
  case Nil
  then show ?case by simp
next
  case (Cons r rs)
  show ?case
  proof (cases r)
    case (Inl f)
    have "Inl f # rs = map Inr xs @ Inl e # ys \<longleftrightarrow> xs = [] \<and> f = e \<and> ys = rs" for xs :: "'b list" and ys
      by (cases xs) auto
    with Inl show ?thesis by auto
  next
    case (Inr x)
    have "Inr x # rs = map Inr xs @ Inl e # ys \<longleftrightarrow>
      (\<exists>zs. xs = x # zs \<and> rs = map Inr zs @ Inl e # ys)" for xs :: "'b list" and ys
      by (cases xs) auto
    with Inr Cons show ?thesis by (auto simp: bind_ok_Inl_iff)
  qed
qed

lemma collect_ok_map_InlD:
  assumes "collect_ok (map f xs) = Inl e"
  shows "\<exists>i < length xs. f (xs ! i) = Inl e \<and> (\<forall>j < i. is_ok (f (xs ! j)))"
proof -
  from assms obtain ys zs where eq: "map f xs = map Inr ys @ Inl e # zs"
    by (auto simp: collect_ok_Inl_iff)
  then have len: "length xs = length ys + Suc (length zs)"
    by (metis length_Cons length_append length_map)
  have nth: "f (xs ! i) = (map Inr ys @ Inl e # zs) ! i" if "i < length xs" for i
    using that by (simp flip: eq)
  have "f (xs ! length ys) = Inl e" and "\<forall>j < length ys. is_ok (f (xs ! j))"
    using len by (simp_all add: nth nth_append)
  with len show ?thesis by (intro exI [of _ "length ys"]) simp
qed

lemma first_index_None_iff: "first_index P xs = None \<longleftrightarrow> (\<forall>x \<in> set xs. \<not> P x)"
  by (induction xs) auto

lemma first_index_Some_iff:
  "first_index P xs = Some i \<longleftrightarrow> i < length xs \<and> P (xs ! i) \<and> (\<forall>j < i. \<not> P (xs ! j))"
proof (induction xs arbitrary: i)
  case Nil
  then show ?case by simp
next
  case (Cons x xs)
  then show ?case by (cases i) (auto simp: less_Suc_eq_0_disj)
qed

lemma first_index_map: "first_index P (map f xs) = first_index (\<lambda>x. P (f x)) xs"
  by (induction xs) auto

lemma first_index_cong:
  "(\<And>x. x \<in> set xs \<Longrightarrow> P x = Q x) \<Longrightarrow> first_index P xs = first_index Q xs"
  by (induction xs) auto

section \<open>Bytes and strings\<close>

abbreviation byte :: "char \<Rightarrow> nat" where
  "byte c \<equiv> of_char c"

definition is_ascii :: "string \<Rightarrow> bool" where
  "is_ascii s \<longleftrightarrow> list_all (\<lambda>c. byte c < 128) s"

definition is_ascii_digit :: "char \<Rightarrow> bool" where
  "is_ascii_digit c \<longleftrightarrow> 48 \<le> byte c \<and> byte c \<le> 57"

definition to_ascii_lower :: "char \<Rightarrow> char" where
  "to_ascii_lower c = (if 65 \<le> byte c \<and> byte c \<le> 90 then char_of (byte c + 32) else c)"

definition eq_ignore_ascii_case :: "string \<Rightarrow> string \<Rightarrow> bool" where
  "eq_ignore_ascii_case a b \<longleftrightarrow> map to_ascii_lower a = map to_ascii_lower b"

text \<open>
  \<open>str::trim\<close> removes code points with the Unicode property White_Space. \<open>ws_len\<close> is the
  number of bytes of such a code point at the front of a UTF-8 string, 0 when there is none.
\<close>

definition ws_len :: "string \<Rightarrow> nat" where
  "ws_len s =
     (case map byte (take 3 s) of
        [] \<Rightarrow> 0
      | a # r \<Rightarrow>
          if (9 \<le> a \<and> a \<le> 13) \<or> a = 32 then 1
          else case r of
                 [] \<Rightarrow> 0
               | b # r' \<Rightarrow>
                   if a = 0xC2 \<and> (b = 0x85 \<or> b = 0xA0) then 2
                   else case r' of
                          [] \<Rightarrow> 0
                        | c # _ \<Rightarrow>
                            if (a = 0xE1 \<and> b = 0x9A \<and> c = 0x80) \<or>
                               (a = 0xE2 \<and> b = 0x80 \<and>
                                 ((0x80 \<le> c \<and> c \<le> 0x8A) \<or> c = 0xA8 \<or> c = 0xA9 \<or> c = 0xAF)) \<or>
                               (a = 0xE2 \<and> b = 0x81 \<and> c = 0x9F) \<or>
                               (a = 0xE3 \<and> b = 0x80 \<and> c = 0x80) then 3
                            else 0)"

function trim_start :: "string \<Rightarrow> string" where
  "trim_start s =
     (if s = [] \<or> ws_len s = 0 then s else trim_start (drop (ws_len s) s))"
  by pat_completeness auto
termination
  by (relation "measure length") auto

declare trim_start.simps [simp del]

text \<open>\<open>s.trim().is_empty()\<close>.\<close>

definition trim_is_empty :: "string \<Rightarrow> bool" where
  "trim_is_empty s \<longleftrightarrow> trim_start s = []"

lemma trim_start_nil [simp]: "trim_start [] = []"
  by (simp add: trim_start.simps)

lemma trim_is_empty_nil [simp]: "trim_is_empty []"
  by (simp add: trim_is_empty_def)

lemma trim_start_no_ws: "ws_len s = 0 \<Longrightarrow> trim_start s = s"
  by (simp add: trim_start.simps)

text \<open>A string that starts with a printable ASCII byte is not blank.\<close>

lemma ws_len_graphic: "32 < byte c \<Longrightarrow> byte c < 128 \<Longrightarrow> ws_len (c # s) = 0"
  by (auto simp: ws_len_def split: list.splits)

lemma trim_is_empty_graphic:
  "32 < byte c \<Longrightarrow> byte c < 128 \<Longrightarrow> \<not> trim_is_empty (c # s)"
  by (simp add: trim_is_empty_def trim_start_no_ws ws_len_graphic)

lemma is_ascii_simps [simp]:
  "is_ascii []"
  "is_ascii (c # s) \<longleftrightarrow> byte c < 128 \<and> is_ascii s"
  "is_ascii (s @ t) \<longleftrightarrow> is_ascii s \<and> is_ascii t"
  by (auto simp: is_ascii_def)

subsection \<open>Splitting\<close>

text \<open>\<open>split\<close> on one byte: always at least one piece, as in Rust.\<close>

fun split_on :: "char \<Rightarrow> string \<Rightarrow> string list" where
  "split_on d [] = [[]]"
| "split_on d (c # s) =
     (if c = d then [] # split_on d s
      else case split_on d s of
             [] \<Rightarrow> [[c]]
           | p # ps \<Rightarrow> (c # p) # ps)"

lemma split_on_nonempty [simp]: "split_on d s \<noteq> []"
  by (cases s) (auto split: list.splits)

lemma split_on_no_delim: "p \<in> set (split_on d s) \<Longrightarrow> d \<notin> set p"
  by (induction s arbitrary: p) (auto split: list.splits if_splits)

text \<open>Joining the pieces again gives back the string.\<close>

fun join_with :: "char \<Rightarrow> string list \<Rightarrow> string" where
  "join_with d [] = []"
| "join_with d [p] = p"
| "join_with d (p # q # ps) = p @ d # join_with d (q # ps)"

lemma join_split: "join_with d (split_on d s) = s"
proof (induction s)
  case Nil
  then show ?case by simp
next
  case (Cons c s)
  obtain p ps where sp: "split_on d s = p # ps"
    by (metis neq_Nil_conv split_on_nonempty)
  with Cons show ?case by (cases ps) auto
qed

lemma split_on_append_delim:
  "split_on d (a @ d # b) = split_on d a @ split_on d b"
proof (induction a)
  case Nil
  then show ?case by simp
next
  case (Cons c a)
  obtain p ps where "split_on d a = p # ps"
    by (metis neq_Nil_conv split_on_nonempty)
  with Cons show ?case by simp
qed

lemma split_on_no_occurrence: "d \<notin> set s \<Longrightarrow> split_on d s = [s]"
  by (induction s) auto

lemma split_on_inj: "split_on d s = split_on d t \<longleftrightarrow> s = t"
  by (metis join_split)

lemma join_with_append:
  "ps \<noteq> [] \<Longrightarrow> qs \<noteq> [] \<Longrightarrow> join_with d (ps @ qs) = join_with d ps @ d # join_with d qs"
proof (induction ps)
  case Nil
  then show ?case by simp
next
  case (Cons p ps)
  then show ?case by (cases ps; cases qs) auto
qed

fun starts_with :: "string \<Rightarrow> string \<Rightarrow> bool" where
  "starts_with [] s = True"
| "starts_with (p # ps) [] = False"
| "starts_with (p # ps) (c # s) = (p = c \<and> starts_with ps s)"

definition strip_prefix :: "string \<Rightarrow> string \<Rightarrow> string option" where
  "strip_prefix p s = (if starts_with p s then Some (drop (length p) s) else None)"

lemma starts_with_iff: "starts_with p s \<longleftrightarrow> (\<exists>t. s = p @ t)"
  by (induction p s rule: starts_with.induct) auto

lemma strip_prefix_Some_iff: "strip_prefix p s = Some t \<longleftrightarrow> s = p @ t"
  by (auto simp: strip_prefix_def starts_with_iff)

lemma strip_prefix_append [simp]: "strip_prefix p (p @ t) = Some t"
  by (simp add: strip_prefix_Some_iff)

text \<open>\<open>trim_end_matches\<close> with one character.\<close>

definition trim_end_char :: "char \<Rightarrow> string \<Rightarrow> string" where
  "trim_end_char d s = rev (dropWhile (\<lambda>c. c = d) (rev s))"

lemma trim_end_char_decompose:
  "\<exists>n. s = trim_end_char d s @ replicate n d"
proof -
  have "rev s = takeWhile (\<lambda>c. c = d) (rev s) @ dropWhile (\<lambda>c. c = d) (rev s)" by simp
  then have "s = rev (dropWhile (\<lambda>c. c = d) (rev s)) @ rev (takeWhile (\<lambda>c. c = d) (rev s))"
    by (metis rev_append rev_rev_ident)
  moreover have "\<forall>c \<in> set (takeWhile (\<lambda>c. c = d) (rev s)). c = d"
    by (auto dest: set_takeWhileD)
  then have "rev (takeWhile (\<lambda>c. c = d) (rev s)) =
      replicate (length (takeWhile (\<lambda>c. c = d) (rev s))) d"
    by (metis length_rev replicate_length_same set_rev)
  ultimately show ?thesis unfolding trim_end_char_def by metis
qed

lemma trim_end_char_segments: "set (split_on d (trim_end_char d s)) \<subseteq> set (split_on d s)"
proof -
  obtain n where n: "s = trim_end_char d s @ replicate n d"
    using trim_end_char_decompose by blast
  have "set (split_on d b) \<subseteq> set (split_on d (b @ replicate n d))" for b
    by (cases n) (simp_all add: split_on_append_delim)
  with n show ?thesis by metis
qed

section \<open>Numbers\<close>

abbreviation (input) u64_max :: nat where
  "u64_max \<equiv> 18446744073709551615"

abbreviation (input) i64_max :: nat where
  "i64_max \<equiv> 9223372036854775807"

definition digit_char :: "nat \<Rightarrow> char" where
  "digit_char d = char_of (if d < 10 then 48 + d else 87 + d)"

text \<open>\<open>to_string\<close> of an unsigned integer.\<close>

fun show_nat :: "nat \<Rightarrow> string" where
  "show_nat n = (if n < 10 then [digit_char n] else show_nat (n div 10) @ [digit_char (n mod 10)])"

declare show_nat.simps [simp del]

text \<open>\<open>{:032x}\<close> of a 128-bit integer: 32 hexadecimal digits, most significant first.\<close>

fun hex_digits :: "nat \<Rightarrow> nat \<Rightarrow> string" where
  "hex_digits 0 n = []"
| "hex_digits (Suc k) n = hex_digits k (n div 16) @ [digit_char (n mod 16)]"

definition hex32 :: "128 word \<Rightarrow> string" where
  "hex32 r = hex_digits 32 (unat r)"

text \<open>The value of a string of decimal digits, \<open>None\<close> at the first other byte.\<close>

fun digits_value :: "nat \<Rightarrow> string \<Rightarrow> nat option" where
  "digits_value acc [] = Some acc"
| "digits_value acc (c # s) =
     (if is_ascii_digit c then digits_value (10 * acc + (byte c - 48)) s else None)"

text \<open>
  \<open>str::parse\<close> at an unsigned 64-bit type (\<open>u64\<close>, and \<open>usize\<close> on the 64-bit targets the
  gateway is built for): an optional plus sign, at least one digit, no overflow.
\<close>

definition parse_u64 :: "string \<Rightarrow> nat option" where
  "parse_u64 s =
     (let t = (case s of c # r \<Rightarrow> if c = CHR ''+'' then r else s | [] \<Rightarrow> s)
      in if t = [] then None
         else case digits_value 0 t of
                None \<Rightarrow> None
              | Some n \<Rightarrow> if n \<le> u64_max then Some n else None)"

lemma byte_digit_char: "d < 16 \<Longrightarrow> byte (digit_char d) = (if d < 10 then 48 + d else 87 + d)"
  by (simp add: digit_char_def)

lemma digit_char_inj: "d < 16 \<Longrightarrow> e < 16 \<Longrightarrow> digit_char d = digit_char e \<longleftrightarrow> d = e"
proof
  assume d: "d < 16" and e: "e < 16" and eq: "digit_char d = digit_char e"
  then have "byte (digit_char d) = byte (digit_char e)" by simp
  with d e show "d = e" by (simp add: byte_digit_char split: if_splits)
qed simp

lemma is_ascii_digit_digit_char [simp]: "d < 10 \<Longrightarrow> is_ascii_digit (digit_char d)"
  by (simp add: is_ascii_digit_def byte_digit_char)

lemma digits_value_append:
  "digits_value acc (s @ t) =
     (case digits_value acc s of None \<Rightarrow> None | Some n \<Rightarrow> digits_value n t)"
  by (induction s arbitrary: acc) auto

lemma digits_value_digits:
  "(\<exists>n. digits_value acc s = Some n) \<longleftrightarrow> list_all is_ascii_digit s"
  by (induction s arbitrary: acc) auto

lemma show_nat_nonempty [simp]: "show_nat n \<noteq> []"
  by (subst show_nat.simps) simp

lemma show_nat_digits: "list_all is_ascii_digit (show_nat n)"
proof (induction n rule: show_nat.induct)
  case (1 n)
  then show ?case by (subst show_nat.simps) auto
qed

lemma digits_value_show_nat: "digits_value 0 (show_nat n) = Some n"
proof (induction n rule: show_nat.induct)
  case (1 n)
  show ?case
  proof (cases "n < 10")
    case True
    then show ?thesis by (subst show_nat.simps) (simp add: byte_digit_char)
  next
    case False
    with 1 have "digits_value 0 (show_nat (n div 10)) = Some (n div 10)" by simp
    with False show ?thesis
      by (subst show_nat.simps) (simp add: digits_value_append byte_digit_char)
  qed
qed

lemma parse_show_nat: "parse_u64 (show_nat n) = (if n \<le> u64_max then Some n else None)"
proof -
  obtain c s where cs: "show_nat n = c # s"
    by (metis neq_Nil_conv show_nat_nonempty)
  with show_nat_digits [of n] have "is_ascii_digit c" by simp
  then have "c \<noteq> CHR ''+''" by (auto simp: is_ascii_digit_def)
  with cs digits_value_show_nat [of n] show ?thesis by (simp add: parse_u64_def)
qed

lemma show_nat_inj: "show_nat m = show_nat n \<longleftrightarrow> m = n"
  by (metis digits_value_show_nat option.inject)

lemma length_hex_digits [simp]: "length (hex_digits k n) = k"
  by (induction k arbitrary: n) auto

lemma length_hex32 [simp]: "length (hex32 r) = 32"
  by (simp add: hex32_def)

lemma hex_digits_inj:
  "m < 16 ^ k \<Longrightarrow> n < 16 ^ k \<Longrightarrow> hex_digits k m = hex_digits k n \<Longrightarrow> m = n"
proof (induction k arbitrary: m n)
  case 0
  then show ?case by simp
next
  case (Suc k)
  from Suc.prems have "hex_digits k (m div 16) = hex_digits k (n div 16)"
    and "digit_char (m mod 16) = digit_char (n mod 16)" by auto
  moreover have "m div 16 < 16 ^ k" and "n div 16 < 16 ^ k"
    using Suc.prems by (simp_all add: less_mult_imp_div_less mult.commute)
  ultimately have "m div 16 = n div 16" and "m mod 16 = n mod 16"
    using Suc.IH by (auto simp: digit_char_inj)
  then show ?case by (metis div_mult_mod_eq)
qed

lemma hex32_inj: "hex32 a = hex32 b \<longleftrightarrow> a = b"
proof
  have bound: "unat r < 16 ^ 32" for r :: "128 word"
  proof -
    have "unat r < 2 ^ LENGTH(128)" by (rule unsigned_less)
    then show ?thesis by simp
  qed
  assume "hex32 a = hex32 b"
  then have "unat a = unat b"
    using hex_digits_inj [OF bound bound] by (simp add: hex32_def)
  then show "a = b" by (simp only: word_unat_eq_iff)
qed simp

lemma hex_digits_graphic: "c \<in> set (hex_digits k n) \<Longrightarrow> 48 \<le> byte c \<and> byte c < 103"
  by (induction k arbitrary: n) (auto simp: byte_digit_char split: if_splits)

lemma hex32_graphic: "c \<in> set (hex32 r) \<Longrightarrow> 48 \<le> byte c \<and> byte c < 103"
  unfolding hex32_def by (rule hex_digits_graphic)

lemma hex32_ascii: "is_ascii (hex32 r)"
  using hex32_graphic [of _ r] by (fastforce simp: is_ascii_def list_all_iff)

lemma hex32_not_blank: "\<not> trim_is_empty (hex32 r)"
proof -
  obtain c s where cs: "hex32 r = c # s"
    by (metis length_hex32 length_0_conv neq_Nil_conv zero_neq_numeral)
  with hex32_graphic [of c r] trim_is_empty_graphic [of c s] show ?thesis by simp
qed

section \<open>Durations\<close>

type_synonym duration = nat
type_synonym instant = nat

abbreviation (input) ns_per_ms :: nat where
  "ns_per_ms \<equiv> 1000000"

abbreviation (input) ns_per_sec :: nat where
  "ns_per_sec \<equiv> 1000000000"

definition from_secs :: "nat \<Rightarrow> duration" where
  "from_secs s = s * ns_per_sec"

definition from_millis :: "nat \<Rightarrow> duration" where
  "from_millis m = m * ns_per_ms"

definition as_millis :: "duration \<Rightarrow> nat" where
  "as_millis d = d div ns_per_ms"

definition subsec_nanos :: "duration \<Rightarrow> nat" where
  "subsec_nanos d = d mod ns_per_sec"

lemma whole_millis_iff: "subsec_nanos d mod ns_per_ms = 0 \<longleftrightarrow> d mod ns_per_ms = 0"
  by (simp add: subsec_nanos_def mod_mod_cancel)

lemma whole_millis_roundtrip:
  "subsec_nanos d mod ns_per_ms = 0 \<Longrightarrow> from_millis (as_millis d) = d"
  unfolding whole_millis_iff from_millis_def as_millis_def by auto

end
