(* ===== verification/Http_Types.thy ===== *)
theory Http_Types
  imports Prelude
begin

text \<open>
  The data that travels through the gateway and the interface to the \<open>http\<close> crate.

  The crate is not part of the repository, so its header map, its URI type and its validating
  constructors are the fields of a record \<open>http_lib\<close> that every definition takes as an
  argument. The locale \<open>http_crate\<close> states what the gateway relies on: the documented
  behaviour of the header multimap and the fact that an ASCII string accepted as a header value
  can be read back. \<open>assoc_lib\<close> is an association-list instance; it shows that the laws can
  hold together and lets the definitions be evaluated.
\<close>

section \<open>The http crate\<close>

record header_value =
  hv_bytes :: string
  hv_sensitive :: bool

record ('h, 'u) http_lib =
  hm_empty :: 'h
  hm_get :: "'h \<Rightarrow> string \<Rightarrow> header_value option"
  hm_get_all :: "'h \<Rightarrow> string \<Rightarrow> header_value list"
  hm_contains_key :: "'h \<Rightarrow> string \<Rightarrow> bool"
  hm_insert :: "'h \<Rightarrow> string \<Rightarrow> header_value \<Rightarrow> 'h"
  hm_or_insert :: "'h \<Rightarrow> string \<Rightarrow> header_value \<Rightarrow> 'h"
  hm_remove :: "'h \<Rightarrow> string \<Rightarrow> 'h"
  name_from_bytes :: "string \<Rightarrow> string option"
  value_from_str :: "string \<Rightarrow> header_value option"
  value_to_str :: "header_value \<Rightarrow> string option"
  method_from_bytes :: "string \<Rightarrow> string option"
  uri_scheme :: "'u \<Rightarrow> string option"
  uri_authority :: "'u \<Rightarrow> string option"
  uri_path :: "'u \<Rightarrow> string"
  uri_query :: "'u \<Rightarrow> string option"
  uri_path_and_query :: "'u \<Rightarrow> string option"
  uri_build :: "string \<Rightarrow> string \<Rightarrow> string \<Rightarrow> string + 'u"
  uri_parse :: "string \<Rightarrow> 'u option"
  uri_to_string :: "'u \<Rightarrow> string"

text \<open>\<open>HeaderValue::from_static\<close> on a literal of the source.\<close>

definition from_static :: "string \<Rightarrow> header_value" where
  "from_static s = \<lparr>hv_bytes = s, hv_sensitive = False\<rparr>"

definition set_sensitive :: "header_value \<Rightarrow> header_value" where
  "set_sensitive v = v\<lparr>hv_sensitive := True\<rparr>"

text \<open>Bytes that may stand in a header value without escaping.\<close>

definition graphic :: "string \<Rightarrow> bool" where
  "graphic s \<longleftrightarrow> list_all (\<lambda>c. 32 \<le> byte c \<and> byte c < 127) s"

locale http_crate =
  fixes L :: "('h, 'u) http_lib"
  assumes get_first:
      "hm_get L h n = (case hm_get_all L h n of [] \<Rightarrow> None | v # _ \<Rightarrow> Some v)"
    and contains_key: "hm_contains_key L h n \<longleftrightarrow> hm_get_all L h n \<noteq> []"
    and get_all_empty: "hm_get_all L (hm_empty L) n = []"
    and get_all_insert:
      "hm_get_all L (hm_insert L h n v) m = (if m = n then [v] else hm_get_all L h m)"
    and get_all_or_insert:
      "hm_get_all L (hm_or_insert L h n v) m =
         (if m = n \<and> hm_get_all L h n = [] then [v] else hm_get_all L h m)"
    and get_all_remove:
      "hm_get_all L (hm_remove L h n) m = (if m = n then [] else hm_get_all L h m)"
    and name_canonical: "name_from_bytes L raw = Some n \<Longrightarrow> n = map to_ascii_lower raw"
    and value_bytes: "value_from_str L s = Some v \<Longrightarrow> hv_bytes v = s"
    and value_graphic: "graphic s \<Longrightarrow> \<exists>v. value_from_str L s = Some v"
    and value_readable: "is_ascii s \<Longrightarrow> value_from_str L s = Some v \<Longrightarrow> value_to_str L v = Some s"
    and value_join:
      "value_to_str L v = Some s \<Longrightarrow> graphic t \<Longrightarrow> \<exists>v'. value_from_str L (s @ t) = Some v'"
    and to_str_bytes: "value_to_str L v = Some s \<Longrightarrow> hv_bytes v = s"
    and to_str_sensitive: "value_to_str L (v\<lparr>hv_sensitive := flag\<rparr>) = value_to_str L v"
    and method_exact: "method_from_bytes L raw = Some m \<Longrightarrow> m = raw"
    and build_scheme: "uri_build L s a p = Inr u \<Longrightarrow> uri_scheme L u = Some s"
    and build_authority: "uri_build L s a p = Inr u \<Longrightarrow> uri_authority L u = Some a"
    and build_path: "uri_build L s a p = Inr u \<Longrightarrow> uri_path_and_query L u = Some p"
begin

lemmas header_laws [simp] =
  get_first contains_key get_all_empty get_all_insert get_all_or_insert get_all_remove

lemma to_str_set_sensitive [simp]: "value_to_str L (set_sensitive v) = value_to_str L v"
  by (simp add: set_sensitive_def to_str_sensitive)

lemma hv_bytes_set_sensitive [simp]: "hv_bytes (set_sensitive v) = hv_bytes v"
  by (simp add: set_sensitive_def)

lemma get_all_remove_all:
  "hm_get_all L (fold (\<lambda>n h. hm_remove L h n) ns h) m =
     (if m \<in> set ns then [] else hm_get_all L h m)"
  by (induction ns arbitrary: h) auto

end

section \<open>Requests and responses\<close>

text \<open>
  \<open>AdmissionTicket\<close> (admission.rs) and \<open>FallbackProxy\<close> (proxy.rs) are declared here because
  they travel in request extensions. The HTTP client inside \<open>FallbackProxy\<close> is an argument of
  the operations that send.
\<close>

record 'u admission_ticket =
  at_scope :: header_value
  at_token :: header_value
  at_origin :: "'u option"

record fallback_proxy =
  fp_scheme :: string
  fp_authority :: "string option"

text \<open>
  Request extensions by the types the gateway stores and reads: the ticket, the
  \<open>RecordingFallback\<close> origin and the \<open>UpgradeTasks\<close> handle of the listener.
\<close>

record 'u extensions =
  ext_ticket :: "'u admission_ticket option"
  ext_recording :: "fallback_proxy option"
  ext_upgrades :: "nat option"

record ('h, 'u, 'b) request =
  rq_method :: string
  rq_uri :: 'u
  rq_version :: string
  rq_headers :: 'h
  rq_ext :: "'u extensions"
  rq_body :: 'b

record ('h, 'rc, 'b) response =
  rs_status :: nat
  rs_headers :: 'h
  rs_cors :: "'rc option"
  rs_body :: 'b

text \<open>The replay body of proxy/replay.rs and the kinds of body behind \<open>GatewayBody\<close>.\<close>

record 'h replay_body =
  rb_bytes :: "string option"
  rb_trailers :: "'h option"

datatype ('h, 'b) gateway_body =
    Streamed 'b
  | Replayed "'h replay_body"
  | Full string

definition no_extensions :: "'u extensions" where
  "no_extensions = \<lparr>ext_ticket = None, ext_recording = None, ext_upgrades = None\<rparr>"

definition map_request :: "('b \<Rightarrow> 'c) \<Rightarrow> ('h, 'u, 'b) request \<Rightarrow> ('h, 'u, 'c) request" where
  "map_request f r =
     \<lparr>rq_method = rq_method r, rq_uri = rq_uri r, rq_version = rq_version r,
      rq_headers = rq_headers r, rq_ext = rq_ext r, rq_body = f (rq_body r)\<rparr>"

definition map_response :: "('b \<Rightarrow> 'c) \<Rightarrow> ('h, 'rc, 'b) response \<Rightarrow> ('h, 'rc, 'c) response" where
  "map_response f r =
     \<lparr>rs_status = rs_status r, rs_headers = rs_headers r, rs_cors = rs_cors r,
      rs_body = f (rs_body r)\<rparr>"

lemma map_request_sel [simp]:
  "rq_method (map_request f r) = rq_method r"
  "rq_uri (map_request f r) = rq_uri r"
  "rq_version (map_request f r) = rq_version r"
  "rq_headers (map_request f r) = rq_headers r"
  "rq_ext (map_request f r) = rq_ext r"
  "rq_body (map_request f r) = f (rq_body r)"
  by (simp_all add: map_request_def)

lemma map_response_sel [simp]:
  "rs_status (map_response f r) = rs_status r"
  "rs_headers (map_response f r) = rs_headers r"
  "rs_cors (map_response f r) = rs_cors r"
  "rs_body (map_response f r) = f (rs_body r)"
  by (simp_all add: map_response_def)

lemma from_static_sel [simp]:
  "hv_bytes (from_static s) = s"
  "hv_sensitive (from_static s) = False"
  by (simp_all add: from_static_def)

section \<open>An executable instance\<close>

text \<open>
  Headers as an association list in insertion order, URIs as scheme, authority and
  path-and-query. Witnesses evaluate the definitions at this instance.
\<close>

type_synonym assoc_headers = "(string \<times> header_value) list"

record simple_uri =
  su_scheme :: "string option"
  su_authority :: "string option"
  su_path_query :: string

definition token_byte :: "char \<Rightarrow> bool" where
  "token_byte c \<longleftrightarrow>
     (48 \<le> byte c \<and> byte c \<le> 57) \<or> (65 \<le> byte c \<and> byte c \<le> 90) \<or> (97 \<le> byte c \<and> byte c \<le> 122) \<or>
     c \<in> set ''!#$%&*+-.^_|~''"

definition assoc_get_all :: "assoc_headers \<Rightarrow> string \<Rightarrow> header_value list" where
  "assoc_get_all h n = map snd (filter (\<lambda>p. fst p = n) h)"

definition assoc_remove :: "assoc_headers \<Rightarrow> string \<Rightarrow> assoc_headers" where
  "assoc_remove h n = filter (\<lambda>p. fst p \<noteq> n) h"

definition split_path_query :: "string \<Rightarrow> string \<times> string option" where
  "split_path_query s =
     (case dropWhile (\<lambda>c. c \<noteq> CHR ''?'') s of
        [] \<Rightarrow> (s, None)
      | _ # q \<Rightarrow> (takeWhile (\<lambda>c. c \<noteq> CHR ''?'') s, Some q))"

definition simple_parse :: "string \<Rightarrow> simple_uri option" where
  "simple_parse s =
     (if s = [] \<or> \<not> is_ascii s then None
      else case strip_prefix ''http://'' s of
        Some r \<Rightarrow>
          let a = takeWhile (\<lambda>c. c \<noteq> CHR ''/'' \<and> c \<noteq> CHR ''?'') r;
              p = dropWhile (\<lambda>c. c \<noteq> CHR ''/'' \<and> c \<noteq> CHR ''?'') r
          in if a = [] then None
             else Some \<lparr>su_scheme = Some ''http'', su_authority = Some a,
                        su_path_query = (if p = [] then ''/'' else p)\<rparr>
      | None \<Rightarrow>
          if starts_with ''/'' s
          then Some \<lparr>su_scheme = None, su_authority = None, su_path_query = s\<rparr>
          else None)"

definition assoc_lib :: "(assoc_headers, simple_uri) http_lib" where
  "assoc_lib =
     \<lparr>hm_empty = [],
      hm_get = (\<lambda>h n. case assoc_get_all h n of [] \<Rightarrow> None | v # _ \<Rightarrow> Some v),
      hm_get_all = assoc_get_all,
      hm_contains_key = (\<lambda>h n. assoc_get_all h n \<noteq> []),
      hm_insert = (\<lambda>h n v. assoc_remove h n @ [(n, v)]),
      hm_or_insert = (\<lambda>h n v. if assoc_get_all h n = [] then h @ [(n, v)] else h),
      hm_remove = assoc_remove,
      name_from_bytes =
        (\<lambda>b. if b \<noteq> [] \<and> list_all token_byte b then Some (map to_ascii_lower b) else None),
      value_from_str =
        (\<lambda>s. if list_all (\<lambda>c. (32 \<le> byte c \<and> byte c \<noteq> 127) \<or> byte c = 9) s
             then Some (from_static s) else None),
      value_to_str =
        (\<lambda>v. if list_all (\<lambda>c. (32 \<le> byte c \<and> byte c < 127) \<or> byte c = 9) (hv_bytes v)
             then Some (hv_bytes v) else None),
      method_from_bytes =
        (\<lambda>b. if b \<noteq> [] \<and> list_all token_byte b then Some b else None),
      uri_scheme = su_scheme,
      uri_authority = su_authority,
      uri_path = (\<lambda>u. fst (split_path_query (su_path_query u))),
      uri_query = (\<lambda>u. snd (split_path_query (su_path_query u))),
      uri_path_and_query = (\<lambda>u. Some (su_path_query u)),
      uri_build = (\<lambda>s a p. Inr \<lparr>su_scheme = Some s, su_authority = Some a, su_path_query = p\<rparr>),
      uri_parse = simple_parse,
      uri_to_string =
        (\<lambda>u. (case su_scheme u of None \<Rightarrow> [] | Some s \<Rightarrow> s @ ''://'') @
             (case su_authority u of None \<Rightarrow> [] | Some a \<Rightarrow> a) @ su_path_query u)\<rparr>"

lemma assoc_get_all_simps [simp]:
  "assoc_get_all [] n = []"
  "assoc_get_all (h @ g) n = assoc_get_all h n @ assoc_get_all g n"
  "assoc_get_all ((m, v) # h) n = (if m = n then v # assoc_get_all h n else assoc_get_all h n)"
  by (simp_all add: assoc_get_all_def)

lemma assoc_get_all_remove [simp]:
  "assoc_get_all (assoc_remove h n) m = (if m = n then [] else assoc_get_all h m)"
  by (induction h) (auto simp: assoc_remove_def)

interpretation assoc_http: http_crate assoc_lib
proof (unfold_locales, goal_cases)
  case (10 s v)
  have below: "n < 127 \<longleftrightarrow> n < 128 \<and> n \<noteq> 127" for n :: nat
    by auto
  from 10 show ?case
    by (auto simp: assoc_lib_def is_ascii_def list_all_iff from_static_def below split: if_splits)
qed (auto simp: assoc_lib_def graphic_def list_all_iff split: if_splits list.splits)

end
