(* ===== verification/Admission.thy ===== *)
theory Admission
  imports Http_Types
begin

text \<open>
  Model of \<open>src/admission.rs\<close>: tickets and their header transport, the outcomes and errors of
  an admission attempt, the provider interface and the registry of named providers. A provider
  is a record of asynchronous functions; the number each takes first is the time budget in
  milliseconds of the \<open>tokio::time::timeout\<close> around the call. A dropped attempt is
  \<open>Cancelled\<close>.
\<close>

section \<open>Definitions\<close>

definition ADMISSION_SCOPE_HEADER :: string where
  "ADMISSION_SCOPE_HEADER = ''x-breeze-admission-scope''"

definition ADMISSION_TOKEN_HEADER :: string where
  "ADMISSION_TOKEN_HEADER = ''x-breeze-admission-token''"

datatype admission_error =
    Backend string
  | Timeout
  | InvalidTicket
  | InvalidRecorderUrl
  | ParticipationLost

datatype 'u acquire_outcome =
    Acquired "'u admission_ticket"
  | Busy
  | NoRecorder
  | NotParticipant
  | NotEligible
  | QuotaExhausted

text \<open>
  \<open>tokio::time::timeout(budget, c).await.unwrap_or(Err(Timeout))\<close>: a dropped attempt becomes
  \<open>Timeout\<close>. At which await the runtime's timer drops it is part of that await, whose outcome is
  then \<open>Cancelled\<close>; the budget only names the limit that the code sets.
\<close>

definition tokio_timeout :: "duration \<Rightarrow> ('w, admission_error + 'a) fut \<Rightarrow> ('w, admission_error + 'a) fut" where
  "tokio_timeout budget c w =
     (case c w of
        (Cancelled, w') \<Rightarrow> (Ready (Inl Timeout), w')
      | (r, w') \<Rightarrow> (r, w'))"

definition ticket_new ::
  "('h, 'u) http_lib \<Rightarrow> string \<Rightarrow> string \<Rightarrow> admission_error + 'u admission_ticket" where
  "ticket_new L scope token =
     (if trim_is_empty scope \<or> trim_is_empty token \<or> \<not> is_ascii scope \<or> \<not> is_ascii token
      then Inl InvalidTicket
      else case value_from_str L scope of
             None \<Rightarrow> Inl InvalidTicket
           | Some scope' \<Rightarrow>
               (case value_from_str L token of
                  None \<Rightarrow> Inl InvalidTicket
                | Some token' \<Rightarrow>
                    Inr \<lparr>at_scope = scope', at_token = set_sensitive token', at_origin = None\<rparr>))"

text \<open>The accessors unwrap \<open>to_str\<close> with \<open>expect\<close>: \<open>None\<close> is the panic.\<close>

definition ticket_scope :: "('h, 'u) http_lib \<Rightarrow> 'u admission_ticket \<Rightarrow> string option" where
  "ticket_scope L t = value_to_str L (at_scope t)"

definition ticket_token :: "('h, 'u) http_lib \<Rightarrow> 'u admission_ticket \<Rightarrow> string option" where
  "ticket_token L t = value_to_str L (at_token t)"

definition with_origin ::
  "('h, 'u) http_lib \<Rightarrow> 'u admission_ticket \<Rightarrow> 'u \<Rightarrow> admission_error + 'u admission_ticket" where
  "with_origin L t origin =
     (if uri_scheme L origin \<noteq> Some ''http'' \<or> uri_authority L origin = None \<or>
         uri_path L origin \<noteq> ''/'' \<or> uri_query L origin \<noteq> None
      then Inl InvalidRecorderUrl
      else Inr (t\<lparr>at_origin := Some origin\<rparr>))"

definition from_headers ::
  "('h, 'u) http_lib \<Rightarrow> 'h \<Rightarrow> admission_error + 'u admission_ticket option" where
  "from_headers L headers =
     (case (hm_get L headers ADMISSION_SCOPE_HEADER, hm_get L headers ADMISSION_TOKEN_HEADER) of
        (None, None) \<Rightarrow> Inr None
      | (Some scope, Some token) \<Rightarrow>
          if length (hm_get_all L headers ADMISSION_SCOPE_HEADER) \<noteq> 1 \<or>
             length (hm_get_all L headers ADMISSION_TOKEN_HEADER) \<noteq> 1
          then Inl InvalidTicket
          else (case value_to_str L scope of
                  None \<Rightarrow> Inl InvalidTicket
                | Some s \<Rightarrow>
                    (case value_to_str L token of
                       None \<Rightarrow> Inl InvalidTicket
                     | Some k \<Rightarrow> bind_ok (ticket_new L s k) (\<lambda>t. Inr (Some t))))
      | _ \<Rightarrow> Inl InvalidTicket)"

definition attach ::
  "('h, 'u) http_lib \<Rightarrow> 'u admission_ticket \<Rightarrow> ('h, 'u, 'b) request \<Rightarrow> ('h, 'u, 'b) request" where
  "attach L t r =
     r\<lparr>rq_headers :=
         hm_insert L (hm_insert L (rq_headers r) ADMISSION_SCOPE_HEADER (at_scope t))
           ADMISSION_TOKEN_HEADER (at_token t),
       rq_ext := (rq_ext r)\<lparr>ext_ticket := Some t\<rparr>\<rparr>"

text \<open>The fields that the \<open>Debug\<close> implementation prints.\<close>

definition ticket_debug ::
  "('h, 'u) http_lib \<Rightarrow> 'u admission_ticket \<Rightarrow> (string \<times> string) list option" where
  "ticket_debug L t =
     map_option (\<lambda>s. [(''scope'', s), (''token'', ''[REDACTED]'')]) (ticket_scope L t)"

type_synonym ('w, 'u) acquire_fut = "('w, admission_error + 'u acquire_outcome) fut"

record ('w, 'u) admission_provider =
  try_acquire :: "nat \<Rightarrow> string \<Rightarrow> ('w, 'u) acquire_fut"
  try_acquire_request :: "nat \<Rightarrow> string \<Rightarrow> string \<Rightarrow> ('w, 'u) acquire_fut"

text \<open>A provider that keeps the trait's default \<open>try_acquire_request\<close>.\<close>

definition lock_only_provider ::
  "(nat \<Rightarrow> string \<Rightarrow> ('w, 'u) acquire_fut) \<Rightarrow> ('w, 'u) admission_provider" where
  "lock_only_provider acquire =
     \<lparr>try_acquire = acquire, try_acquire_request = (\<lambda>budget scope _. acquire budget scope)\<rparr>"

type_synonym ('w, 'u) admission_registry = "string \<rightharpoonup> ('w, 'u) admission_provider"

datatype registration_error = EmptyName | Duplicate string

definition registry_new :: "('w, 'u) admission_registry" where
  "registry_new = Map.empty"

definition register ::
  "('w, 'u) admission_registry \<Rightarrow> string \<Rightarrow> ('w, 'u) admission_provider \<Rightarrow>
     registration_error + ('w, 'u) admission_registry" where
  "register reg name provider =
     (if trim_is_empty name then Inl EmptyName
      else case reg name of
             Some _ \<Rightarrow> Inl (Duplicate name)
           | None \<Rightarrow> Inr (reg(name \<mapsto> provider)))"

definition registry_get ::
  "('w, 'u) admission_registry \<Rightarrow> string \<Rightarrow> ('w, 'u) admission_provider option" where
  "registry_get reg name = reg name"

lemma tokio_timeout_simps:
  "c w = (Ready x, w') \<Longrightarrow> tokio_timeout budget c w = (Ready x, w')"
  "c w = (Cancelled, w') \<Longrightarrow> tokio_timeout budget c w = (Ready (Inl Timeout), w')"
  "c w = (Panicked, w') \<Longrightarrow> tokio_timeout budget c w = (Panicked, w')"
  by (simp_all add: tokio_timeout_def)

text \<open>Budgets are not evaluated.\<close>

lemma tokio_timeout_millis [code_unfold]: "tokio_timeout (from_millis ms) c = tokio_timeout 0 c"
  by (rule ext) (simp add: tokio_timeout_def)

lemma tokio_timeout_snd [simp]: "snd (tokio_timeout budget c w) = snd (c w)"
  by (simp add: tokio_timeout_def split: prod.splits async.splits)

lemma tokio_timeout_not_cancelled: "fst (tokio_timeout budget c w) \<noteq> Cancelled"
  by (simp add: tokio_timeout_def split: prod.splits async.splits)

section \<open>Well-formed tickets\<close>

text \<open>
  The invariant of \<open>AdmissionTicket\<close>: both values came from the validating constructor, so the
  accessors cannot panic, and the token is marked sensitive.
\<close>

definition ticket_wf :: "('h, 'u) http_lib \<Rightarrow> 'u admission_ticket \<Rightarrow> bool" where
  "ticket_wf L t \<longleftrightarrow>
     (\<exists>s k. ticket_new L s k = Inr (t\<lparr>at_origin := None\<rparr>))"

lemma admission_header_names [simp]:
  "ADMISSION_SCOPE_HEADER \<noteq> ADMISSION_TOKEN_HEADER"
  "ADMISSION_TOKEN_HEADER \<noteq> ADMISSION_SCOPE_HEADER"
  by (simp_all add: ADMISSION_SCOPE_HEADER_def ADMISSION_TOKEN_HEADER_def)

lemma ticket_new_Inr_iff:
  "ticket_new L s k = Inr t \<longleftrightarrow>
     \<not> trim_is_empty s \<and> \<not> trim_is_empty k \<and> is_ascii s \<and> is_ascii k \<and>
     (\<exists>sv kv. value_from_str L s = Some sv \<and> value_from_str L k = Some kv \<and>
        t = \<lparr>at_scope = sv, at_token = set_sensitive kv, at_origin = None\<rparr>)"
  by (auto simp: ticket_new_def split: option.splits)

lemma ticket_new_error: "ticket_new L s k = Inl e \<Longrightarrow> e = InvalidTicket"
  by (auto simp: ticket_new_def split: if_splits option.splits)

lemma with_origin_Inr_iff:
  "with_origin L t u = Inr t' \<longleftrightarrow>
     uri_scheme L u = Some ''http'' \<and> uri_authority L u \<noteq> None \<and> uri_path L u = ''/'' \<and>
     uri_query L u = None \<and> t' = t\<lparr>at_origin := Some u\<rparr>"
  by (auto simp: with_origin_def)

lemma with_origin_error: "with_origin L t u = Inl e \<Longrightarrow> e = InvalidRecorderUrl"
  by (auto simp: with_origin_def split: if_splits)

lemma ticket_new_wf: "ticket_new L s k = Inr t \<Longrightarrow> ticket_wf L t"
  by (force simp: ticket_wf_def ticket_new_Inr_iff)

lemma with_origin_wf: "ticket_wf L t \<Longrightarrow> with_origin L t u = Inr t' \<Longrightarrow> ticket_wf L t'"
  by (auto simp: ticket_wf_def with_origin_Inr_iff)

lemma attach_sel [simp]:
  "rq_method (attach L t r) = rq_method r"
  "rq_uri (attach L t r) = rq_uri r"
  "rq_version (attach L t r) = rq_version r"
  "rq_body (attach L t r) = rq_body r"
  "rq_ext (attach L t r) = (rq_ext r)\<lparr>ext_ticket := Some t\<rparr>"
  by (simp_all add: attach_def)

context http_crate
begin

lemma ticket_new_accessors:
  assumes "ticket_new L s k = Inr t"
  shows "ticket_scope L t = Some s" and "ticket_token L t = Some k"
    and "hv_bytes (at_scope t) = s" and "hv_bytes (at_token t) = k"
    and "hv_sensitive (at_token t)"
  using assms value_readable value_bytes
  by (auto simp: ticket_new_Inr_iff ticket_scope_def ticket_token_def set_sensitive_def
      to_str_sensitive)

lemma ticket_wfE:
  assumes "ticket_wf L t"
  obtains s k where "ticket_new L s k = Inr (t\<lparr>at_origin := None\<rparr>)"
    and "ticket_scope L t = Some s" and "ticket_token L t = Some k"
proof -
  from assms obtain s k where new: "ticket_new L s k = Inr (t\<lparr>at_origin := None\<rparr>)"
    by (auto simp: ticket_wf_def)
  from ticket_new_accessors [OF new] have "ticket_scope L t = Some s" "ticket_token L t = Some k"
    by (simp_all add: ticket_scope_def ticket_token_def)
  with new that show thesis by blast
qed

lemma get_all_attach:
  "hm_get_all L (rq_headers (attach L t r)) n =
     (if n = ADMISSION_TOKEN_HEADER then [at_token t]
      else if n = ADMISSION_SCOPE_HEADER then [at_scope t]
      else hm_get_all L (rq_headers r) n)"
  by (simp add: attach_def)

lemma from_headers_attach:
  assumes "ticket_wf L t"
  shows "from_headers L (rq_headers (attach L t r)) = Inr (Some (t\<lparr>at_origin := None\<rparr>))"
proof -
  from assms obtain s k where "ticket_new L s k = Inr (t\<lparr>at_origin := None\<rparr>)"
    and "value_to_str L (at_scope t) = Some s" and "value_to_str L (at_token t) = Some k"
    by (auto elim: ticket_wfE simp: ticket_scope_def ticket_token_def)
  then show ?thesis by (simp add: from_headers_def get_all_attach)
qed

lemma from_headers_cases:
  "from_headers L h = Inr None \<longleftrightarrow>
     hm_get_all L h ADMISSION_SCOPE_HEADER = [] \<and> hm_get_all L h ADMISSION_TOKEN_HEADER = []"
  "from_headers L h = Inr (Some t) \<Longrightarrow>
     (\<exists>sv kv s k. hm_get_all L h ADMISSION_SCOPE_HEADER = [sv] \<and>
        hm_get_all L h ADMISSION_TOKEN_HEADER = [kv] \<and>
        value_to_str L sv = Some s \<and> value_to_str L kv = Some k \<and> ticket_new L s k = Inr t)"
  by (auto simp: from_headers_def bind_ok_Inr_iff split: list.splits option.splits if_splits)

lemma from_headers_error: "from_headers L h = Inl e \<Longrightarrow> e = InvalidTicket"
  by (auto simp: from_headers_def bind_ok_Inl_iff dest: ticket_new_error
      split: list.splits option.splits if_splits)

end

end
