(* ===== verification/Proxy.thy ===== *)
theory Proxy
  imports Admission
begin

text \<open>
  Model of \<open>src/proxy.rs\<close>: header hygiene, request preparation and the forwarding of one
  request to an HTTP origin.

  The HTTP client, the upgrade handles and body collection belong to \<open>hyper\<close> and
  \<open>brz-http-server\<close>; they are the fields of the argument \<open>H\<close>. The state \<open>net\<close> is the world
  these operations act on together with a log of what this model sent and of the tunnels it
  started. The log is a specification device: no definition reads it. A peer address is its
  printed IP address.
\<close>

section \<open>The HTTP client\<close>

record client_error =
  ce_is_connect :: bool

record ('w, 'h, 'u, 'b, 'rc) hyper_lib =
  hy_request :: "('h, 'u, ('h, 'b) gateway_body) request \<Rightarrow>
     ('w, client_error + ('h, 'rc, 'b) response) fut"
  hy_collect :: "'b \<Rightarrow> ('w, string + string \<times> 'h option) fut"
  hy_request_upgrade :: "('h, 'u, ('h, 'b) gateway_body) request \<Rightarrow> nat"
  hy_on_upgrade :: "('h, 'u, 'b) request \<Rightarrow> nat"
  hy_response_upgrade :: "('h, 'rc, 'b) response \<Rightarrow> nat"

text \<open>The client reports failures as errors; it does not panic.\<close>

locale http_client =
  fixes H :: "('w, 'h, 'u, 'b, 'rc) hyper_lib"
  assumes request_no_panic: "fst (hy_request H q w) \<noteq> Panicked"
    and collect_no_panic: "fst (hy_collect H b w) \<noteq> Panicked"

text \<open>
  \<open>Tunnel d u tasks\<close> is a relay between the downstream handle \<open>d\<close> and the upstream handle
  \<open>u\<close>, spawned on the listener's \<open>UpgradeTasks\<close> (\<open>Some\<close>) or on the runtime (\<open>None\<close>).
\<close>

datatype ('h, 'u, 'b) net_event =
    Sent "('h, 'u, ('h, 'b) gateway_body) request"
  | Tunnel nat nat "nat option"

record ('w, 'h, 'u, 'b) net =
  nw_world :: 'w
  nw_log :: "('h, 'u, 'b) net_event list"

definition lift_net :: "('w, 'a) fut \<Rightarrow> (('w, 'h, 'u, 'b) net, 'a) fut" where
  "lift_net c s = (case c (nw_world s) of (r, w') \<Rightarrow> (r, s\<lparr>nw_world := w'\<rparr>))"

definition log_event :: "('h, 'u, 'b) net_event \<Rightarrow> (('w, 'h, 'u, 'b) net, unit) fut" where
  "log_event e s = (Ready (), s\<lparr>nw_log := nw_log s @ [e]\<rparr>)"

text \<open>\<open>self.client.request(request).await\<close>.\<close>

definition send_request ::
  "('w, 'h, 'u, 'b, 'rc) hyper_lib \<Rightarrow> ('h, 'u, ('h, 'b) gateway_body) request \<Rightarrow>
     (('w, 'h, 'u, 'b) net, client_error + ('h, 'rc, 'b) response) fut" where
  "send_request H request = await (log_event (Sent request)) (\<lambda>_. lift_net (hy_request H request))"

definition panic :: "('w, 'a) fut" where
  "panic w = (Panicked, w)"

section \<open>Definitions\<close>

definition X_FORWARDED_FOR :: string where "X_FORWARDED_FOR = ''x-forwarded-for''"
definition X_FORWARDED_HOST :: string where "X_FORWARDED_HOST = ''x-forwarded-host''"
definition X_FORWARDED_PROTO :: string where "X_FORWARDED_PROTO = ''x-forwarded-proto''"

abbreviation (input) HOST :: string where "HOST \<equiv> ''host''"
abbreviation (input) CONNECTION :: string where "CONNECTION \<equiv> ''connection''"
abbreviation (input) UPGRADE :: string where "UPGRADE \<equiv> ''upgrade''"

datatype connect_failure = ConnectFailure

datatype proxy_config_error =
    MissingScheme
  | MissingAuthority
  | UnsupportedScheme string
  | UnexpectedPath

definition proxy_from_admission :: fallback_proxy where
  "proxy_from_admission = \<lparr>fp_scheme = ''http'', fp_authority = None\<rparr>"

definition proxy_new :: "('h, 'u) http_lib \<Rightarrow> 'u \<Rightarrow> proxy_config_error + fallback_proxy" where
  "proxy_new L upstream =
     (case uri_scheme L upstream of
        None \<Rightarrow> Inl MissingScheme
      | Some scheme \<Rightarrow>
          if scheme \<noteq> ''http'' then Inl (UnsupportedScheme scheme)
          else case uri_authority L upstream of
                 None \<Rightarrow> Inl MissingAuthority
               | Some authority \<Rightarrow>
                   if uri_path L upstream \<noteq> ''/'' \<or> uri_query L upstream \<noteq> None
                   then Inl UnexpectedPath
                   else Inr \<lparr>fp_scheme = scheme, fp_authority = Some authority\<rparr>)"

definition blank :: "char \<Rightarrow> bool" where
  "blank c \<longleftrightarrow> c = CHR '' '' \<or> c = CHR 0x09"

fun trim_ascii_front :: "string \<Rightarrow> string" where
  "trim_ascii_front [] = []"
| "trim_ascii_front (c # s) = (if blank c then trim_ascii_front s else c # s)"

function trim_ascii_back :: "string \<Rightarrow> string" where
  "trim_ascii_back s =
     (if s \<noteq> [] \<and> blank (last s) then trim_ascii_back (butlast s) else s)"
  by pat_completeness auto
termination
  by (relation "measure length") auto

declare trim_ascii_back.simps [simp del]

definition trim_ascii :: "string \<Rightarrow> string" where
  "trim_ascii s = trim_ascii_back (trim_ascii_front s)"

definition contains_token :: "string \<Rightarrow> string \<Rightarrow> bool" where
  "contains_token value expected \<longleftrightarrow>
     list_ex (\<lambda>token. eq_ignore_ascii_case (trim_ascii token) expected) (split_on CHR '','' value)"

definition is_upgrade :: "('h, 'u) http_lib \<Rightarrow> 'h \<Rightarrow> bool" where
  "is_upgrade L headers \<longleftrightarrow>
     hm_contains_key L headers UPGRADE \<and>
     list_ex (\<lambda>value. contains_token (hv_bytes value) ''upgrade'') (hm_get_all L headers CONNECTION)"

definition nominated :: "('h, 'u) http_lib \<Rightarrow> 'h \<Rightarrow> string list" where
  "nominated L headers =
     List.map_filter (\<lambda>name. name_from_bytes L (trim_ascii name))
       (concat (map (\<lambda>value. split_on CHR '','' (hv_bytes value)) (hm_get_all L headers CONNECTION)))"

definition hop_by_hop_names :: "string list" where
  "hop_by_hop_names =
     [''keep-alive'', ''proxy-authenticate'', ''proxy-authorization'', ''te'', ''trailer'',
      ''transfer-encoding'']"

definition remove_hop_by_hop_headers :: "('h, 'u) http_lib \<Rightarrow> 'h \<Rightarrow> bool \<Rightarrow> 'h" where
  "remove_hop_by_hop_headers L headers preserve_upgrade =
     (let h1 = fold (\<lambda>name h. if \<not> preserve_upgrade \<or> name \<noteq> UPGRADE then hm_remove L h name else h)
                 (nominated L headers) headers;
          h2 = fold (\<lambda>name h. hm_remove L h name) hop_by_hop_names h1
      in if \<not> preserve_upgrade then hm_remove L (hm_remove L h2 CONNECTION) UPGRADE else h2)"

definition append_forwarded_for :: "('h, 'u) http_lib \<Rightarrow> 'h \<Rightarrow> string \<Rightarrow> 'h" where
  "append_forwarded_for L headers address =
     (case hm_get L headers X_FORWARDED_FOR of
        Some existing \<Rightarrow>
          (case value_to_str L existing of
             None \<Rightarrow>
               let headers' = hm_remove L headers X_FORWARDED_FOR
               in (case value_from_str L address of
                     Some value \<Rightarrow> hm_insert L headers' X_FORWARDED_FOR value
                   | None \<Rightarrow> headers')
           | Some text \<Rightarrow>
               (case value_from_str L (text @ '', '' @ address) of
                  Some value \<Rightarrow> hm_insert L headers X_FORWARDED_FOR value
                | None \<Rightarrow> headers))
      | None \<Rightarrow>
          (case value_from_str L address of
             Some value \<Rightarrow> hm_insert L headers X_FORWARDED_FOR value
           | None \<Rightarrow> headers))"

definition error_response :: "('h, 'u) http_lib \<Rightarrow> nat \<Rightarrow> string \<Rightarrow> ('h, 'rc, ('h, 'b) gateway_body) response" where
  "error_response L status message =
     \<lparr>rs_status = status,
      rs_headers = hm_insert L (hm_empty L) ''content-type'' (from_static ''text/plain; charset=utf-8''),
      rs_cors = None, rs_body = Full message\<rparr>"

definition upstream_unavailable :: "('h, 'u) http_lib \<Rightarrow> ('h, 'rc, ('h, 'b) gateway_body) response" where
  "upstream_unavailable L = error_response L 502 ''fallback upstream unavailable''"

text \<open>The origin that a request's ticket carries.\<close>

definition ticket_origin :: "('h, 'u, 'b) request \<Rightarrow> 'u option" where
  "ticket_origin r = Option.bind (ext_ticket (rq_ext r)) at_origin"

definition target_authority ::
  "('h, 'u) http_lib \<Rightarrow> fallback_proxy \<Rightarrow> ('h, 'u, 'b) request \<Rightarrow> string option" where
  "target_authority L self r =
     (case Option.bind (ticket_origin r) (uri_authority L) of
        Some a \<Rightarrow> Some a
      | None \<Rightarrow> fp_authority self)"

definition prepare_headers :: "('h, 'u) http_lib \<Rightarrow> 'h \<Rightarrow> string \<Rightarrow> bool \<Rightarrow> 'h" where
  "prepare_headers L headers peer upgrade =
     (let original_host = hm_get L headers HOST;
          h1 = remove_hop_by_hop_headers L headers upgrade;
          h2 = append_forwarded_for L h1 peer;
          h3 = hm_or_insert L h2 X_FORWARDED_PROTO (from_static ''http'')
      in case original_host of
           None \<Rightarrow> h3
         | Some host \<Rightarrow> hm_or_insert L h3 X_FORWARDED_HOST host)"

text \<open>\<open>None\<close> is the panic of \<open>expect("an origin is required before preparing the request")\<close>.\<close>

definition prepare_request ::
  "('h, 'u) http_lib \<Rightarrow> fallback_proxy \<Rightarrow> ('h, 'u, 'b) request \<Rightarrow> string \<Rightarrow> bool \<Rightarrow>
     (string + ('h, 'u, 'b) request) option" where
  "prepare_request L self r peer upgrade =
     (let path_and_query = (case uri_path_and_query L (rq_uri r) of None \<Rightarrow> ''/'' | Some p \<Rightarrow> p)
      in case target_authority L self r of
           None \<Rightarrow> None
         | Some authority \<Rightarrow>
             Some (bind_ok (uri_build L (fp_scheme self) authority path_and_query)
               (\<lambda>uri.
                  let r1 = r\<lparr>rq_uri := uri,
                             rq_headers := prepare_headers L (rq_headers r) peer upgrade\<rparr>
                  in Inr (case ext_ticket (rq_ext r1) of
                            None \<Rightarrow> r1
                          | Some ticket \<Rightarrow> attach L ticket r1))))"

type_synonym ('h, 'rc, 'b) gateway_response = "('h, 'rc, ('h, 'b) gateway_body) response"

definition finish_response ::
  "('h, 'u) http_lib \<Rightarrow> ('w, 'h, 'u, 'b, 'rc) hyper_lib \<Rightarrow> nat option \<Rightarrow> nat option \<Rightarrow>
     ('h, 'rc, 'b) response \<Rightarrow>
     (('w, 'h, 'u, 'b) net, (connect_failure + ('h, 'rc, 'b) gateway_response) \<times> nat option) fut" where
  "finish_response L H upgrades downstream response =
     (if rs_status response = 101 then
        (case downstream of
           Some d \<Rightarrow>
             await (log_event (Tunnel d (hy_response_upgrade H response) upgrades))
               (\<lambda>_. ret (Inr (map_response Streamed response), None))
         | None \<Rightarrow> ret (Inr (map_response Streamed response), None))
      else
        ret (Inr (map_response Streamed
                (response\<lparr>rs_headers := remove_hop_by_hop_headers L (rs_headers response) False\<rparr>)),
             downstream))"

text \<open>The second component of the result is \<open>downstream_upgrade\<close> after the call.\<close>

definition try_forward_body ::
  "('h, 'u) http_lib \<Rightarrow> ('w, 'h, 'u, 'b, 'rc) hyper_lib \<Rightarrow> fallback_proxy \<Rightarrow>
     ('h, 'u, ('h, 'b) gateway_body) request \<Rightarrow> string \<Rightarrow> nat option \<Rightarrow>
     (('w, 'h, 'u, 'b) net, (connect_failure + ('h, 'rc, 'b) gateway_response) \<times> nat option) fut" where
  "try_forward_body L H self request peer downstream =
     (if fp_authority self = None \<and> ticket_origin request = None then
        ret (Inr (error_response L 503 ''recorder origin is missing''), downstream)
      else case prepare_request L self request peer (is_upgrade L (rq_headers request)) of
             None \<Rightarrow> panic
           | Some (Inl error) \<Rightarrow> ret (Inr (error_response L 502 error), downstream)
           | Some (Inr prepared) \<Rightarrow>
               (let upgrades = ext_upgrades (rq_ext prepared);
                    outgoing = prepared\<lparr>rq_ext := (rq_ext prepared)\<lparr>ext_upgrades := None\<rparr>\<rparr>
                in await (send_request H outgoing)
                     (\<lambda>result. case result of
                        Inl error \<Rightarrow>
                          if ce_is_connect error then ret (Inl ConnectFailure, downstream)
                          else ret (Inr (upstream_unavailable L), downstream)
                      | Inr response \<Rightarrow> finish_response L H upgrades downstream response)))"

definition forward_body ::
  "('h, 'u) http_lib \<Rightarrow> ('w, 'h, 'u, 'b, 'rc) hyper_lib \<Rightarrow> fallback_proxy \<Rightarrow>
     ('h, 'u, ('h, 'b) gateway_body) request \<Rightarrow> string \<Rightarrow>
     (('w, 'h, 'u, 'b) net, ('h, 'rc, 'b) gateway_response) fut" where
  "forward_body L H self request peer =
     (let downstream =
            (if is_upgrade L (rq_headers request) then Some (hy_request_upgrade H request) else None)
      in await (try_forward_body L H self request peer downstream)
           (\<lambda>(result, _). ret (case result of
                                 Inl _ \<Rightarrow> upstream_unavailable L
                               | Inr response \<Rightarrow> response)))"

definition forward ::
  "('h, 'u) http_lib \<Rightarrow> ('w, 'h, 'u, 'b, 'rc) hyper_lib \<Rightarrow> fallback_proxy \<Rightarrow>
     ('h, 'u, 'b) request \<Rightarrow> string \<Rightarrow>
     (('w, 'h, 'u, 'b) net, ('h, 'rc, 'b) gateway_response) fut" where
  "forward L H self request peer = forward_body L H self (map_request Streamed request) peer"

section \<open>Tokens and trimming\<close>

lemma trim_ascii_front_dropWhile: "trim_ascii_front s = dropWhile blank s"
  by (induction s) auto

lemma trim_ascii_back_dropWhile: "trim_ascii_back s = rev (dropWhile blank (rev s))"
proof (induction s rule: trim_ascii_back.induct)
  case (1 s)
  show ?case
  proof (cases s rule: rev_cases)
    case Nil
    then show ?thesis by (simp add: trim_ascii_back.simps)
  next
    case (snoc t c)
    with 1 show ?thesis by (subst trim_ascii_back.simps) simp
  qed
qed

text \<open>
  The two loops remove a blank prefix and a blank suffix and nothing else, and what is left
  neither starts nor ends with a blank.
\<close>

lemma trim_ascii_split:
  "\<exists>a b. s = a @ trim_ascii s @ b \<and> list_all blank a \<and> list_all blank b"
proof -
  let ?t = "dropWhile blank s"
  have "s = takeWhile blank s @ ?t" by simp
  moreover have "?t = rev (dropWhile blank (rev ?t)) @ rev (takeWhile blank (rev ?t))"
    by (metis rev_append rev_rev_ident takeWhile_dropWhile_id)
  ultimately have "s = takeWhile blank s @ trim_ascii s @ rev (takeWhile blank (rev ?t))"
    by (simp add: trim_ascii_def trim_ascii_front_dropWhile trim_ascii_back_dropWhile)
  moreover have "list_all blank (takeWhile blank s)" and "list_all blank (rev (takeWhile blank (rev ?t)))"
    by (auto simp: list_all_iff dest: set_takeWhileD)
  ultimately show ?thesis by blast
qed

lemma trim_ascii_ends:
  assumes "trim_ascii s \<noteq> []"
  shows "\<not> blank (hd (trim_ascii s))" and "\<not> blank (last (trim_ascii s))"
proof -
  let ?t = "dropWhile blank s"
  have eq: "trim_ascii s = rev (dropWhile blank (rev ?t))"
    by (simp add: trim_ascii_def trim_ascii_front_dropWhile trim_ascii_back_dropWhile)
  from assms show "\<not> blank (last (trim_ascii s))"
    unfolding eq by (metis hd_dropWhile last_rev rev_is_Nil_conv)
  obtain b where tb: "?t = trim_ascii s @ b"
    unfolding eq by (metis rev_append rev_rev_ident takeWhile_dropWhile_id)
  with assms have "hd (trim_ascii s) = hd ?t" and "?t \<noteq> []" by auto
  then show "\<not> blank (hd (trim_ascii s))" by (metis hd_dropWhile)
qed

section \<open>Header hygiene\<close>

text \<open>The names that \<open>remove_hop_by_hop_headers\<close> takes out.\<close>

definition stripped_names :: "('h, 'u) http_lib \<Rightarrow> 'h \<Rightarrow> bool \<Rightarrow> string set" where
  "stripped_names L headers preserve_upgrade =
     set hop_by_hop_names \<union>
     {n \<in> set (nominated L headers). preserve_upgrade \<longrightarrow> n \<noteq> UPGRADE} \<union>
     (if preserve_upgrade then {} else {CONNECTION, UPGRADE})"

lemma forwarded_names [simp]:
  "X_FORWARDED_FOR \<noteq> X_FORWARDED_PROTO" "X_FORWARDED_PROTO \<noteq> X_FORWARDED_FOR"
  "X_FORWARDED_FOR \<noteq> X_FORWARDED_HOST" "X_FORWARDED_HOST \<noteq> X_FORWARDED_FOR"
  "X_FORWARDED_PROTO \<noteq> X_FORWARDED_HOST" "X_FORWARDED_HOST \<noteq> X_FORWARDED_PROTO"
  "X_FORWARDED_FOR \<noteq> ADMISSION_SCOPE_HEADER" "ADMISSION_SCOPE_HEADER \<noteq> X_FORWARDED_FOR"
  "X_FORWARDED_FOR \<noteq> ADMISSION_TOKEN_HEADER" "ADMISSION_TOKEN_HEADER \<noteq> X_FORWARDED_FOR"
  "X_FORWARDED_PROTO \<noteq> ADMISSION_SCOPE_HEADER" "ADMISSION_SCOPE_HEADER \<noteq> X_FORWARDED_PROTO"
  "X_FORWARDED_PROTO \<noteq> ADMISSION_TOKEN_HEADER" "ADMISSION_TOKEN_HEADER \<noteq> X_FORWARDED_PROTO"
  "X_FORWARDED_HOST \<noteq> ADMISSION_SCOPE_HEADER" "ADMISSION_SCOPE_HEADER \<noteq> X_FORWARDED_HOST"
  "X_FORWARDED_HOST \<noteq> ADMISSION_TOKEN_HEADER" "ADMISSION_TOKEN_HEADER \<noteq> X_FORWARDED_HOST"
  by (simp_all add: X_FORWARDED_FOR_def X_FORWARDED_PROTO_def X_FORWARDED_HOST_def
      ADMISSION_SCOPE_HEADER_def ADMISSION_TOKEN_HEADER_def)

context http_crate
begin

lemma get_all_remove_unless:
  "hm_get_all L (fold (\<lambda>n h. if Q n then hm_remove L h n else h) ns h) m =
     (if m \<in> set ns \<and> Q m then [] else hm_get_all L h m)"
  by (induction ns arbitrary: h) auto

lemma get_all_remove_hop_by_hop:
  "hm_get_all L (remove_hop_by_hop_headers L h preserve) n =
     (if n \<in> stripped_names L h preserve then [] else hm_get_all L h n)"
  by (auto simp: remove_hop_by_hop_headers_def Let_def get_all_remove_unless get_all_remove_all
      stripped_names_def)

lemma get_all_append_forwarded_for_other:
  "n \<noteq> X_FORWARDED_FOR \<Longrightarrow>
     hm_get_all L (append_forwarded_for L h address) n = hm_get_all L h n"
  by (auto simp: append_forwarded_for_def Let_def split: option.splits list.splits)

lemma get_all_prepare_headers_other:
  assumes "n \<notin> {X_FORWARDED_FOR, X_FORWARDED_HOST, X_FORWARDED_PROTO}"
  shows "hm_get_all L (prepare_headers L h peer upgrade) n =
     (if n \<in> stripped_names L h upgrade then [] else hm_get_all L h n)"
  using assms
  by (auto simp: prepare_headers_def Let_def get_all_append_forwarded_for_other
      get_all_remove_hop_by_hop split: option.splits list.splits)

lemma get_all_prepare_headers_forwarded:
  assumes "\<And>n. kept n = (if n \<in> stripped_names L h upgrade then [] else hm_get_all L h n)"
  shows "hm_get_all L (prepare_headers L h peer upgrade) X_FORWARDED_PROTO =
      (if kept X_FORWARDED_PROTO = [] then [from_static ''http''] else kept X_FORWARDED_PROTO)"
    and "hm_get_all L (prepare_headers L h peer upgrade) X_FORWARDED_HOST =
      (case hm_get_all L h HOST of
         host # _ \<Rightarrow> if kept X_FORWARDED_HOST = [] then [host] else kept X_FORWARDED_HOST
       | [] \<Rightarrow> kept X_FORWARDED_HOST)"
  by (auto simp: prepare_headers_def Let_def get_all_append_forwarded_for_other get_all_remove_hop_by_hop assms
      split: option.splits list.splits)

lemma get_all_prepare_headers_absent:
  assumes "n \<notin> {X_FORWARDED_FOR, X_FORWARDED_HOST, X_FORWARDED_PROTO}" and "hm_get_all L h n = []"
  shows "hm_get_all L (prepare_headers L h peer upgrade) n = []"
  using assms by (simp add: get_all_prepare_headers_other)

end

section \<open>Forwarding\<close>

text \<open>The request that \<open>try_forward_body\<close> puts on the wire, when it gets that far.\<close>

definition wire_request ::
  "('h, 'u) http_lib \<Rightarrow> fallback_proxy \<Rightarrow> ('h, 'u, 'b) request \<Rightarrow> string \<Rightarrow>
     ('h, 'u, 'b) request option" where
  "wire_request L self r peer =
     (if fp_authority self = None \<and> ticket_origin r = None then None
      else case prepare_request L self r peer (is_upgrade L (rq_headers r)) of
             Some (Inr p) \<Rightarrow> Some (p\<lparr>rq_ext := (rq_ext p)\<lparr>ext_upgrades := None\<rparr>\<rparr>)
           | _ \<Rightarrow> None)"

text \<open>A ticket origin always has an authority: \<open>with_origin\<close> checks it.\<close>

definition origin_ok :: "('h, 'u) http_lib \<Rightarrow> ('h, 'u, 'b) request \<Rightarrow> bool" where
  "origin_ok L r \<longleftrightarrow> (\<forall>u. ticket_origin r = Some u \<longrightarrow> uri_authority L u \<noteq> None)"

lemma origin_ok_map [simp]: "origin_ok L (map_request f r) = origin_ok L r"
  by (simp add: origin_ok_def ticket_origin_def)

lemma prepare_request_shape:
  assumes "prepare_request L self r peer upgrade = Some (Inr p)"
  shows "\<exists>u. p =
    (let r1 = r\<lparr>rq_uri := u, rq_headers := prepare_headers L (rq_headers r) peer upgrade\<rparr>
     in case ext_ticket (rq_ext r) of None \<Rightarrow> r1 | Some t \<Rightarrow> attach L t r1)"
  using assms
  by (cases "ext_ticket (rq_ext r)")
    (auto simp: prepare_request_def Let_def bind_ok_Inr_iff split: option.splits)

lemma prepare_request_sel:
  assumes "prepare_request L self r peer upgrade = Some (Inr p)"
  shows "rq_method p = rq_method r" and "rq_version p = rq_version r" and "rq_body p = rq_body r"
    and "rq_ext p = rq_ext r"
  using assms
  by (auto simp: prepare_request_def Let_def bind_ok_Inr_iff split: option.splits)

lemma prepare_request_uri:
  assumes "prepare_request L self r peer upgrade = Some (Inr p)"
  shows "\<exists>a. target_authority L self r = Some a \<and>
    uri_build L (fp_scheme self) a
      (case uri_path_and_query L (rq_uri r) of None \<Rightarrow> ''/'' | Some q \<Rightarrow> q) = Inr (rq_uri p)"
  using assms
  by (auto simp: prepare_request_def Let_def bind_ok_Inr_iff split: option.splits)

context http_crate
begin

lemma prepare_request_forwarded:
  assumes "prepare_request L self r peer up = Some (Inr p)" and "n \<in> {X_FORWARDED_FOR, X_FORWARDED_HOST, X_FORWARDED_PROTO}"
  shows "hm_get_all L (rq_headers p) n = hm_get_all L (prepare_headers L (rq_headers r) peer up) n"
proof -
  from assms(1) obtain u where "p =
    (let r1 = r\<lparr>rq_uri := u, rq_headers := prepare_headers L (rq_headers r) peer up\<rparr>
     in case ext_ticket (rq_ext r) of None \<Rightarrow> r1 | Some t \<Rightarrow> attach L t r1)"
    using prepare_request_shape by blast
  with assms(2) show ?thesis
    by (cases "ext_ticket (rq_ext r)") (auto simp: Let_def get_all_attach)
qed

lemma prepare_request_headers:
  assumes "prepare_request L self r peer up = Some (Inr p)"
    and "n \<notin> {X_FORWARDED_FOR, X_FORWARDED_HOST, X_FORWARDED_PROTO}"
  shows "hm_get_all L (rq_headers p) n =
    (case ext_ticket (rq_ext r) of
       Some t \<Rightarrow> if n = ADMISSION_TOKEN_HEADER then [at_token t]
                 else if n = ADMISSION_SCOPE_HEADER then [at_scope t]
                 else if n \<in> stripped_names L (rq_headers r) up then []
                 else hm_get_all L (rq_headers r) n
     | None \<Rightarrow> if n \<in> stripped_names L (rq_headers r) up then []
               else hm_get_all L (rq_headers r) n)"
proof -
  from assms(1) obtain u where "p =
    (let r1 = r\<lparr>rq_uri := u, rq_headers := prepare_headers L (rq_headers r) peer up\<rparr>
     in case ext_ticket (rq_ext r) of None \<Rightarrow> r1 | Some t \<Rightarrow> attach L t r1)"
    using prepare_request_shape by blast
  with assms(2) show ?thesis
    by (cases "ext_ticket (rq_ext r)") (simp_all add: Let_def get_all_attach get_all_prepare_headers_other)
qed

end

lemma send_request_eq:
  "send_request H q s =
     (case hy_request H q (nw_world s) of
        (r, w') \<Rightarrow> (r, s\<lparr>nw_world := w', nw_log := nw_log s @ [Sent q]\<rparr>))"
  by (simp add: send_request_def await_def log_event_def lift_net_def split: prod.splits)

lemma finish_response_log:
  assumes "finish_response L H upgrades d response s = (res, s')"
  shows "nw_log s' = nw_log s @
    (case d of Some h \<Rightarrow> if rs_status response = 101
                       then [Tunnel h (hy_response_upgrade H response) upgrades] else []
             | None \<Rightarrow> [])"
    and "\<exists>out d'. res = Ready (Inr out, d') \<and> rs_status out = rs_status response \<and>
      d' = (if rs_status response = 101 then None else d)"
  using assms
  by (auto simp: finish_response_def await_def log_event_def split: if_splits option.splits)

lemma try_forward_body_unsent:
  assumes "wire_request L self r peer = None" and "origin_ok L r"
  shows "\<exists>e. try_forward_body L H self r peer d s = (Ready (Inr e, d), s) \<and> rs_status e \<in> {502, 503}"
proof (cases "fp_authority self = None \<and> ticket_origin r = None")
  case True
  then show ?thesis by (simp add: try_forward_body_def error_response_def)
next
  case False
  with assms obtain e where
    "prepare_request L self r peer (is_upgrade L (rq_headers r)) = Some (Inl e)"
    by (auto simp: wire_request_def origin_ok_def prepare_request_def target_authority_def Let_def
        bind_ok_def split: option.splits sum.splits)
  with False show ?thesis by (simp add: try_forward_body_def error_response_def)
qed

lemma try_forward_body_sent:
  assumes "wire_request L self r peer = Some q"
  shows "try_forward_body L H self r peer d s =
    await (send_request H q)
      (\<lambda>result. case result of
          Inl error \<Rightarrow> if ce_is_connect error then ret (Inl ConnectFailure, d)
                       else ret (Inr (upstream_unavailable L), d)
        | Inr response \<Rightarrow> finish_response L H (ext_upgrades (rq_ext r)) d response) s"
  using assms
  by (auto simp: wire_request_def try_forward_body_def Let_def dest: prepare_request_sel(4)
      split: if_splits option.splits sum.splits)

lemma wire_requestE:
  assumes "wire_request L self r peer = Some q"
  obtains p where "prepare_request L self r peer (is_upgrade L (rq_headers r)) = Some (Inr p)"
    and "q = p\<lparr>rq_ext := (rq_ext r)\<lparr>ext_upgrades := None\<rparr>\<rparr>"
  using assms that
  by (simp add: wire_request_def prepare_request_sel(4)
      split: if_splits option.splits sum.splits)

lemma wire_request_sel:
  assumes "wire_request L self r peer = Some q"
  shows "rq_method q = rq_method r" and "rq_version q = rq_version r" and "rq_body q = rq_body r"
    and "rq_ext q = (rq_ext r)\<lparr>ext_upgrades := None\<rparr>"
  by (rule wire_requestE [OF assms]; simp add: prepare_request_sel)+

context http_client
begin

lemma try_forward_body_no_panic:
  assumes "origin_ok L r"
  shows "fst (try_forward_body L H self r peer d s) \<noteq> Panicked"
proof (cases "wire_request L self r peer")
  case None
  with try_forward_body_unsent [OF None assms, of H d s] show ?thesis by auto
next
  case (Some q)
  have "fst (finish_response L H up d resp s1) \<noteq> Panicked" for up resp s1
    by (metis async.distinct(4) finish_response_log(2) prod.collapse)
  with Some request_no_panic [of q "nw_world s"] show ?thesis
    by (auto simp: try_forward_body_sent [OF Some] await_def send_request_eq
        split: prod.splits async.splits sum.splits)
qed

lemma forward_no_panic:
  assumes "origin_ok L r"
  shows "fst (forward L H self r peer s) \<noteq> Panicked"
  unfolding forward_def forward_body_def Let_def
  using assms by (intro await_no_panic try_forward_body_no_panic) (auto split: prod.splits)

end

context http_crate
begin

lemma wire_request_authority:
  assumes "wire_request L self r peer = Some q"
  shows "uri_authority L (rq_uri q) = target_authority L self r"
  by (rule wire_requestE [OF assms]) (auto dest!: prepare_request_uri build_authority)

end

end
