(* ===== verification/Replay.thy ===== *)
theory Replay
  imports Proxy
begin

text \<open>
  Model of \<open>src/proxy/replay.rs\<close>: the buffered request body and the single replay of an
  admitted request to the original origin.
\<close>

section \<open>The replay body\<close>

datatype 'h frame = Data string | Trailers 'h

definition replay_body :: "string \<Rightarrow> 'h option \<Rightarrow> 'h replay_body" where
  "replay_body bytes trailers =
     \<lparr>rb_bytes = (if bytes \<noteq> [] then Some bytes else None), rb_trailers = trailers\<rparr>"

definition poll_frame :: "'h replay_body \<Rightarrow> 'h frame option \<times> 'h replay_body" where
  "poll_frame body =
     (let after_bytes = body\<lparr>rb_bytes := None\<rparr>;
          last_frame = (map_option Trailers (rb_trailers body), after_bytes\<lparr>rb_trailers := None\<rparr>)
      in case rb_bytes body of
           Some bytes \<Rightarrow> if bytes \<noteq> [] then (Some (Data bytes), after_bytes) else last_frame
         | None \<Rightarrow> last_frame)"

definition is_end_stream :: "'h replay_body \<Rightarrow> bool" where
  "is_end_stream body \<longleftrightarrow> rb_bytes body = None \<and> rb_trailers body = None"

text \<open>A size hint is its lower bound and its optional upper bound.\<close>

definition size_hint :: "'h replay_body \<Rightarrow> nat \<times> nat option" where
  "size_hint body =
     (if rb_trailers body = None
      then let n = (case rb_bytes body of None \<Rightarrow> 0 | Some bytes \<Rightarrow> length bytes) in (n, Some n)
      else (0, None))"

section \<open>Forwarding with one replay\<close>

definition retry_request ::
  "('h, 'u) http_lib \<Rightarrow> ('h, 'u, ('h, 'b) gateway_body) request \<Rightarrow> ('h, 'b) gateway_body \<Rightarrow>
     ('h, 'u, ('h, 'b) gateway_body) request" where
  "retry_request L request body =
     \<lparr>rq_method = rq_method request, rq_uri = rq_uri request, rq_version = rq_version request,
      rq_headers =
        hm_remove L (hm_remove L (rq_headers request) ADMISSION_SCOPE_HEADER) ADMISSION_TOKEN_HEADER,
      rq_ext = no_extensions\<lparr>ext_upgrades := ext_upgrades (rq_ext request)\<rparr>,
      rq_body = body\<rparr>"

text \<open>The request with its collected body, as it is sent first, and the replay step.\<close>

definition buffered_request ::
  "('h, 'u, 'b) request \<Rightarrow> string \<Rightarrow> 'h option \<Rightarrow> ('h, 'u, ('h, 'b) gateway_body) request" where
  "buffered_request r bytes trailers =
     map_request (\<lambda>_. Replayed (replay_body bytes trailers))
       (r\<lparr>rq_ext := (rq_ext r)\<lparr>ext_recording := None\<rparr>\<rparr>)"

definition replay_step ::
  "('h, 'u) http_lib \<Rightarrow> ('w, 'h, 'u, 'b, 'rc) hyper_lib \<Rightarrow> fallback_proxy \<Rightarrow>
     ('h, 'u, ('h, 'b) gateway_body) request \<Rightarrow> string \<Rightarrow> nat option \<Rightarrow>
     (('w, 'h, 'u, 'b) net, ('h, 'rc, 'b) gateway_response) fut" where
  "replay_step L H fallback r peer handle =
     await (try_forward_body L H fallback (retry_request L r (rq_body r)) peer handle)
       (\<lambda>(result, _). ret (case result of
                            Inl _ \<Rightarrow> upstream_unavailable L
                          | Inr response \<Rightarrow> response))"

definition on_upgrade_handle ::
  "('h, 'u) http_lib \<Rightarrow> ('w, 'h, 'u, 'b, 'rc) hyper_lib \<Rightarrow> ('h, 'u, 'b) request \<Rightarrow> nat option" where
  "on_upgrade_handle L H r =
     (if is_upgrade L (rq_headers r)
      then Some (hy_on_upgrade H (r\<lparr>rq_ext := (rq_ext r)\<lparr>ext_recording := None\<rparr>\<rparr>)) else None)"

definition forward_recording ::
  "('h, 'u) http_lib \<Rightarrow> ('w, 'h, 'u, 'b, 'rc) hyper_lib \<Rightarrow> fallback_proxy \<Rightarrow>
     ('h, 'u, 'b) request \<Rightarrow> string \<Rightarrow>
     (('w, 'h, 'u, 'b) net, ('h, 'rc, 'b) gateway_response) fut" where
  "forward_recording L H self request peer =
     (case ext_recording (rq_ext request) of
        None \<Rightarrow> forward L H self (request\<lparr>rq_ext := (rq_ext request)\<lparr>ext_recording := None\<rparr>\<rparr>) peer
      | Some fallback \<Rightarrow>
          await (lift_net (hy_collect H (rq_body request)))
            (\<lambda>collected. case collected of
               Inl error \<Rightarrow> ret (error_response L 400 ''failed to read request body'')
             | Inr (bytes, trailers) \<Rightarrow>
                 await (try_forward_body L H self (buffered_request request bytes trailers) peer
                         (on_upgrade_handle L H request))
                   (\<lambda>(result, handle). case result of
                      Inr response \<Rightarrow>
                        if \<not> is_upgrade L (rq_headers request) \<and> rs_status response = 404
                        then replay_step L H fallback (buffered_request request bytes trailers) peer handle
                        else ret response
                    | Inl _ \<Rightarrow>
                        replay_step L H fallback (buffered_request request bytes trailers) peer handle)))"

section \<open>Frames of the replay body\<close>

text \<open>Everything a consumer reads from a body: poll until the stream ends.\<close>

function drain :: "'h replay_body \<Rightarrow> 'h frame list" where
  "drain body =
     (case poll_frame body of (None, _) \<Rightarrow> [] | (Some f, body') \<Rightarrow> f # drain body')"
  by pat_completeness auto
termination
  by (relation "measure (\<lambda>b. (case rb_bytes b of None \<Rightarrow> 0 | Some _ \<Rightarrow> 1) +
        (case rb_trailers b of None \<Rightarrow> (0::nat) | Some _ \<Rightarrow> 1))")
    (auto simp: poll_frame_def Let_def map_option_case split: option.splits if_splits)

declare drain.simps [simp del]

fun frame_bytes :: "'h frame \<Rightarrow> nat" where
  "frame_bytes (Data b) = length b"
| "frame_bytes (Trailers t) = 0"

lemma drain_replay_body:
  "drain (replay_body bytes trailers) =
     (if bytes = [] then [] else [Data bytes]) @
     (case trailers of None \<Rightarrow> [] | Some t \<Rightarrow> [Trailers t])"
proof -
  have tail: "drain \<lparr>rb_bytes = None, rb_trailers = tr\<rparr> =
      (case tr of None \<Rightarrow> [] | Some t \<Rightarrow> [Trailers t])" for tr :: "'a option"
    by (cases tr) (subst drain.simps, simp add: poll_frame_def Let_def,
        subst drain.simps, simp add: poll_frame_def Let_def,
        subst drain.simps, simp add: poll_frame_def Let_def)
  show ?thesis
  proof (cases "bytes = []")
    case True
    then show ?thesis by (simp add: replay_body_def tail)
  next
    case False
    then show ?thesis
      by (subst drain.simps) (simp add: replay_body_def poll_frame_def Let_def tail)
  qed
qed

section \<open>What a replayed request sends\<close>

fun sent_of :: "('h, 'u, 'b) net_event list \<Rightarrow> ('h, 'u, ('h, 'b) gateway_body) request list" where
  "sent_of [] = []"
| "sent_of (Sent q # es) = q # sent_of es"
| "sent_of (Tunnel d u t # es) = sent_of es"

lemma sent_of_append [simp]: "sent_of (es @ fs) = sent_of es @ sent_of fs"
  by (induction es rule: sent_of.induct) auto

lemma try_forward_body_log:
  assumes "try_forward_body L H self r peer d s = (res, s')" and "origin_ok L r"
  shows "\<exists>evs. nw_log s' = nw_log s @ evs \<and>
    sent_of evs = (case wire_request L self r peer of None \<Rightarrow> [] | Some q \<Rightarrow> [q])"
proof (cases "wire_request L self r peer")
  case None
  with assms show ?thesis
    using try_forward_body_unsent [OF None assms(2), of H d s] by auto
next
  case (Some q)
  with assms(1) show ?thesis
    by (auto simp: try_forward_body_sent [OF Some] await_def send_request_eq
        split: prod.splits async.splits sum.splits if_splits option.splits
        dest!: finish_response_log(1))
qed

lemma buffered_request_sel [simp]:
  "rq_method (buffered_request r b t) = rq_method r"
  "rq_uri (buffered_request r b t) = rq_uri r"
  "rq_version (buffered_request r b t) = rq_version r"
  "rq_headers (buffered_request r b t) = rq_headers r"
  "rq_ext (buffered_request r b t) = (rq_ext r)\<lparr>ext_recording := None\<rparr>"
  "rq_body (buffered_request r b t) = Replayed (replay_body b t)"
  by (simp_all add: buffered_request_def)

lemma origin_ok_buffered [simp]: "origin_ok L (buffered_request r b t) = origin_ok L r"
  by (simp add: origin_ok_def ticket_origin_def)

lemma retry_request_sel [simp]:
  "rq_method (retry_request L r b) = rq_method r"
  "rq_uri (retry_request L r b) = rq_uri r"
  "rq_version (retry_request L r b) = rq_version r"
  "rq_body (retry_request L r b) = b"
  "ext_ticket (rq_ext (retry_request L r b)) = None"
  "ticket_origin (retry_request L r b) = None"
  by (simp_all add: retry_request_def ticket_origin_def no_extensions_def)

lemma origin_ok_retry [simp]: "origin_ok L (retry_request L r b)"
  by (simp add: origin_ok_def)

lemma forward_recording_collected:
  assumes "ext_recording (rq_ext r) = Some fallback"
    and "hy_collect H (rq_body r) (nw_world s) = (Ready (Inr (bytes, trailers)), w1)"
  shows "forward_recording L H self r peer s =
    await (try_forward_body L H self (buffered_request r bytes trailers) peer (on_upgrade_handle L H r))
      (\<lambda>(result, handle). case result of
          Inr response \<Rightarrow>
            if \<not> is_upgrade L (rq_headers r) \<and> rs_status response = 404
            then replay_step L H fallback (buffered_request r bytes trailers) peer handle
            else ret response
        | Inl _ \<Rightarrow>
            replay_step L H fallback (buffered_request r bytes trailers) peer handle)
      (s\<lparr>nw_world := w1\<rparr>)"
  using assms
  by (simp add: forward_recording_def await_def [of "lift_net _"] lift_net_def)

lemma forward_recording_uncollected:
  assumes "ext_recording (rq_ext r) = Some fallback"
    and "forward_recording L H self r peer s = (res, s')"
    and "\<nexists>b t w1. hy_collect H (rq_body r) (nw_world s) = (Ready (Inr (b, t)), w1)"
  shows "nw_log s' = nw_log s"
  using assms
  by (auto simp: forward_recording_def Let_def await_def lift_net_def
      split: prod.splits async.splits sum.splits)

lemma replay_step_log:
  assumes "replay_step L H fallback r peer handle s = (res, s')"
  shows "\<exists>evs. nw_log s' = nw_log s @ evs \<and>
    sent_of evs = (case wire_request L fallback (retry_request L r (rq_body r)) peer of
                     None \<Rightarrow> [] | Some q \<Rightarrow> [q])"
proof -
  obtain res1 s1 where first:
    "try_forward_body L H fallback (retry_request L r (rq_body r)) peer handle s = (res1, s1)"
    by fastforce
  with assms have "s' = s1"
    by (auto simp: replay_step_def await_def split: async.splits)
  with try_forward_body_log [OF first] show ?thesis by simp
qed

text \<open>
  The requests a recording forward puts on the wire: none, the buffered request, or the
  buffered request followed by its retry.
\<close>

lemma forward_recording_log:
  assumes ok: "origin_ok L r" and rec: "ext_recording (rq_ext r) = Some fallback"
    and run: "forward_recording L H self r peer s = (res, s')"
  shows "\<exists>evs b t. nw_log s' = nw_log s @ evs \<and>
    (let first = wire_request L self (buffered_request r b t) peer;
         second = wire_request L fallback
                    (retry_request L (buffered_request r b t) (Replayed (replay_body b t))) peer
     in sent_of evs = [] \<or> (\<exists>q. first = Some q \<and>
          (sent_of evs = [q] \<or> (\<exists>q'. second = Some q' \<and> sent_of evs = [q, q']))))"
proof (cases "\<exists>b t w1. hy_collect H (rq_body r) (nw_world s) = (Ready (Inr (b, t)), w1)")
  case False
  with forward_recording_uncollected [OF rec run] show ?thesis by (auto simp: Let_def)
next
  case True
  then obtain b t w1 where col: "hy_collect H (rq_body r) (nw_world s) = (Ready (Inr (b, t)), w1)"
    by blast
  let ?q = "buffered_request r b t"
  obtain res1 s1 where first:
    "try_forward_body L H self ?q peer (on_upgrade_handle L H r) (s\<lparr>nw_world := w1\<rparr>) = (res1, s1)"
    by fastforce
  from try_forward_body_log [OF first] ok obtain ev1 where
    ev1: "nw_log s1 = nw_log s @ ev1"
      "sent_of ev1 = (case wire_request L self ?q peer of None \<Rightarrow> [] | Some q \<Rightarrow> [q])"
    by auto
  have "s' = s1 \<or> (\<exists>h. replay_step L H fallback ?q peer h s1 = (res, s'))"
    using run first
    by (auto simp: forward_recording_collected [OF rec col] await_def
        split: async.splits sum.splits if_splits)
  moreover have "s' = s1" if none: "wire_request L self ?q peer = None"
  proof -
    obtain e d where "res1 = Ready (Inr e, d)" and "rs_status e \<noteq> 404"
      using try_forward_body_unsent [OF none, of H "on_upgrade_handle L H r" "s\<lparr>nw_world := w1\<rparr>"]
        ok first by auto
    with run first show ?thesis
      by (simp add: forward_recording_collected [OF rec col] await_def)
  qed
  ultimately have "s' = s1 \<or> (\<exists>h. replay_step L H fallback ?q peer h s1 = (res, s')) \<and>
      wire_request L self ?q peer \<noteq> None"
    by blast
  then show ?thesis
    using ev1 replay_step_log [of L H fallback ?q peer _ s1 res s']
    by (fastforce simp: Let_def split: option.splits)
qed

context http_client
begin

lemma replay_step_no_panic: "fst (replay_step L H fallback r peer d s) \<noteq> Panicked"
  unfolding replay_step_def
  by (intro await_no_panic try_forward_body_no_panic) (auto split: prod.splits)

lemma forward_recording_no_panic:
  assumes "origin_ok L r"
  shows "fst (forward_recording L H self r peer s) \<noteq> Panicked"
proof (cases "ext_recording (rq_ext r)")
  case None
  have "origin_ok L (r\<lparr>rq_ext := (rq_ext r)\<lparr>ext_recording := None\<rparr>\<rparr>)"
    using assms by (simp add: origin_ok_def ticket_origin_def)
  with None show ?thesis by (simp add: forward_recording_def forward_no_panic)
next
  case (Some fb)
  have collect: "fst (lift_net (hy_collect H (rq_body r)) s) \<noteq> Panicked"
    using collect_no_panic [of "rq_body r" "nw_world s"]
    by (auto simp: lift_net_def split: prod.splits)
  show ?thesis
    unfolding forward_recording_def Some option.case
  proof (rule await_no_panic, rule collect, goal_cases)
    case (1 x s1)
    have "fst (await (try_forward_body L H self (buffered_request r b t) peer d)
        (\<lambda>(result, handle). case result of
            Inr response \<Rightarrow> if Q response then replay_step L H fb q peer handle else ret response
          | Inl _ \<Rightarrow> replay_step L H fb q peer handle) s1) \<noteq> Panicked" for b t d Q q
      using assms
      by (intro await_no_panic try_forward_body_no_panic)
        (auto simp: replay_step_no_panic split: prod.splits sum.splits)
    then show ?case by (auto split: sum.splits prod.splits)
  qed
qed

end

context http_crate
begin

lemma wire_retry_unticketed:
  assumes "wire_request L self (retry_request L r b) peer = Some q"
  shows "ext_ticket (rq_ext q) = None"
    and "hm_get_all L (rq_headers q) ADMISSION_SCOPE_HEADER = []"
    and "hm_get_all L (rq_headers q) ADMISSION_TOKEN_HEADER = []"
proof -
  have absent: "hm_get_all L (rq_headers (retry_request L r b)) ADMISSION_SCOPE_HEADER = []"
    "hm_get_all L (rq_headers (retry_request L r b)) ADMISSION_TOKEN_HEADER = []"
    by (simp_all add: retry_request_def)
  show "ext_ticket (rq_ext q) = None"
    using wire_request_sel(4) [OF assms] by simp
  obtain p where p: "prepare_request L self (retry_request L r b) peer
      (is_upgrade L (rq_headers (retry_request L r b))) = Some (Inr p)" and "rq_headers q = rq_headers p"
    by (rule wire_requestE [OF assms]) simp
  then show "hm_get_all L (rq_headers q) ADMISSION_SCOPE_HEADER = []"
    and "hm_get_all L (rq_headers q) ADMISSION_TOKEN_HEADER = []"
    using prepare_request_headers [OF p] absent by simp_all
qed

end

end
