(* ===== verification/Routing.thy ===== *)
theory Routing
  imports Http_Types
begin

text \<open>
  Model of \<open>src/config.rs\<close>: the route configuration, its validation and compilation into a
  \<open>RouteTable\<close>, and route selection. The route index of the \<open>brz-http-router\<close> crate is the
  argument \<open>R\<close>; the locale \<open>router_crate\<close> states what the configuration documents about it
  (a request selects the first rule, in declaration order, whose methods and path template
  match). TOML decoding and file access are arguments of \<open>load\<close>.
\<close>

section \<open>The router crate\<close>

record indexed_rule =
  ir_path :: string
  ir_methods :: "string list"
  ir_priority :: nat

record 'i router_lib =
  ri_default :: 'i
  ri_compile :: "indexed_rule list \<Rightarrow> string + 'i"
  ri_resolve_raw :: "'i \<Rightarrow> string \<Rightarrow> string \<Rightarrow> nat option"
  ri_matches :: "'i \<Rightarrow> string \<Rightarrow> string \<Rightarrow> bool"
  ri_is_empty :: "'i \<Rightarrow> bool"
  ri_len :: "'i \<Rightarrow> nat"

text \<open>Whether a rule selects a request, for the template language \<open>tm\<close> of the router.\<close>

definition rule_selects ::
  "(string \<Rightarrow> string \<Rightarrow> bool) \<Rightarrow> string list \<Rightarrow> string \<Rightarrow> string \<Rightarrow> string \<Rightarrow> bool" where
  "rule_selects tm methods template m p \<longleftrightarrow> (methods = [] \<or> m \<in> set methods) \<and> tm template p"

definition indexed_selects ::
  "(string \<Rightarrow> string \<Rightarrow> bool) \<Rightarrow> string \<Rightarrow> string \<Rightarrow> indexed_rule \<Rightarrow> bool" where
  "indexed_selects tm m p r \<longleftrightarrow> rule_selects tm (ir_methods r) (ir_path r) m p"

text \<open>A path without template segments.\<close>

definition literal_path :: "string \<Rightarrow> bool" where
  "literal_path p \<longleftrightarrow>
     (\<forall>seg \<in> set (split_on CHR ''/'' p). \<not> starts_with '':'' seg \<and> \<not> starts_with ''*'' seg)"

locale router_crate =
  fixes R :: "'i router_lib"
    and tm :: "string \<Rightarrow> string \<Rightarrow> bool"
  assumes resolve_default: "ri_resolve_raw R (ri_default R) m p = None"
    and matches_default: "\<not> ri_matches R (ri_default R) m p"
    and resolve_compile:
      "ri_compile R rules = Inr ix \<Longrightarrow> \<forall>r \<in> set rules. ir_priority r = 0 \<Longrightarrow>
         ri_resolve_raw R ix m p = first_index (indexed_selects tm m p) rules"
    and matches_compile:
      "ri_compile R rules = Inr ix \<Longrightarrow> \<forall>r \<in> set rules. ir_priority r = 0 \<Longrightarrow>
         ri_matches R ix m p \<longleftrightarrow> (\<exists>r \<in> set rules. indexed_selects tm m p r)"
    and len_compile: "ri_compile R rules = Inr ix \<Longrightarrow> ri_len R ix = length rules"
    and template_literal: "literal_path t \<Longrightarrow> tm t p \<longleftrightarrow> p = t"
    and template_rest:
      "literal_path base \<Longrightarrow> name \<noteq> [] \<Longrightarrow> CHR ''/'' \<notin> set name \<Longrightarrow>
         tm (base @ ''/*'' @ name) p \<longleftrightarrow> starts_with (base @ ''/'') p"

section \<open>Definitions\<close>

record admission_rule =
  ar_provider :: string
  ar_scope :: string
  ar_acquire_timeout_ms :: nat

record route_rule =
  rr_methods :: "string list"
  rr_path :: string
  rr_admission :: "admission_rule option"

record exclusion_rule =
  er_methods :: "string list"
  er_path :: string

record routes_config =
  rc_routes :: "route_rule list"
  rc_exclude :: "exclusion_rule list"

datatype config_error =
    Read string string
  | Decode string string
  | InvalidMethod nat string
  | InvalidExclusionMethod nat string
  | ExclusionRoute string
  | InvalidAdmission nat
  | Route string

definition load ::
  "(string \<Rightarrow> string + string) \<Rightarrow> (string \<Rightarrow> string + routes_config) \<Rightarrow> string \<Rightarrow>
     config_error + routes_config" where
  "load read_to_string from_toml path =
     bind_ok (map_err (Read path) (read_to_string path))
       (\<lambda>contents. map_err (Decode path) (from_toml contents))"

definition default_admission_acquire_timeout_ms :: nat where
  "default_admission_acquire_timeout_ms = 50"

definition admission_is_valid :: "('h, 'u) http_lib \<Rightarrow> admission_rule \<Rightarrow> bool" where
  "admission_is_valid L a \<longleftrightarrow>
     \<not> trim_is_empty (ar_provider a) \<and>
     \<not> trim_is_empty (ar_scope a) \<and>
     is_ascii (ar_scope a) \<and>
     value_from_str L (ar_scope a) \<noteq> None \<and>
     ar_acquire_timeout_ms a > 0"

record 'i route_table =
  rt_index :: 'i
  rt_exclusions :: 'i
  rt_admissions :: "admission_rule option list"

definition empty_table :: "'i router_lib \<Rightarrow> 'i route_table" where
  "empty_table R =
     \<lparr>rt_index = ri_default R, rt_exclusions = ri_default R, rt_admissions = []\<rparr>"

definition compile_methods ::
  "('h, 'u) http_lib \<Rightarrow> (string \<Rightarrow> config_error) \<Rightarrow> string list \<Rightarrow> config_error + string list" where
  "compile_methods L err methods =
     collect_ok (map (\<lambda>m. case method_from_bytes L m of
                            None \<Rightarrow> Inl (err m)
                          | Some m' \<Rightarrow> Inr m') methods)"

definition compile_exclusion ::
  "('h, 'u) http_lib \<Rightarrow> nat \<times> exclusion_rule \<Rightarrow> config_error + indexed_rule" where
  "compile_exclusion L = (\<lambda>(index, rule).
     bind_ok (compile_methods L (InvalidExclusionMethod index) (er_methods rule))
       (\<lambda>methods. Inr \<lparr>ir_path = er_path rule, ir_methods = methods, ir_priority = 0\<rparr>))"

definition compile_route ::
  "('h, 'u) http_lib \<Rightarrow> nat \<times> route_rule \<Rightarrow> config_error + indexed_rule" where
  "compile_route L = (\<lambda>(index, rule).
     if (case rr_admission rule of None \<Rightarrow> False | Some a \<Rightarrow> \<not> admission_is_valid L a)
     then Inl (InvalidAdmission index)
     else bind_ok (compile_methods L (InvalidMethod index) (rr_methods rule))
            (\<lambda>methods. Inr \<lparr>ir_path = rr_path rule, ir_methods = methods, ir_priority = 0\<rparr>))"

definition compile_table ::
  "('h, 'u) http_lib \<Rightarrow> 'i router_lib \<Rightarrow> routes_config \<Rightarrow> config_error + 'i route_table" where
  "compile_table L R config =
     bind_ok (collect_ok (map (compile_exclusion L) (List.enumerate 0 (rc_exclude config))))
       (\<lambda>exclusion_rules.
     bind_ok (map_err ExclusionRoute (ri_compile R exclusion_rules))
       (\<lambda>exclusions.
     bind_ok (collect_ok (map (compile_route L) (List.enumerate 0 (rc_routes config))))
       (\<lambda>rules.
     map_err Route
       (bind_ok (ri_compile R rules)
         (\<lambda>index. Inr \<lparr>rt_index = index, rt_exclusions = exclusions,
                        rt_admissions = map rr_admission (rc_routes config)\<rparr>)))))"

definition table_is_empty :: "'i router_lib \<Rightarrow> 'i route_table \<Rightarrow> bool" where
  "table_is_empty R t = ri_is_empty R (rt_index t)"

definition table_len :: "'i router_lib \<Rightarrow> 'i route_table \<Rightarrow> nat" where
  "table_len R t = ri_len R (rt_index t)"

definition is_excluded :: "'i router_lib \<Rightarrow> 'i route_table \<Rightarrow> string \<Rightarrow> string \<Rightarrow> bool" where
  "is_excluded R t m p = ri_matches R (rt_exclusions t) m p"

definition select :: "'i router_lib \<Rightarrow> 'i route_table \<Rightarrow> string \<Rightarrow> string \<Rightarrow> nat option" where
  "select R t m p =
     (if is_excluded R t m p then None else ri_resolve_raw R (rt_index t) m p)"

definition table_matches :: "'i router_lib \<Rightarrow> 'i route_table \<Rightarrow> string \<Rightarrow> string \<Rightarrow> bool" where
  "table_matches R t m p \<longleftrightarrow> select R t m p \<noteq> None"

definition admission_rules :: "'i route_table \<Rightarrow> admission_rule list" where
  "admission_rules t = List.map_filter id (rt_admissions t)"

section \<open>What a configuration means\<close>

text \<open>
  The reference reading of a configuration, with no compilation in between: an exclusion wins,
  otherwise the first route that selects the request.
\<close>

definition route_selects ::
  "(string \<Rightarrow> string \<Rightarrow> bool) \<Rightarrow> string \<Rightarrow> string \<Rightarrow> route_rule \<Rightarrow> bool" where
  "route_selects tm m p r \<longleftrightarrow> rule_selects tm (rr_methods r) (rr_path r) m p"

definition exclusion_selects ::
  "(string \<Rightarrow> string \<Rightarrow> bool) \<Rightarrow> string \<Rightarrow> string \<Rightarrow> exclusion_rule \<Rightarrow> bool" where
  "exclusion_selects tm m p r \<longleftrightarrow> rule_selects tm (er_methods r) (er_path r) m p"

definition config_select ::
  "(string \<Rightarrow> string \<Rightarrow> bool) \<Rightarrow> routes_config \<Rightarrow> string \<Rightarrow> string \<Rightarrow> nat option" where
  "config_select tm config m p =
     (if list_ex (exclusion_selects tm m p) (rc_exclude config) then None
      else first_index (route_selects tm m p) (rc_routes config))"

text \<open>The invariant of a compiled table: one admission entry per rule, each of them valid.\<close>

definition table_wf :: "('h, 'u) http_lib \<Rightarrow> 'i router_lib \<Rightarrow> 'i route_table \<Rightarrow> bool" where
  "table_wf L R t \<longleftrightarrow>
     (\<forall>m p i. select R t m p = Some i \<longrightarrow> i < length (rt_admissions t)) \<and>
     (\<forall>a \<in> set (admission_rules t). admission_is_valid L a)"

lemma set_admission_rules: "a \<in> set (admission_rules t) \<longleftrightarrow> Some a \<in> set (rt_admissions t)"
  by (force simp: admission_rules_def List.map_filter_def)

lemma excluded_not_selected: "is_excluded R t m p \<Longrightarrow> select R t m p = None"
  by (simp add: select_def)

lemma compile_methods_Inr:
  "compile_methods L err ms = Inr ms' \<Longrightarrow> length ms' = length ms \<and>
     (\<forall>i < length ms. method_from_bytes L (ms ! i) = Some (ms' ! i))"
  unfolding compile_methods_def
  using collect_ok_mapD by (fastforce split: option.splits)

lemma compile_exclusions_Inr:
  assumes "collect_ok (map (compile_exclusion L) (List.enumerate n rules)) = Inr irs"
  shows "length irs = length rules"
    and "i < length rules \<Longrightarrow> compile_exclusion L (n + i, rules ! i) = Inr (irs ! i)"
  using collect_ok_mapD [OF assms] by (auto simp: nth_enumerate_eq)

lemma compile_routes_Inr:
  assumes "collect_ok (map (compile_route L) (List.enumerate n rules)) = Inr irs"
  shows "length irs = length rules"
    and "i < length rules \<Longrightarrow> compile_route L (n + i, rules ! i) = Inr (irs ! i)"
  using collect_ok_mapD [OF assms] by (auto simp: nth_enumerate_eq)

lemma compile_table_InrE:
  assumes "compile_table L R config = Inr t"
  obtains ers rules where
    "collect_ok (map (compile_exclusion L) (List.enumerate 0 (rc_exclude config))) = Inr ers"
    "ri_compile R ers = Inr (rt_exclusions t)"
    "collect_ok (map (compile_route L) (List.enumerate 0 (rc_routes config))) = Inr rules"
    "ri_compile R rules = Inr (rt_index t)"
    "rt_admissions t = map rr_admission (rc_routes config)"
  using assms
  by (auto simp: compile_table_def bind_ok_Inr_iff)

lemma compile_methods_Inl:
  "compile_methods L err ms = Inl e \<Longrightarrow> \<exists>m \<in> set ms. method_from_bytes L m = None \<and> e = err m"
  unfolding compile_methods_def
  by (drule collect_ok_map_InlD) (auto split: option.splits)

lemma compile_exclusion_Inl:
  "compile_exclusion L (i, r) = Inl e \<Longrightarrow>
     \<exists>m \<in> set (er_methods r). method_from_bytes L m = None \<and> e = InvalidExclusionMethod i m"
  by (auto simp: compile_exclusion_def bind_ok_Inl_iff dest: compile_methods_Inl)

lemma compile_route_Inl:
  "compile_route L (i, r) = Inl e \<Longrightarrow>
     (\<exists>a. rr_admission r = Some a \<and> \<not> admission_is_valid L a \<and> e = InvalidAdmission i) \<or>
     (\<exists>m \<in> set (rr_methods r). method_from_bytes L m = None \<and> e = InvalidMethod i m)"
  by (auto simp: compile_route_def bind_ok_Inl_iff dest: compile_methods_Inl split: if_splits option.splits)

text \<open>What is wrong with a configuration that fails with an error.\<close>

definition explains ::
  "('h, 'u) http_lib \<Rightarrow> 'i router_lib \<Rightarrow> routes_config \<Rightarrow> config_error \<Rightarrow> bool" where
  "explains L R config e \<longleftrightarrow>
     (case e of
        InvalidExclusionMethod i m \<Rightarrow>
          i < length (rc_exclude config) \<and> m \<in> set (er_methods (rc_exclude config ! i)) \<and>
          method_from_bytes L m = None
      | InvalidMethod i m \<Rightarrow>
          i < length (rc_routes config) \<and> m \<in> set (rr_methods (rc_routes config ! i)) \<and>
          method_from_bytes L m = None
      | InvalidAdmission i \<Rightarrow>
          i < length (rc_routes config) \<and>
          (\<exists>a. rr_admission (rc_routes config ! i) = Some a \<and> \<not> admission_is_valid L a)
      | ExclusionRoute d \<Rightarrow> (\<exists>rules. ri_compile R rules = Inl d \<and> map ir_path rules = map er_path (rc_exclude config))
      | Route d \<Rightarrow> (\<exists>rules. ri_compile R rules = Inl d \<and> map ir_path rules = map rr_path (rc_routes config))
      | _ \<Rightarrow> False)"

lemma compile_exclusion_path: "compile_exclusion L (i, r) = Inr ir \<Longrightarrow> ir_path ir = er_path r"
  by (auto simp: compile_exclusion_def bind_ok_Inr_iff)

lemma compile_route_path: "compile_route L (i, r) = Inr ir \<Longrightarrow> ir_path ir = rr_path r"
  by (auto simp: compile_route_def bind_ok_Inr_iff split: if_splits)

lemma compiled_exclusion_paths:
  assumes "collect_ok (map (compile_exclusion L) (List.enumerate 0 rules)) = Inr irs"
  shows "map ir_path irs = map er_path rules"
  using compile_exclusions_Inr [OF assms]
  by - (rule nth_equalityI, auto intro: compile_exclusion_path)

lemma compiled_route_paths:
  assumes "collect_ok (map (compile_route L) (List.enumerate 0 rules)) = Inr irs"
  shows "map ir_path irs = map rr_path rules"
  using compile_routes_Inr [OF assms]
  by - (rule nth_equalityI, auto intro: compile_route_path)

lemma compile_table_Inl:
  assumes "compile_table L R config = Inl e"
  shows "explains L R config e"
proof -
  consider
    (exclusion) "collect_ok (map (compile_exclusion L) (List.enumerate 0 (rc_exclude config))) = Inl e"
  | (exclusions) ers d where
      "collect_ok (map (compile_exclusion L) (List.enumerate 0 (rc_exclude config))) = Inr ers"
      "ri_compile R ers = Inl d" "e = ExclusionRoute d"
  | (route) "collect_ok (map (compile_route L) (List.enumerate 0 (rc_routes config))) = Inl e"
  | (routes) rules d where
      "collect_ok (map (compile_route L) (List.enumerate 0 (rc_routes config))) = Inr rules"
      "ri_compile R rules = Inl d" "e = Route d"
    using assms by (auto simp: compile_table_def bind_ok_Inl_iff map_err_Inl_iff)
  then show ?thesis
  proof cases
    case exclusion
    then show ?thesis
      by (auto dest!: collect_ok_map_InlD compile_exclusion_Inl simp: nth_enumerate_eq explains_def)
  next
    case exclusions
    then show ?thesis by (auto simp: explains_def dest: compiled_exclusion_paths)
  next
    case route
    then show ?thesis
      by (auto dest!: collect_ok_map_InlD compile_route_Inl simp: nth_enumerate_eq explains_def)
  next
    case routes
    then show ?thesis by (auto simp: explains_def dest: compiled_route_paths)
  qed
qed

context http_crate
begin

lemma compile_methods_same: "compile_methods L err ms = Inr ms' \<Longrightarrow> ms' = ms"
  by (metis compile_methods_Inr method_exact nth_equalityI)

lemma compile_exclusion_Inr:
  "compile_exclusion L (i, r) = Inr ir \<longleftrightarrow>
     compile_methods L (InvalidExclusionMethod i) (er_methods r) = Inr (er_methods r) \<and>
     ir = \<lparr>ir_path = er_path r, ir_methods = er_methods r, ir_priority = 0\<rparr>"
  by (auto simp: compile_exclusion_def bind_ok_Inr_iff dest: compile_methods_same)

lemma compile_route_Inr:
  "compile_route L (i, r) = Inr ir \<longleftrightarrow>
     (\<forall>a. rr_admission r = Some a \<longrightarrow> admission_is_valid L a) \<and>
     compile_methods L (InvalidMethod i) (rr_methods r) = Inr (rr_methods r) \<and>
     ir = \<lparr>ir_path = rr_path r, ir_methods = rr_methods r, ir_priority = 0\<rparr>"
  by (auto simp: compile_route_def bind_ok_Inr_iff dest: compile_methods_same split: option.splits)

lemma compiled_exclusions:
  assumes "collect_ok (map (compile_exclusion L) (List.enumerate 0 rules)) = Inr irs"
  shows "irs = map (\<lambda>r. \<lparr>ir_path = er_path r, ir_methods = er_methods r, ir_priority = 0\<rparr>) rules"
  using compile_exclusions_Inr [OF assms]
  by (auto simp: compile_exclusion_Inr intro!: nth_equalityI)

lemma compiled_routes:
  assumes "collect_ok (map (compile_route L) (List.enumerate 0 rules)) = Inr irs"
  shows "irs = map (\<lambda>r. \<lparr>ir_path = rr_path r, ir_methods = rr_methods r, ir_priority = 0\<rparr>) rules"
    and "r \<in> set rules \<Longrightarrow> rr_admission r = Some a \<Longrightarrow> admission_is_valid L a"
  using compile_routes_Inr [OF assms]
  by (auto simp: compile_route_Inr in_set_conv_nth intro!: nth_equalityI)

end

locale routing = http_crate L + router_crate R tm
  for L :: "('h, 'u) http_lib" and R :: "'i router_lib" and tm
begin

lemma compiled_excluded:
  assumes "compile_table L R config = Inr t"
  shows "is_excluded R t m p \<longleftrightarrow> list_ex (exclusion_selects tm m p) (rc_exclude config)"
  using assms
proof (rule compile_table_InrE)
  fix ers rules
  assume ers: "collect_ok (map (compile_exclusion L) (List.enumerate 0 (rc_exclude config))) = Inr ers"
    and comp: "ri_compile R ers = Inr (rt_exclusions t)"
  show ?thesis
    using matches_compile [OF comp] unfolding compiled_exclusions [OF ers]
    by (auto simp: is_excluded_def list_ex_iff indexed_selects_def exclusion_selects_def)
qed

lemma compiled_resolve:
  assumes "compile_table L R config = Inr t"
  shows "ri_resolve_raw R (rt_index t) m p = first_index (route_selects tm m p) (rc_routes config)"
  using assms
proof (rule compile_table_InrE)
  fix ers rules
  assume rules: "collect_ok (map (compile_route L) (List.enumerate 0 (rc_routes config))) = Inr rules"
    and comp: "ri_compile R rules = Inr (rt_index t)"
  show ?thesis
    using resolve_compile [OF comp] unfolding compiled_routes(1) [OF rules]
    by (simp add: first_index_map indexed_selects_def route_selects_def cong: first_index_cong)
qed

lemma compiled_select:
  assumes "compile_table L R config = Inr t"
  shows "select R t m p = config_select tm config m p"
  by (simp add: select_def config_select_def compiled_excluded [OF assms] compiled_resolve [OF assms])

lemma compiled_len:
  assumes "compile_table L R config = Inr t"
  shows "table_len R t = length (rc_routes config)"
  using assms
proof (rule compile_table_InrE)
  fix ers rules
  assume rules: "collect_ok (map (compile_route L) (List.enumerate 0 (rc_routes config))) = Inr rules"
    and comp: "ri_compile R rules = Inr (rt_index t)"
  show ?thesis
    using len_compile [OF comp] unfolding compiled_routes(1) [OF rules] by (simp add: table_len_def)
qed

lemma compiled_admission:
  assumes "compile_table L R config = Inr t" and "select R t m p = Some i"
  shows "i < length (rc_routes config)" and "rt_admissions t ! i = rr_admission (rc_routes config ! i)"
proof -
  show bound: "i < length (rc_routes config)"
    using assms(2)
    by (auto simp: compiled_select [OF assms(1)] config_select_def first_index_Some_iff split: if_splits)
  have "rt_admissions t = map rr_admission (rc_routes config)"
    using compile_table_InrE [OF assms(1)] .
  with bound show "rt_admissions t ! i = rr_admission (rc_routes config ! i)" by simp
qed

lemma compiled_table_wf:
  assumes "compile_table L R config = Inr t"
  shows "table_wf L R t"
proof -
  have "i < length (rt_admissions t)" if "select R t m p = Some i" for m p i
    using that assms
    by (auto simp: compiled_select [OF assms] config_select_def first_index_Some_iff
        elim: compile_table_InrE split: if_splits)
  moreover have "admission_is_valid L a" if "a \<in> set (admission_rules t)" for a
    using that assms
    by (auto simp: set_admission_rules elim!: compile_table_InrE intro: compiled_routes(2) [OF _ _ sym])
  ultimately show ?thesis by (auto simp: table_wf_def)
qed

lemma empty_table_wf: "table_wf L R (empty_table R)"
  by (simp add: table_wf_def select_def is_excluded_def empty_table_def resolve_default
      matches_default admission_rules_def List.map_filter_def)

end

end
