(* ===== verification/Gateway.thy ===== *)
theory Gateway
  imports Replay Routing
begin

text \<open>
  Model of \<open>src/gateway.rs\<close> and \<open>src/cors.rs\<close>: construction of a gateway, the services for
  matched routes and the request handler.

  The CORS policy engine is the \<open>brz-http-cors\<close> crate, an argument \<open>C\<close>; the locale
  \<open>cors_crate\<close> states what the handler relies on. A \<open>MatchedService\<close> is the function
  \<open>gw_matched\<close> of the gateway record. \<open>tokio::time::timeout\<close> turns a dropped admission attempt
  into the error \<open>Timeout\<close>.
\<close>

section \<open>The CORS crate\<close>

record preflight_request =
  pf_method :: string
  pf_origin :: "string option"
  pf_request_method :: "string option"
  pf_request_headers :: "string option"

record 'h preflight_response =
  pr_status :: nat
  pr_headers :: 'h
  pr_body :: string

record ('c, 'h, 'rc, 'b) cors_lib =
  cors_validate :: "'c \<Rightarrow> bool"
  cors_preflight :: "'c \<Rightarrow> preflight_request \<Rightarrow> 'h preflight_response option"
  cors_apply_response ::
    "'c \<Rightarrow> string option \<Rightarrow> ('h, 'rc, 'b) gateway_response \<Rightarrow> ('h, 'rc, 'b) gateway_response"
  take_from_headers :: "'h \<Rightarrow> 'rc \<times> 'h"
  response_cors_header :: string

locale cors_crate = http_crate L
  for L :: "('h, 'u) http_lib" +
  fixes C :: "('c, 'h, 'rc, 'b) cors_lib"
  assumes take_removes:
      "hm_get_all L (snd (take_from_headers C h)) n =
         (if n = response_cors_header C then [] else hm_get_all L h n)"
    and apply_reserved:
      "hm_get_all L (rs_headers (cors_apply_response C c origin r)) (response_cors_header C) =
         hm_get_all L (rs_headers r) (response_cors_header C)"
    and apply_status: "rs_status (cors_apply_response C c origin r) = rs_status r"
    and apply_body: "rs_body (cors_apply_response C c origin r) = rs_body r"
    and reserved_distinct:
      "response_cors_header C \<notin>
         {ADMISSION_SCOPE_HEADER, ADMISSION_TOKEN_HEADER, X_FORWARDED_FOR, X_FORWARDED_HOST,
          X_FORWARDED_PROTO, ''content-type''}"

section \<open>Definitions\<close>

definition preflight ::
  "('h, 'u) http_lib \<Rightarrow> ('c, 'h, 'rc, 'b) cors_lib \<Rightarrow> 'c \<Rightarrow> ('h, 'u, 'b) request \<Rightarrow>
     ('h, 'rc, 'b) gateway_response option" where
  "preflight L C cors request =
     (let value_of = (\<lambda>name. map_option hv_bytes (hm_get L (rq_headers request) name))
      in case cors_preflight C cors
                \<lparr>pf_method = rq_method request,
                 pf_origin = value_of ''origin'',
                 pf_request_method = value_of ''access-control-request-method'',
                 pf_request_headers = value_of ''access-control-request-headers''\<rparr> of
           None \<Rightarrow> None
         | Some response \<Rightarrow>
             Some \<lparr>rs_status = pr_status response, rs_headers = pr_headers response,
                   rs_cors = None, rs_body = Full (pr_body response)\<rparr>)"

type_synonym ('w, 'h, 'u, 'b, 'rc) service =
  "('h, 'u, 'b) request \<Rightarrow> string \<Rightarrow> (('w, 'h, 'u, 'b) net, ('h, 'rc, 'b) gateway_response) fut"

definition reject_matched :: "('h, 'u) http_lib \<Rightarrow> ('w, 'h, 'u, 'b, 'rc) service" where
  "reject_matched L request peer =
     ret (error_response L 501 ''matched route has no service implementation'')"

record origin_service =
  os_proxy :: fallback_proxy
  os_response_cors :: bool

definition origin_from_admission :: origin_service where
  "origin_from_admission = \<lparr>os_proxy = proxy_from_admission, os_response_cors = False\<rparr>"

definition origin_new :: "('h, 'u) http_lib \<Rightarrow> 'u \<Rightarrow> proxy_config_error + origin_service" where
  "origin_new L origin =
     bind_ok (proxy_new L origin) (\<lambda>proxy. Inr \<lparr>os_proxy = proxy, os_response_cors = False\<rparr>)"

definition with_response_cors :: "origin_service \<Rightarrow> origin_service" where
  "with_response_cors self = self\<lparr>os_response_cors := True\<rparr>"

definition origin_call ::
  "('h, 'u) http_lib \<Rightarrow> ('c, 'h, 'rc, 'b) cors_lib \<Rightarrow> ('w, 'h, 'u, 'b, 'rc) hyper_lib \<Rightarrow>
     origin_service \<Rightarrow> ('w, 'h, 'u, 'b, 'rc) service" where
  "origin_call L C H self request peer =
     await (forward_recording L H (os_proxy self) request peer)
       (\<lambda>response.
          let (policy, headers) = take_from_headers C (rs_headers response);
              response1 = response\<lparr>rs_headers := headers\<rparr>
          in ret (if os_response_cors self then response1\<lparr>rs_cors := Some policy\<rparr> else response1))"

record ('w, 'h, 'u, 'b, 'rc, 'i, 'c) gateway =
  gw_routes :: "'i route_table"
  gw_matched :: "('w, 'h, 'u, 'b, 'rc) service"
  gw_fallback :: fallback_proxy
  gw_admission :: "('w, 'u) admission_registry"
  gw_recording :: "admission_rule option"
  gw_cors :: "'c option"

datatype gateway_build_error =
    InvalidRecordingAdmission
  | MissingRecordingProvider string
  | InvalidCorsPolicy
  | ProxyError proxy_config_error
  | MissingProvider nat string

fun missing_provider ::
  "('w, 'u) admission_registry \<Rightarrow> nat \<Rightarrow> admission_rule option list \<Rightarrow> (nat \<times> string) option" where
  "missing_provider reg route [] = None"
| "missing_provider reg route (None # rules) = missing_provider reg (Suc route) rules"
| "missing_provider reg route (Some rule # rules) =
     (if registry_get reg (ar_provider rule) = None then Some (route, ar_provider rule)
      else missing_provider reg (Suc route) rules)"

definition gateway_with_admission ::
  "('h, 'u) http_lib \<Rightarrow> 'i route_table \<Rightarrow> ('w, 'h, 'u, 'b, 'rc) service \<Rightarrow> 'u \<Rightarrow>
     ('w, 'u) admission_registry \<Rightarrow>
     gateway_build_error + ('w, 'h, 'u, 'b, 'rc, 'i, 'c) gateway" where
  "gateway_with_admission L routes matched fallback_origin admission =
     (case missing_provider admission 0 (rt_admissions routes) of
        Some (route, provider) \<Rightarrow> Inl (MissingProvider route provider)
      | None \<Rightarrow>
          bind_ok (map_err ProxyError (proxy_new L fallback_origin))
            (\<lambda>fallback.
               Inr \<lparr>gw_routes = routes, gw_matched = matched, gw_fallback = fallback,
                    gw_admission = admission, gw_recording = None, gw_cors = None\<rparr>))"

definition gateway_new ::
  "('h, 'u) http_lib \<Rightarrow> 'i route_table \<Rightarrow> ('w, 'h, 'u, 'b, 'rc) service \<Rightarrow> 'u \<Rightarrow>
     gateway_build_error + ('w, 'h, 'u, 'b, 'rc, 'i, 'c) gateway" where
  "gateway_new L routes matched fallback_origin =
     gateway_with_admission L routes matched fallback_origin registry_new"

definition with_recording_admission ::
  "('h, 'u) http_lib \<Rightarrow> ('w, 'h, 'u, 'b, 'rc, 'i, 'c) gateway \<Rightarrow> admission_rule \<Rightarrow>
     gateway_build_error + ('w, 'h, 'u, 'b, 'rc, 'i, 'c) gateway" where
  "with_recording_admission L self rule =
     (if \<not> admission_is_valid L rule then Inl InvalidRecordingAdmission
      else if registry_get (gw_admission self) (ar_provider rule) = None
      then Inl (MissingRecordingProvider (ar_provider rule))
      else Inr (self\<lparr>gw_recording := Some rule\<rparr>))"

definition with_cors ::
  "('c, 'h, 'rc, 'b) cors_lib \<Rightarrow> ('w, 'h, 'u, 'b, 'rc, 'i, 'c) gateway \<Rightarrow> 'c \<Rightarrow>
     gateway_build_error + ('w, 'h, 'u, 'b, 'rc, 'i, 'c) gateway" where
  "with_cors C self cors =
     (if \<not> cors_validate C cors then Inl InvalidCorsPolicy
      else Inr (self\<lparr>gw_cors := Some cors\<rparr>))"

text \<open>The handler removes client-supplied admission data and CORS controls first.\<close>

definition sanitize ::
  "('h, 'u) http_lib \<Rightarrow> ('c, 'h, 'rc, 'b) cors_lib \<Rightarrow> ('h, 'u, 'b) request \<Rightarrow> ('h, 'u, 'b) request" where
  "sanitize L C request =
     request\<lparr>rq_headers :=
               hm_remove L
                 (hm_remove L (hm_remove L (rq_headers request) ADMISSION_SCOPE_HEADER)
                   ADMISSION_TOKEN_HEADER)
                 (response_cors_header C),
             rq_ext := (rq_ext request)\<lparr>ext_ticket := None\<rparr>\<rparr>"

definition global_rule ::
  "('h, 'u) http_lib \<Rightarrow> 'i router_lib \<Rightarrow> ('w, 'h, 'u, 'b, 'rc, 'i, 'c) gateway \<Rightarrow>
     ('h, 'u, 'b) request \<Rightarrow> admission_rule option" where
  "global_rule L R self request =
     (case gw_recording self of
        None \<Rightarrow> None
      | Some rule \<Rightarrow>
          if is_excluded R (gw_routes self) (rq_method request) (uri_path L (rq_uri request))
          then None else Some rule)"

text \<open>
  The admission rule of a request, \<open>None\<close> being the panic of an index out of range in
  \<open>self.routes.admissions()[id]\<close>.
\<close>

definition effective_rule ::
  "('h, 'u) http_lib \<Rightarrow> 'i router_lib \<Rightarrow> ('w, 'h, 'u, 'b, 'rc, 'i, 'c) gateway \<Rightarrow>
     ('h, 'u, 'b) request \<Rightarrow> admission_rule option option" where
  "effective_rule L R self request =
     (case global_rule L R self request of
        Some rule \<Rightarrow> Some (Some rule)
      | None \<Rightarrow>
          (case select R (gw_routes self) (rq_method request) (uri_path L (rq_uri request)) of
             None \<Rightarrow> Some None
           | Some route \<Rightarrow>
               if route < length (rt_admissions (gw_routes self))
               then Some (rt_admissions (gw_routes self) ! route) else None))"

definition acquisition ::
  "('h, 'u) http_lib \<Rightarrow> ('w, 'u) admission_provider \<Rightarrow> bool \<Rightarrow> admission_rule \<Rightarrow>
     ('h, 'u, 'b) request \<Rightarrow> ('w, 'u) acquire_fut" where
  "acquisition L provider global rule request =
     (if global
      then try_acquire_request provider (ar_acquire_timeout_ms rule) (ar_scope rule)
             (uri_path L (rq_uri request))
      else try_acquire provider (ar_acquire_timeout_ms rule) (ar_scope rule))"

definition admitted_request ::
  "('h, 'u) http_lib \<Rightarrow> fallback_proxy \<Rightarrow> 'u admission_ticket \<Rightarrow> ('h, 'u, 'b) request \<Rightarrow>
     ('h, 'u, 'b) request" where
  "admitted_request L fallback ticket request =
     (let r1 = attach L ticket request
      in r1\<lparr>rq_ext := (rq_ext r1)\<lparr>ext_recording := Some fallback\<rparr>\<rparr>)"

text \<open>The admission attempt: whether the request is matched, and the request to dispatch.\<close>

definition admit ::
  "('h, 'u) http_lib \<Rightarrow> ('w, 'h, 'u, 'b, 'rc, 'i, 'c) gateway \<Rightarrow> bool \<Rightarrow> admission_rule \<Rightarrow>
     ('h, 'u, 'b) request \<Rightarrow> (('w, 'h, 'u, 'b) net, bool \<times> ('h, 'u, 'b) request) fut" where
  "admit L self global rule request =
     (case registry_get (gw_admission self) (ar_provider rule) of
        None \<Rightarrow> panic
      | Some provider \<Rightarrow>
          await (lift_net (tokio_timeout (from_millis (ar_acquire_timeout_ms rule)) (acquisition L provider global rule request)))
            (\<lambda>result. case result of
               Inr (Acquired ticket) \<Rightarrow>
                 (case ticket_scope L ticket of
                    None \<Rightarrow> panic
                  | Some scope \<Rightarrow>
                      if scope = ar_scope rule
                      then ret (True, admitted_request L (gw_fallback self) ticket request)
                      else ret (False, request))
             | _ \<Rightarrow> ret (False, request)))"

definition public_response ::
  "('c, 'h, 'rc, 'b) cors_lib \<Rightarrow> 'c option \<Rightarrow> string option \<Rightarrow> ('h, 'rc, 'b) gateway_response \<Rightarrow>
     ('h, 'rc, 'b) gateway_response" where
  "public_response C cors origin response =
     (let response1 = response\<lparr>rs_headers := snd (take_from_headers C (rs_headers response))\<rparr>
      in case cors of None \<Rightarrow> response1 | Some c \<Rightarrow> cors_apply_response C c origin response1)"

definition dispatch ::
  "('h, 'u) http_lib \<Rightarrow> ('w, 'h, 'u, 'b, 'rc) hyper_lib \<Rightarrow>
     ('w, 'h, 'u, 'b, 'rc, 'i, 'c) gateway \<Rightarrow> bool \<Rightarrow> ('w, 'h, 'u, 'b, 'rc) service" where
  "dispatch L H self matched request peer =
     (if matched then gw_matched self request peer
      else forward L H (gw_fallback self) request peer)"

definition handle ::
  "('h, 'u) http_lib \<Rightarrow> 'i router_lib \<Rightarrow> ('c, 'h, 'rc, 'b) cors_lib \<Rightarrow>
     ('w, 'h, 'u, 'b, 'rc) hyper_lib \<Rightarrow> ('w, 'h, 'u, 'b, 'rc, 'i, 'c) gateway \<Rightarrow>
     ('w, 'h, 'u, 'b, 'rc) service" where
  "handle L R C H self request0 peer =
     (let request = sanitize L C request0
      in case Option.bind (gw_cors self) (\<lambda>cors. preflight L C cors request) of
           Some response \<Rightarrow> ret response
         | None \<Rightarrow>
             (let origin = Option.bind (gw_cors self)
                             (\<lambda>_. map_option hv_bytes (hm_get L (rq_headers request) ''origin''));
                  selected = select R (gw_routes self) (rq_method request) (uri_path L (rq_uri request));
                  global = (global_rule L R self request \<noteq> None)
              in case effective_rule L R self request of
                   None \<Rightarrow> panic
                 | Some rule \<Rightarrow>
                     await (case rule of
                              None \<Rightarrow> ret (selected \<noteq> None, request)
                            | Some rule \<Rightarrow> admit L self global rule request)
                       (\<lambda>(matched, dispatched).
                          await (dispatch L H self matched dispatched peer)
                            (\<lambda>response. ret (public_response C (gw_cors self) origin response)))))"

section \<open>Construction\<close>

text \<open>
  The invariant of a built gateway: every admission rule names a registered provider, the
  fallback has an authority and route selection stays inside the admission table.
\<close>

definition gateway_wf ::
  "('h, 'u) http_lib \<Rightarrow> 'i router_lib \<Rightarrow> ('w, 'h, 'u, 'b, 'rc, 'i, 'c) gateway \<Rightarrow> bool" where
  "gateway_wf L R g \<longleftrightarrow>
     table_wf L R (gw_routes g) \<and>
     (\<forall>a. Some a \<in> set (rt_admissions (gw_routes g)) \<longrightarrow>
        registry_get (gw_admission g) (ar_provider a) \<noteq> None) \<and>
     (\<forall>a. gw_recording g = Some a \<longrightarrow>
        admission_is_valid L a \<and> registry_get (gw_admission g) (ar_provider a) \<noteq> None) \<and>
     fp_scheme (gw_fallback g) = ''http'' \<and> fp_authority (gw_fallback g) \<noteq> None"

lemma missing_provider_None_iff:
  "missing_provider reg n rules = None \<longleftrightarrow>
     (\<forall>a. Some a \<in> set rules \<longrightarrow> registry_get reg (ar_provider a) \<noteq> None)"
  by (induction reg n rules rule: missing_provider.induct) auto

lemma missing_provider_Some:
  "missing_provider reg n rules = Some (i, p) \<Longrightarrow>
     n \<le> i \<and> i - n < length rules \<and>
     (\<exists>a. rules ! (i - n) = Some a \<and> ar_provider a = p) \<and> registry_get reg p = None"
  by (induction reg n rules rule: missing_provider.induct)
    (auto simp: nth_Cons' split: if_splits)

lemma proxy_new_Inr_iff:
  "proxy_new L u = Inr p \<longleftrightarrow>
     uri_scheme L u = Some ''http'' \<and> uri_path L u = ''/'' \<and> uri_query L u = None \<and>
     (\<exists>a. uri_authority L u = Some a \<and> p = \<lparr>fp_scheme = ''http'', fp_authority = Some a\<rparr>)"
  by (auto simp: proxy_new_def split: option.splits if_splits)

lemma gateway_with_admission_wf:
  assumes "table_wf L R routes"
    and "gateway_with_admission L routes matched u reg = Inr g"
  shows "gateway_wf L R g"
  using assms
  by (auto simp: gateway_with_admission_def gateway_wf_def bind_ok_Inr_iff proxy_new_Inr_iff
      missing_provider_None_iff split: option.splits)

lemma with_recording_admission_wf:
  "gateway_wf L R g \<Longrightarrow> with_recording_admission L g rule = Inr g' \<Longrightarrow> gateway_wf L R g'"
  by (auto simp: with_recording_admission_def gateway_wf_def split: if_splits)

lemma with_cors_wf: "gateway_wf L R g \<Longrightarrow> with_cors C g c = Inr g' \<Longrightarrow> gateway_wf L R g'"
  by (auto simp: with_cors_def gateway_wf_def split: if_splits)

section \<open>The contracts of providers and services\<close>

definition ticket_good :: "('h, 'u) http_lib \<Rightarrow> 'u admission_ticket \<Rightarrow> bool" where
  "ticket_good L t \<longleftrightarrow>
     ticket_wf L t \<and> (\<forall>u. at_origin t = Some u \<longrightarrow> uri_authority L u \<noteq> None)"

text \<open>
  What the gateway needs of an \<open>AdmissionProvider\<close>: it hands out good tickets only, and in a
  world that satisfies its invariant \<open>I\<close> it does not panic.
\<close>

locale provider_contract = http_crate L
  for L :: "('h, 'u) http_lib" +
  fixes P :: "('w, 'u) admission_provider"
    and I :: "'w \<Rightarrow> bool"
  assumes acquired_good:
      "try_acquire P budget scope w = (Ready (Inr (Acquired t)), w') \<Longrightarrow> ticket_good L t"
    and acquired_request_good:
      "try_acquire_request P budget scope path w = (Ready (Inr (Acquired t)), w') \<Longrightarrow>
         ticket_good L t"
    and acquire_no_panic: "I w \<Longrightarrow> fst (try_acquire P budget scope w) \<noteq> Panicked"
    and acquire_request_no_panic: "I w \<Longrightarrow> fst (try_acquire_request P budget scope path w) \<noteq> Panicked"
begin

lemma acquisition_good:
  "acquisition L P global rule r w = (Ready (Inr (Acquired t)), w') \<Longrightarrow> ticket_good L t"
  by (auto simp: acquisition_def split: if_splits dest: acquired_good acquired_request_good)

lemma acquisition_no_panic: "I w \<Longrightarrow> acquisition L P global rule r w \<noteq> (Panicked, w')"
  using acquire_no_panic acquire_request_no_panic
  by (auto simp: acquisition_def split: if_splits) (metis fst_conv)+

end

text \<open>
  A request carries admission headers exactly when it carries a ticket, and then exactly the
  ticket's values.
\<close>

definition ticket_consistent :: "('h, 'u) http_lib \<Rightarrow> ('h, 'u, 'b) request \<Rightarrow> bool" where
  "ticket_consistent L r \<longleftrightarrow>
     hm_get_all L (rq_headers r) ADMISSION_SCOPE_HEADER =
       (case ext_ticket (rq_ext r) of None \<Rightarrow> [] | Some t \<Rightarrow> [at_scope t]) \<and>
     hm_get_all L (rq_headers r) ADMISSION_TOKEN_HEADER =
       (case ext_ticket (rq_ext r) of None \<Rightarrow> [] | Some t \<Rightarrow> [at_token t])"

definition clean_request ::
  "('h, 'u) http_lib \<Rightarrow> ('c, 'h, 'rc, 'b) cors_lib \<Rightarrow> ('h, 'u, 'd) request \<Rightarrow> bool" where
  "clean_request L C r \<longleftrightarrow>
     ticket_consistent L r \<and> origin_ok L r \<and>
     hm_get_all L (rq_headers r) (response_cors_header C) = []"

definition wire_clean ::
  "('h, 'u) http_lib \<Rightarrow> ('c, 'h, 'rc, 'b) cors_lib \<Rightarrow> 'u admission_ticket option \<Rightarrow>
     ('h, 'u, 'd) request \<Rightarrow> bool" where
  "wire_clean L C ticket q \<longleftrightarrow>
     ticket_consistent L q \<and> hm_get_all L (rq_headers q) (response_cors_header C) = [] \<and>
     (ext_ticket (rq_ext q) = None \<or> ext_ticket (rq_ext q) = ticket)"

text \<open>
  What the gateway needs of a service: it does not panic, it only adds to the log, and what it
  sends is clean.
\<close>

locale service_contract = cors_crate L C
  for L :: "('h, 'u) http_lib" and C :: "('c, 'h, 'rc, 'b) cors_lib" +
  fixes S :: "('w, 'h, 'u, 'b, 'rc) service"
  assumes sends_clean:
    "clean_request L C r \<Longrightarrow> S r peer s = (res, s') \<Longrightarrow>
       \<exists>evs. nw_log s' = nw_log s @ evs \<and>
         (\<forall>q \<in> set (sent_of evs). wire_clean L C (ext_ticket (rq_ext r)) q)"
    and serves_no_panic: "clean_request L C r \<Longrightarrow> fst (S r peer s) \<noteq> Panicked"

lemma clean_request_map [simp]: "clean_request L C (map_request f r) = clean_request L C r"
  by (simp add: clean_request_def ticket_consistent_def origin_ok_def ticket_origin_def)

lemma clean_request_ext [simp]:
  "clean_request L C (r\<lparr>rq_ext := (rq_ext r)\<lparr>ext_recording := x\<rparr>\<rparr>) = clean_request L C r"
  by (simp add: clean_request_def ticket_consistent_def origin_ok_def ticket_origin_def)

context http_crate
begin

lemma wire_ticket_consistent:
  assumes "ticket_consistent L r" and "wire_request L self r peer = Some q"
  shows "ticket_consistent L q"
proof (rule wire_requestE [OF assms(2)])
  fix p
  assume p: "prepare_request L self r peer (is_upgrade L (rq_headers r)) = Some (Inr p)"
    and q: "q = p\<lparr>rq_ext := (rq_ext r)\<lparr>ext_upgrades := None\<rparr>\<rparr>"
  with assms(1) prepare_request_headers [OF p] show ?thesis
    by (auto simp: ticket_consistent_def split: option.splits)
qed

lemma wire_absent:
  assumes "hm_get_all L (rq_headers r) n = []" and "wire_request L self r peer = Some q"
    and "n \<notin> {X_FORWARDED_FOR, X_FORWARDED_HOST, X_FORWARDED_PROTO, ADMISSION_SCOPE_HEADER,
      ADMISSION_TOKEN_HEADER}"
  shows "hm_get_all L (rq_headers q) n = []"
proof (rule wire_requestE [OF assms(2)])
  fix p
  assume p: "prepare_request L self r peer (is_upgrade L (rq_headers r)) = Some (Inr p)"
    and q: "q = p\<lparr>rq_ext := (rq_ext r)\<lparr>ext_upgrades := None\<rparr>\<rparr>"
  with assms(1,3) prepare_request_headers [OF p] show ?thesis
    by (auto split: option.splits)
qed

end

context cors_crate
begin

lemma wire_clean_wire_request:
  assumes "clean_request L C r" and "wire_request L self r peer = Some q"
  shows "wire_clean L C (ext_ticket (rq_ext r)) q"
  using assms reserved_distinct
  by (auto simp: clean_request_def wire_clean_def wire_request_sel
      intro: wire_ticket_consistent wire_absent)

lemma clean_retry: "clean_request L C r \<Longrightarrow> clean_request L C (retry_request L r b)"
  by (auto simp: clean_request_def ticket_consistent_def) (auto simp: retry_request_def)

lemma clean_sanitize: "clean_request L C (sanitize L C r)"
  using reserved_distinct
  by (auto simp: clean_request_def ticket_consistent_def sanitize_def origin_ok_def ticket_origin_def)

lemma clean_admitted:
  assumes "clean_request L C r" and "ticket_good L t"
  shows "clean_request L C (admitted_request L fb t r)"
  using assms reserved_distinct
  by (auto simp: clean_request_def admitted_request_def Let_def ticket_consistent_def get_all_attach
      origin_ok_def ticket_origin_def ticket_good_def)

lemma forward_sends:
  fixes r :: "('h, 'u, 'b) request"
  assumes "clean_request L C r" and "forward L H p r peer s = (res, s')"
  shows "\<exists>evs. nw_log s' = nw_log s @ evs \<and>
    (\<forall>q \<in> set (sent_of evs). wire_clean L C (ext_ticket (rq_ext r)) q)"
proof -
  define r1 :: "('h, 'u, ('h, 'b) gateway_body) request" where "r1 = map_request Streamed r"
  define d where "d = (if is_upgrade L (rq_headers r1) then Some (hy_request_upgrade H r1) else None)"
  from assms(1) have cl: "clean_request L C r1" and ok: "origin_ok L r1"
    and tk: "ext_ticket (rq_ext r1) = ext_ticket (rq_ext r)"
    by (simp_all add: r1_def) (simp add: clean_request_def)
  obtain res1 s1 where first: "try_forward_body L H p r1 peer d s = (res1, s1)" by fastforce
  with assms(2) have "s' = s1"
    unfolding forward_def forward_body_def Let_def r1_def [symmetric] d_def [symmetric]
    by (auto simp: await_def split: async.splits)
  with try_forward_body_log [OF first ok] wire_clean_wire_request [OF cl] tk show ?thesis
    by (auto split: option.splits)
qed

lemma clean_buffered: "clean_request L C r \<Longrightarrow> clean_request L C (buffered_request r b t)"
  by (simp add: buffered_request_def)

lemma forward_recording_sends:
  fixes r :: "('h, 'u, 'b) request"
  assumes cl: "clean_request L C r" and run: "forward_recording L H p r peer s = (res, s')"
  shows "\<exists>evs. nw_log s' = nw_log s @ evs \<and>
    (\<forall>q \<in> set (sent_of evs). wire_clean L C (ext_ticket (rq_ext r)) q)"
proof (cases "ext_recording (rq_ext r)")
  case None
  with run have "forward L H p (r\<lparr>rq_ext := (rq_ext r)\<lparr>ext_recording := None\<rparr>\<rparr>) peer s = (res, s')"
    by (simp add: forward_recording_def)
  from forward_sends [OF _ this] cl show ?thesis by simp
next
  case (Some fb)
  from cl have ok: "origin_ok L r" by (simp add: clean_request_def)
  from forward_recording_log [OF ok Some run] obtain evs b t where log: "nw_log s' = nw_log s @ evs"
    and sent: "sent_of evs = [] \<or> (\<exists>q. wire_request L p (buffered_request r b t) peer = Some q \<and>
      (sent_of evs = [q] \<or> (\<exists>q'. wire_request L fb
         (retry_request L (buffered_request r b t) (Replayed (replay_body b t))) peer = Some q' \<and>
         sent_of evs = [q, q'])))"
    by (auto simp: Let_def)
  have first: "wire_clean L C (ext_ticket (rq_ext r)) q"
    if "wire_request L p (buffered_request r b t) peer = Some q" for q
    using wire_clean_wire_request [OF clean_buffered [OF cl] that] by simp
  have second: "wire_clean L C (ext_ticket (rq_ext r)) q"
    if "wire_request L fb (retry_request L (buffered_request r b t) (Replayed (replay_body b t))) peer
        = Some q" for q
    using wire_clean_wire_request [OF clean_retry [OF clean_buffered [OF cl]] that]
    by (simp add: wire_clean_def)
  from log sent first second show ?thesis by fastforce
qed

lemma origin_call_sends:
  fixes r :: "('h, 'u, 'b) request"
  assumes "clean_request L C r" and "origin_call L C H svc r peer s = (res, s')"
  shows "\<exists>evs. nw_log s' = nw_log s @ evs \<and>
    (\<forall>q \<in> set (sent_of evs). wire_clean L C (ext_ticket (rq_ext r)) q)"
proof -
  obtain res1 s1 where run: "forward_recording L H (os_proxy svc) r peer s = (res1, s1)"
    by fastforce
  with assms(2) have "s' = s1"
    by (auto simp: origin_call_def await_def Let_def split: async.splits prod.splits)
  with forward_recording_sends [OF assms(1) run] show ?thesis by simp
qed

lemma origin_call_no_panic:
  assumes "http_client H" and "clean_request L C r"
  shows "fst (origin_call L C H svc r peer s) \<noteq> Panicked"
  using assms http_client.forward_recording_no_panic [of H L r "os_proxy svc" peer s]
  by (auto simp: origin_call_def await_def clean_request_def Let_def split: prod.splits async.splits)

lemma origin_service_contract:
  "http_client H \<Longrightarrow> service_contract L C (origin_call L C H svc)"
  by unfold_locales (auto intro: origin_call_sends simp: origin_call_no_panic)

lemma reject_service_contract: "service_contract L C (reject_matched L)"
  by unfold_locales (auto simp: reject_matched_def)

lemma public_response_no_control:
  "hm_get_all L (rs_headers (public_response C cors origin response)) (response_cors_header C) = []"
  by (simp add: public_response_def Let_def apply_reserved take_removes split: option.splits)

lemma public_response_keeps:
  "rs_status (public_response C cors origin response) = rs_status response"
  "rs_body (public_response C cors origin response) = rs_body response"
  by (simp_all add: public_response_def Let_def apply_status apply_body split: option.splits)

end

section \<open>The handler\<close>

text \<open>The path of a request that does not enter the matched service.\<close>

definition request_origin ::
  "('h, 'u) http_lib \<Rightarrow> ('c, 'h, 'rc, 'b) cors_lib \<Rightarrow> ('w, 'h, 'u, 'b, 'rc, 'i, 'c) gateway \<Rightarrow>
     ('h, 'u, 'b) request \<Rightarrow> string option" where
  "request_origin L C g r =
     Option.bind (gw_cors g)
       (\<lambda>_. map_option hv_bytes (hm_get L (rq_headers (sanitize L C r)) ''origin''))"

definition answer ::
  "('h, 'u) http_lib \<Rightarrow> ('c, 'h, 'rc, 'b) cors_lib \<Rightarrow> ('w, 'h, 'u, 'b, 'rc, 'i, 'c) gateway \<Rightarrow>
     ('h, 'u, 'b) request \<Rightarrow> (('w, 'h, 'u, 'b) net, ('h, 'rc, 'b) gateway_response) fut \<Rightarrow>
     (('w, 'h, 'u, 'b) net, ('h, 'rc, 'b) gateway_response) fut" where
  "answer L C g r upstream =
     await upstream (\<lambda>response. ret (public_response C (gw_cors g) (request_origin L C g r) response))"

definition local_preflight ::
  "('h, 'u) http_lib \<Rightarrow> ('c, 'h, 'rc, 'b) cors_lib \<Rightarrow> ('w, 'h, 'u, 'b, 'rc, 'i, 'c) gateway \<Rightarrow>
     ('h, 'u, 'b) request \<Rightarrow> ('h, 'rc, 'b) gateway_response option" where
  "local_preflight L C g r = Option.bind (gw_cors g) (\<lambda>c. preflight L C c (sanitize L C r))"

lemma sanitize_sel [simp]:
  "rq_method (sanitize L C r) = rq_method r"
  "rq_uri (sanitize L C r) = rq_uri r"
  "rq_version (sanitize L C r) = rq_version r"
  "rq_body (sanitize L C r) = rq_body r"
  "rq_ext (sanitize L C r) = (rq_ext r)\<lparr>ext_ticket := None\<rparr>"
  by (simp_all add: sanitize_def)

lemma handle_preflight:
  "local_preflight L C g r = Some resp \<Longrightarrow> handle L R C H g r peer s = (Ready resp, s)"
  by (simp add: handle_def local_preflight_def Let_def)

lemma handle_cases:
  assumes "local_preflight L C g r = None"
  shows "handle L R C H g r peer =
    (case effective_rule L R g (sanitize L C r) of
       None \<Rightarrow> panic
     | Some None \<Rightarrow>
         answer L C g r (dispatch L H g
           (select R (gw_routes g) (rq_method r) (uri_path L (rq_uri r)) \<noteq> None) (sanitize L C r) peer)
     | Some (Some rule) \<Rightarrow>
         await (admit L g (global_rule L R g (sanitize L C r) \<noteq> None) rule (sanitize L C r))
           (\<lambda>(matched, q). answer L C g r (dispatch L H g matched q peer)))"
  using assms
  by (auto simp: handle_def local_preflight_def Let_def answer_def request_origin_def
      split: option.splits)

lemma lift_net_tokio_timeout:
  "lift_net (tokio_timeout budget c) s =
     (case c (nw_world s) of
        (Cancelled, w') \<Rightarrow> (Ready (Inl Timeout), s\<lparr>nw_world := w'\<rparr>)
      | (r, w') \<Rightarrow> (r, s\<lparr>nw_world := w'\<rparr>))"
  by (auto simp: lift_net_def tokio_timeout_def split: prod.splits async.splits)

text \<open>Whether an outcome of an acquisition admits the request under a rule.\<close>

fun admits ::
  "('h, 'u) http_lib \<Rightarrow> admission_rule \<Rightarrow> (admission_error + 'u acquire_outcome) async \<Rightarrow>
     'u admission_ticket option" where
  "admits L rule (Ready (Inr (Acquired t))) =
     (if ticket_scope L t = Some (ar_scope rule) then Some t else None)"
| "admits L rule _ = None"

lemma admit_cases:
  assumes "registry_get (gw_admission g) (ar_provider rule) = Some P"
    and "acquisition L P global rule r (nw_world s) = (out, w')" and "out \<noteq> Panicked"
    and "\<And>t. out = Ready (Inr (Acquired t)) \<Longrightarrow> ticket_scope L t \<noteq> None"
  shows "admit L g global rule r s =
    (case admits L rule out of
       Some t \<Rightarrow> (Ready (True, admitted_request L (gw_fallback g) t r), s\<lparr>nw_world := w'\<rparr>)
     | None \<Rightarrow> (Ready (False, r), s\<lparr>nw_world := w'\<rparr>))"
proof (cases out)
  case (Ready x)
  show ?thesis
  proof (cases "\<exists>t. x = Inr (Acquired t)")
    case True
    with assms Ready show ?thesis
      by (auto simp: admit_def await_def lift_net_tokio_timeout)
  next
    case False
    with assms Ready show ?thesis
      by (cases x) (auto simp: admit_def await_def lift_net_tokio_timeout split: acquire_outcome.splits)
  qed
next
  case Cancelled
  with assms show ?thesis by (simp add: admit_def await_def lift_net_tokio_timeout)
next
  case Panicked
  with assms(3) show ?thesis by simp
qed

end
