(* ===== verification/Discovery.thy ===== *)
theory Discovery
  imports Prelude
begin

text \<open>
  Model of \<open>src/redis_admission/discovery.rs\<close>: the cooldown and the single lookup in flight that
  all clones of a provider share. The mutex makes each operation atomic, so an operation is a
  function of the state and of \<open>Instant::now()\<close>. A \<open>Lookup\<close> guard is the permission to drop
  it once; \<open>available\<close> consumes it with the flag set.
\<close>

section \<open>Definitions\<close>

definition RECORDER_RETRY_INTERVAL :: duration where
  "RECORDER_RETRY_INTERVAL = from_secs 10"

record discovery_state =
  ds_retry_after :: "instant option"
  ds_checking :: bool

definition discovery_default :: discovery_state where
  "discovery_default = \<lparr>ds_retry_after = None, ds_checking = False\<rparr>"

datatype lookup_unavailable = CoolingDown | InProgress

record lookup =
  lk_available :: bool

definition cooling_down :: "instant \<Rightarrow> discovery_state \<Rightarrow> bool" where
  "cooling_down now state \<longleftrightarrow>
     (case ds_retry_after state of None \<Rightarrow> False | Some deadline \<Rightarrow> now < deadline)"

definition try_lookup ::
  "instant \<Rightarrow> discovery_state \<Rightarrow> (lookup_unavailable + lookup) \<times> discovery_state" where
  "try_lookup now state =
     (if cooling_down now state then (Inl CoolingDown, state)
      else if ds_checking state then (Inl InProgress, state)
      else (Inr \<lparr>lk_available = False\<rparr>, state\<lparr>ds_checking := True\<rparr>))"

definition lookup_drop :: "instant \<Rightarrow> lookup \<Rightarrow> discovery_state \<Rightarrow> discovery_state" where
  "lookup_drop now guard state =
     state\<lparr>ds_checking := False,
           ds_retry_after := (if lk_available guard then None else Some (now + RECORDER_RETRY_INTERVAL))\<rparr>"

definition lookup_available :: "instant \<Rightarrow> lookup \<Rightarrow> discovery_state \<Rightarrow> discovery_state" where
  "lookup_available now guard state = lookup_drop now (guard\<lparr>lk_available := True\<rparr>) state"

section \<open>All interleavings\<close>

text \<open>
  A provider's discovery state together with the number of guards that are alive and the clock.
  Steps: the clock moves, some request tries a lookup, some owner of a guard drops it, with or
  without \<open>available\<close>.
\<close>

record discovery_run =
  dr_now :: instant
  dr_state :: discovery_state
  dr_guards :: nat

inductive discovery_step :: "discovery_run \<Rightarrow> discovery_run \<Rightarrow> bool" where
  tick: "dr_now r \<le> now \<Longrightarrow> discovery_step r (r\<lparr>dr_now := now\<rparr>)"
| start: "try_lookup (dr_now r) (dr_state r) = (Inr guard, state) \<Longrightarrow>
    discovery_step r (r\<lparr>dr_state := state, dr_guards := Suc (dr_guards r)\<rparr>)"
| refuse: "try_lookup (dr_now r) (dr_state r) = (Inl why, state) \<Longrightarrow>
    discovery_step r (r\<lparr>dr_state := state\<rparr>)"
| finish: "dr_guards r = Suc n \<Longrightarrow>
    discovery_step r (r\<lparr>dr_state := lookup_drop (dr_now r) guard (dr_state r), dr_guards := n\<rparr>)"

inductive_cases discovery_stepE: "discovery_step r r'"

definition discovery_start :: "instant \<Rightarrow> discovery_run" where
  "discovery_start now = \<lparr>dr_now = now, dr_state = discovery_default, dr_guards = 0\<rparr>"

text \<open>
  One guard at most, flagged by \<open>checking\<close>, and no cooldown beyond the retry interval.
\<close>

definition discovery_inv :: "discovery_run \<Rightarrow> bool" where
  "discovery_inv r \<longleftrightarrow>
     dr_guards r = (if ds_checking (dr_state r) then 1 else 0) \<and>
     (\<forall>d. ds_retry_after (dr_state r) = Some d \<longrightarrow> d \<le> dr_now r + RECORDER_RETRY_INTERVAL)"

lemma try_lookup_cases:
  "try_lookup now state = (Inr guard, state') \<longleftrightarrow>
     \<not> cooling_down now state \<and> \<not> ds_checking state \<and> guard = \<lparr>lk_available = False\<rparr> \<and>
     state' = state\<lparr>ds_checking := True\<rparr>"
  "try_lookup now state = (Inl why, state') \<longleftrightarrow>
     state' = state \<and>
     (cooling_down now state \<and> why = CoolingDown \<or>
      \<not> cooling_down now state \<and> ds_checking state \<and> why = InProgress)"
  by (auto simp: try_lookup_def)

lemma lookup_drop_sel [simp]:
  "ds_checking (lookup_drop now guard state) = False"
  "ds_retry_after (lookup_drop now guard state) =
     (if lk_available guard then None else Some (now + RECORDER_RETRY_INTERVAL))"
  by (simp_all add: lookup_drop_def)

lemma discovery_inv_step: "discovery_step r r' \<Longrightarrow> discovery_inv r \<Longrightarrow> discovery_inv r'"
  by (induction rule: discovery_step.induct)
    (auto simp: discovery_inv_def try_lookup_cases split: if_splits)

lemma discovery_inv_reachable:
  "discovery_step\<^sup>*\<^sup>* (discovery_start now) r \<Longrightarrow> discovery_inv r"
  by (induction rule: rtranclp_induct)
    (auto simp: discovery_inv_step, simp add: discovery_inv_def discovery_start_def discovery_default_def)

section \<open>Properties\<close>

text \<open>
  C26: discovery is exclusive and its cooldown is bounded. In every interleaving of lookups,
  drops and clock ticks that starts from a fresh provider, at most one lookup guard is alive, a
  new lookup is admitted exactly when no guard is alive and no cooldown is running, and a
  cooldown ends at most ten seconds after the present.
\<close>

theorem discovery_exclusive:
  assumes "discovery_step\<^sup>*\<^sup>* (discovery_start t0) r"
  shows "dr_guards r \<le> 1 \<and>
    (is_ok (fst (try_lookup (dr_now r) (dr_state r))) \<longleftrightarrow>
       dr_guards r = 0 \<and> \<not> cooling_down (dr_now r) (dr_state r)) \<and>
    \<not> cooling_down (dr_now r + from_secs 10) (dr_state r)"
  using discovery_inv_reachable [OF assms]
  by (auto simp: discovery_inv_def try_lookup_def cooling_down_def RECORDER_RETRY_INTERVAL_def
      split: option.splits if_splits)

theorem discovery_exclusive_witness:
  "\<exists>r. discovery_step\<^sup>*\<^sup>* (discovery_start 5) r \<and> dr_guards r = 1 \<and>
     \<not> is_ok (fst (try_lookup (dr_now r) (dr_state r)))"
proof -
  let ?r = "(discovery_start 5)\<lparr>dr_state := discovery_default\<lparr>ds_checking := True\<rparr>, dr_guards := Suc 0\<rparr>"
  have "try_lookup (dr_now (discovery_start 5)) (dr_state (discovery_start 5)) =
      (Inr \<lparr>lk_available = False\<rparr>, discovery_default\<lparr>ds_checking := True\<rparr>)"
    by (simp add: try_lookup_cases discovery_start_def cooling_down_def discovery_default_def)
  from discovery_step.start [OF this] have "discovery_step (discovery_start 5) ?r"
    by (simp add: discovery_start_def)
  then have "discovery_step\<^sup>*\<^sup>* (discovery_start 5) ?r" by (rule r_into_rtranclp)
  with discovery_exclusive [OF this] show ?thesis by (intro exI [of _ ?r]) simp
qed

text \<open>
  A lookup that fails, is cancelled or is abandoned blocks discovery for exactly ten
  seconds; one that reports availability clears the cooldown at once. In both cases the guard
  is released, so a later request can try again.
\<close>

lemma drop_starts_cooldown:
  "fst (try_lookup t (lookup_drop now guard state)) =
     (if \<not> lk_available guard \<and> t < now + from_secs 10 then Inl CoolingDown
      else Inr \<lparr>lk_available = False\<rparr>) \<and>
   fst (try_lookup t (lookup_available now guard state)) = Inr \<lparr>lk_available = False\<rparr>"
  by (auto simp: try_lookup_def cooling_down_def lookup_available_def RECORDER_RETRY_INTERVAL_def)

end
