(* ===== verification/Segment_Router.thy ===== *)
theory Segment_Router
  imports Routing
begin

text \<open>
  An executable route index that satisfies the laws of \<open>router_crate\<close>: rules are kept in a list
  and a template is matched segment by segment. It is the instance at which the witnesses
  evaluate route selection and policy matching; no property depends on it.
\<close>

fun segments_match :: "string list \<Rightarrow> string list \<Rightarrow> bool" where
  "segments_match [] ps = (ps = [])"
| "segments_match (t # ts) ps =
     (if starts_with ''*'' t \<and> ts = [] then ps \<noteq> []
      else case ps of
             [] \<Rightarrow> False
           | p # ps' \<Rightarrow>
               (if starts_with '':'' t then p \<noteq> [] else p = t) \<and> segments_match ts ps')"

definition template_match :: "string \<Rightarrow> string \<Rightarrow> bool" where
  "template_match t p = segments_match (split_on CHR ''/'' t) (split_on CHR ''/'' p)"

definition template_ok :: "string \<Rightarrow> bool" where
  "template_ok t \<longleftrightarrow>
     starts_with ''/'' t \<and> list_all (\<lambda>s. \<not> starts_with ''*'' s) (butlast (split_on CHR ''/'' t))"

definition segment_router :: "indexed_rule list router_lib" where
  "segment_router =
     \<lparr>ri_default = [],
      ri_compile =
        (\<lambda>rules. if list_all (\<lambda>r. template_ok (ir_path r)) rules then Inr rules
                 else Inl ''invalid route template''),
      ri_resolve_raw = (\<lambda>ix m p. first_index (indexed_selects template_match m p) ix),
      ri_matches = (\<lambda>ix m p. list_ex (indexed_selects template_match m p) ix),
      ri_is_empty = (\<lambda>ix. ix = []),
      ri_len = length\<rparr>"

lemma segments_match_literal:
  "\<forall>s \<in> set ts. \<not> starts_with '':'' s \<and> \<not> starts_with ''*'' s \<Longrightarrow>
     segments_match ts ps \<longleftrightarrow> ps = ts"
  by (induction ts ps rule: segments_match.induct) (auto split: list.splits)

lemma segments_match_rest:
  "\<forall>s \<in> set ts. \<not> starts_with '':'' s \<and> \<not> starts_with ''*'' s \<Longrightarrow> starts_with ''*'' l \<Longrightarrow>
     segments_match (ts @ [l]) ps \<longleftrightarrow> (\<exists>qs. qs \<noteq> [] \<and> ps = ts @ qs)"
proof (induction ts arbitrary: ps)
  case Nil
  then show ?case by simp
next
  case (Cons t ts)
  then show ?case by (cases ps) auto
qed

lemma template_match_literal: "literal_path t \<Longrightarrow> template_match t p \<longleftrightarrow> p = t"
  by (simp add: template_match_def literal_path_def segments_match_literal split_on_inj)

lemma template_match_rest:
  assumes base: "literal_path base" and name: "CHR ''/'' \<notin> set name"
  shows "template_match (base @ ''/*'' @ name) p \<longleftrightarrow> starts_with (base @ ''/'') p"
proof -
  let ?sp = "split_on CHR ''/''"
  from name have last: "?sp (CHR ''*'' # name) = [CHR ''*'' # name]"
    by (intro split_on_no_occurrence) auto
  have "template_match (base @ ''/*'' @ name) p \<longleftrightarrow> (\<exists>qs. qs \<noteq> [] \<and> ?sp p = ?sp base @ qs)"
    using base split_on_append_delim [of "CHR ''/''" base "CHR ''*'' # name"] last
    by (simp add: template_match_def literal_path_def segments_match_rest)
  also have "\<dots> \<longleftrightarrow> (\<exists>t. p = base @ CHR ''/'' # t)"
  proof
    assume "\<exists>qs. qs \<noteq> [] \<and> ?sp p = ?sp base @ qs"
    then obtain qs where "qs \<noteq> []" and "?sp p = ?sp base @ qs" by blast
    then have "p = base @ CHR ''/'' # join_with CHR ''/'' qs"
      using join_split [of "CHR ''/''" p] join_split [of "CHR ''/''" base]
      by (metis join_with_append split_on_nonempty)
    then show "\<exists>t. p = base @ CHR ''/'' # t" ..
  next
    assume "\<exists>t. p = base @ CHR ''/'' # t"
    then show "\<exists>qs. qs \<noteq> [] \<and> ?sp p = ?sp base @ qs"
      by (auto simp: split_on_append_delim)
  qed
  finally show ?thesis by (simp add: starts_with_iff)
qed

interpretation segment_routes: routing assoc_lib segment_router template_match
  by unfold_locales
    (auto simp: segment_router_def list_ex_iff template_match_literal template_match_rest [simplified]
      split: if_splits)

section \<open>Properties\<close>

text \<open>
  C24: compilation preserves the meaning of a route configuration. For any router that keeps the
  documented contract, the compiled table selects exactly the route that the configuration
  itself designates (an exclusion wins, otherwise the first matching entry in declaration
  order), has one entry per rule, and the admission rule stored at a selected index is that
  route's own.
\<close>

theorem compiled_table_selects:
  assumes "routing L R tm" and "compile_table L R config = Inr t"
  shows "select R t m p = config_select tm config m p \<and>
    table_len R t = length (rc_routes config) \<and>
    (case select R t m p of
       None \<Rightarrow> True
     | Some i \<Rightarrow> i < length (rc_routes config) \<and>
         rt_admissions t ! i = rr_admission (rc_routes config ! i) \<and>
         route_selects tm m p (rc_routes config ! i))"
proof -
  have "route_selects tm m p (rc_routes config ! i)" if "select R t m p = Some i" for i
    using that
    by (auto simp: routing.compiled_select [OF assms] config_select_def first_index_Some_iff split: if_splits)
  then show ?thesis
    using routing.compiled_select [OF assms, of m p] routing.compiled_len [OF assms]
      routing.compiled_admission [OF assms, of m p]
    by (auto split: option.split)
qed

definition overlapping_routes :: routes_config where
  "overlapping_routes =
     \<lparr>rc_routes =
        [\<lparr>rr_methods = [], rr_path = ''/api/:id'',
          rr_admission = Some \<lparr>ar_provider = ''recording'', ar_scope = ''all-writes'',
                               ar_acquire_timeout_ms = default_admission_acquire_timeout_ms\<rparr>\<rparr>,
         \<lparr>rr_methods = [''POST''], rr_path = ''/api/new'', rr_admission = None\<rparr>],
      rc_exclude = [\<lparr>er_methods = [''GET''], er_path = ''/api/events''\<rparr>]\<rparr>"

theorem compiled_table_selects_witness:
  "\<exists>t. compile_table assoc_lib segment_router overlapping_routes = Inr t \<and>
     select segment_router t ''POST'' ''/api/new'' = Some 0 \<and>
     select segment_router t ''GET'' ''/api/events'' = None \<and>
     table_len segment_router t = 2"
proof -
  have "is_ok (compile_table assoc_lib segment_router overlapping_routes)" by code_simp
  then obtain t where t: "compile_table assoc_lib segment_router overlapping_routes = Inr t"
    by (auto simp: is_ok_iff)
  note selects = compiled_table_selects [OF segment_routes.routing_axioms t]
  have "config_select template_match overlapping_routes ''POST'' ''/api/new'' = Some 0"
    and "config_select template_match overlapping_routes ''GET'' ''/api/events'' = None"
    and "length (rc_routes overlapping_routes) = 2"
    by code_simp+
  with t selects [of "''POST''" "''/api/new''"] selects [of "''GET''" "''/api/events''"]
  show ?thesis by auto
qed

text \<open>
  C40: a rejected configuration names its culprit. Whatever error compilation returns, the index
  in it is the index of a rule of the configuration, the method in it is a method of that rule
  which the HTTP crate refuses, an admission error points at an invalid admission rule, and a
  route error is the router's own verdict on exactly the configured paths. Compilation never
  reports a read or decode error.
\<close>

theorem compile_error_explained:
  assumes "compile_table L R config = Inl e"
  shows "explains L R config e"
  using assms by (rule compile_table_Inl)

definition bad_admission_routes :: routes_config where
  "bad_admission_routes =
     overlapping_routes\<lparr>rc_routes :=
       rc_routes overlapping_routes @
       [\<lparr>rr_methods = [''POST''], rr_path = ''/api/write'',
         rr_admission = Some \<lparr>ar_provider = ''recording'', ar_scope = ''s'', ar_acquire_timeout_ms = 0\<rparr>\<rparr>]\<rparr>"

theorem compile_error_explained_witness:
  "compile_table assoc_lib segment_router bad_admission_routes = Inl (InvalidAdmission 2) \<and>
   explains assoc_lib segment_router bad_admission_routes (InvalidAdmission 2)"
proof -
  have "(case compile_table assoc_lib segment_router bad_admission_routes of
      Inl e \<Rightarrow> e = InvalidAdmission 2 | Inr _ \<Rightarrow> False)" by code_simp
  then have "compile_table assoc_lib segment_router bad_admission_routes = Inl (InvalidAdmission 2)"
    by (auto split: sum.splits)
  then show ?thesis using compile_error_explained by blast
qed

end
