(* ===== verification/Policy.thy ===== *)
theory Policy
  imports Segment_Router Admission
begin

text \<open>
  Model of the compiled API policy of \<open>src/redis_admission/policy.rs\<close>: the JSON configuration
  after decoding, its validation, its compilation into three route indexes and the lookup of
  the counter path of a request. The specification \<open>config_api\<close> reads the configuration
  directly, with whole-segment prefixes and no router; compilation is proved to agree with it.
  Loading and publishing a policy is in \<open>Policy_Store\<close>.
\<close>

section \<open>Definitions\<close>

datatype match_kind = Prefix | Exact

record path_rule =
  pa_path :: string
  pa_kind :: match_kind

record policy_config =
  pc_case_limit :: "nat option"
  pc_includes :: "path_rule list"
  pc_excludes :: "path_rule list"

definition policy_default :: policy_config where
  "policy_default = \<lparr>pc_case_limit = None, pc_includes = [], pc_excludes = []\<rparr>"

record 'i compiled_policy =
  cp_case_limit :: "nat option"
  cp_includes_all :: bool
  cp_exact :: 'i
  cp_exact_paths :: "string list"
  cp_prefixes :: 'i
  cp_excludes :: 'i

definition invalid :: "string \<Rightarrow> admission_error" where
  "invalid message = Backend message"

definition indexed :: "string \<Rightarrow> indexed_rule" where
  "indexed path = \<lparr>ir_path = path, ir_methods = [], ir_priority = 0\<rparr>"

definition validate_path :: "('h, 'u) http_lib \<Rightarrow> string \<Rightarrow> admission_error + unit" where
  "validate_path L path =
     (case uri_parse L path of
        None \<Rightarrow> Inl (Backend ''invalid uri'')
      | Some uri \<Rightarrow>
          if \<not> starts_with ''/'' path \<or> uri_path L uri \<noteq> path \<or> uri_query L uri \<noteq> None \<or>
             CHR ''#'' \<in> set path
          then Inl (invalid ''policy rules require an absolute path without query or fragment'')
          else Inr ())"

definition compile_index :: "'i router_lib \<Rightarrow> indexed_rule list \<Rightarrow> admission_error + 'i" where
  "compile_index R rules = map_err Backend (ri_compile R rules)"

definition add_prefix :: "indexed_rule list \<Rightarrow> string \<Rightarrow> admission_error + indexed_rule list" where
  "add_prefix rules path =
     (if \<not> starts_with ''/'' path \<or>
         list_ex (\<lambda>segment. starts_with '':'' segment \<or> starts_with ''*'' segment)
           (split_on CHR ''/'' path)
      then Inl (invalid ''prefix paths must be absolute literal paths'')
      else
        (let base = trim_end_char CHR ''/'' path
         in Inr (rules @ [indexed (if base = [] then ''/'' else base),
                          indexed (base @ ''/*__breeze_policy_path'')])))"

text \<open>The loop over \<open>config.includes\<close>, with the three vectors it fills.\<close>

fun compile_includes ::
  "('h, 'u) http_lib \<Rightarrow> path_rule list \<Rightarrow> indexed_rule list \<Rightarrow> string list \<Rightarrow> indexed_rule list \<Rightarrow>
     admission_error + indexed_rule list \<times> string list \<times> indexed_rule list" where
  "compile_includes L [] exact exact_paths prefixes = Inr (exact, exact_paths, prefixes)"
| "compile_includes L (rule # rules) exact exact_paths prefixes =
     bind_ok (validate_path L (pa_path rule))
       (\<lambda>_. case pa_kind rule of
          Exact \<Rightarrow>
            compile_includes L rules (exact @ [indexed (pa_path rule)])
              (exact_paths @ [pa_path rule]) prefixes
        | Prefix \<Rightarrow>
            bind_ok (add_prefix prefixes (pa_path rule))
              (\<lambda>prefixes'. compile_includes L rules exact exact_paths prefixes'))"

text \<open>The loop over \<open>config.excludes\<close>.\<close>

fun compile_excludes ::
  "('h, 'u) http_lib \<Rightarrow> path_rule list \<Rightarrow> indexed_rule list \<Rightarrow> admission_error + indexed_rule list" where
  "compile_excludes L [] excludes = Inr excludes"
| "compile_excludes L (rule # rules) excludes =
     bind_ok (validate_path L (pa_path rule))
       (\<lambda>_. case pa_kind rule of
          Exact \<Rightarrow> compile_excludes L rules (excludes @ [indexed (pa_path rule)])
        | Prefix \<Rightarrow>
            bind_ok (add_prefix excludes (pa_path rule))
              (\<lambda>excludes'. compile_excludes L rules excludes'))"

definition compile_policy ::
  "('h, 'u) http_lib \<Rightarrow> 'i router_lib \<Rightarrow> policy_config \<Rightarrow> admission_error + 'i compiled_policy" where
  "compile_policy L R config =
     (if (case pc_case_limit config of None \<Rightarrow> False | Some limit \<Rightarrow> limit > i64_max)
      then Inl (invalid ''case-limit must fit a nonnegative Redis integer'')
      else
        bind_ok (compile_includes L (pc_includes config) [] [] [])
          (\<lambda>(exact, exact_paths, prefixes).
        bind_ok (compile_excludes L (pc_excludes config) [])
          (\<lambda>excludes.
        bind_ok (compile_index R exact) (\<lambda>exact_index.
        bind_ok (compile_index R prefixes) (\<lambda>prefix_index.
        bind_ok (compile_index R excludes) (\<lambda>exclude_index.
          Inr \<lparr>cp_case_limit = pc_case_limit config, cp_includes_all = (pc_includes config = []),
               cp_exact = exact_index, cp_exact_paths = exact_paths,
               cp_prefixes = prefix_index, cp_excludes = exclude_index\<rparr>))))))"

text \<open>
  The counter path of a request, \<open>Some None\<close> when the policy does not select it. The outer
  \<open>None\<close> is the panic of an index out of range in \<open>self.exact_paths[route.id()]\<close>.
\<close>

definition api :: "'i router_lib \<Rightarrow> 'i compiled_policy \<Rightarrow> string \<Rightarrow> string option option" where
  "api R self path =
     (if cp_case_limit self = Some 0 \<or> ri_matches R (cp_excludes self) ''GET'' path then Some None
      else case ri_resolve_raw R (cp_exact self) ''GET'' path of
             Some route \<Rightarrow>
               if route < length (cp_exact_paths self) then Some (Some (cp_exact_paths self ! route))
               else None
           | None \<Rightarrow>
               if cp_includes_all self \<or> ri_matches R (cp_prefixes self) ''GET'' path
               then Some (Some path) else Some None)"

section \<open>What a policy means\<close>

text \<open>
  A literal prefix covers itself and everything below it, segment by segment; a trailing slash
  on it does not matter, and the prefix \<open>/\<close> covers every absolute path.
\<close>

definition prefix_covers :: "string \<Rightarrow> string \<Rightarrow> bool" where
  "prefix_covers p path \<longleftrightarrow>
     (let base = trim_end_char CHR ''/'' p
      in path = base \<and> base \<noteq> [] \<or> starts_with (base @ ''/'') path)"

definition policy_rule_matches ::
  "(string \<Rightarrow> string \<Rightarrow> bool) \<Rightarrow> path_rule \<Rightarrow> string \<Rightarrow> bool" where
  "policy_rule_matches tm rule path \<longleftrightarrow>
     (case pa_kind rule of Exact \<Rightarrow> tm (pa_path rule) path | Prefix \<Rightarrow> prefix_covers (pa_path rule) path)"

definition is_exact :: "path_rule \<Rightarrow> bool" where
  "is_exact rule \<longleftrightarrow> pa_kind rule = Exact"

definition config_api ::
  "(string \<Rightarrow> string \<Rightarrow> bool) \<Rightarrow> policy_config \<Rightarrow> string \<Rightarrow> string option" where
  "config_api tm config path =
     (if pc_case_limit config = Some 0 \<or>
         list_ex (\<lambda>r. policy_rule_matches tm r path) (pc_excludes config) then None
      else case find (\<lambda>r. is_exact r \<and> tm (pa_path r) path) (pc_includes config) of
             Some r \<Rightarrow> Some (pa_path r)
           | None \<Rightarrow>
               if pc_includes config = [] \<or>
                  list_ex (\<lambda>r. policy_rule_matches tm r path) (pc_includes config)
               then Some path else None)"

section \<open>Compilation\<close>

definition prefix_rules :: "path_rule \<Rightarrow> indexed_rule list" where
  "prefix_rules rule =
     (let base = trim_end_char CHR ''/'' (pa_path rule)
      in [indexed (if base = [] then ''/'' else base), indexed (base @ ''/*__breeze_policy_path'')])"

definition literal_prefix :: "string \<Rightarrow> bool" where
  "literal_prefix path \<longleftrightarrow> starts_with ''/'' path \<and> literal_path path"

lemma add_prefix_Inr_iff:
  "add_prefix rules (pa_path rule) = Inr rules' \<longleftrightarrow>
     literal_prefix (pa_path rule) \<and> rules' = rules @ prefix_rules rule"
  by (auto simp: add_prefix_def prefix_rules_def literal_prefix_def literal_path_def list_ex_iff Let_def)

definition exact_rules :: "path_rule list \<Rightarrow> path_rule list" where
  "exact_rules rules = filter is_exact rules"

definition prefix_only :: "path_rule list \<Rightarrow> path_rule list" where
  "prefix_only rules = filter (\<lambda>r. \<not> is_exact r) rules"

lemma compile_includes_Inr:
  "compile_includes L rules exact paths prefixes = Inr (e, ps, pre) \<Longrightarrow>
     e = exact @ map (\<lambda>r. indexed (pa_path r)) (exact_rules rules) \<and>
     ps = paths @ map pa_path (exact_rules rules) \<and>
     pre = prefixes @ concat (map prefix_rules (prefix_only rules)) \<and>
     (\<forall>r \<in> set (prefix_only rules). literal_prefix (pa_path r))"
proof (induction rules arbitrary: exact paths prefixes)
  case (Cons rule rules)
  show ?case
  proof (cases "pa_kind rule")
    case Prefix
    with Cons.prems have lit: "literal_prefix (pa_path rule)"
      and rec: "compile_includes L rules exact paths (prefixes @ prefix_rules rule) = Inr (e, ps, pre)"
      by (auto simp: bind_ok_Inr_iff add_prefix_Inr_iff)
    from Cons.IH [OF rec] lit Prefix show ?thesis
      by (simp add: exact_rules_def prefix_only_def is_exact_def)
  next
    case Exact
    with Cons.prems have rec: "compile_includes L rules (exact @ [indexed (pa_path rule)])
        (paths @ [pa_path rule]) prefixes = Inr (e, ps, pre)"
      by (auto simp: bind_ok_Inr_iff)
    from Cons.IH [OF rec] Exact show ?thesis
      by (simp add: exact_rules_def prefix_only_def is_exact_def)
  qed
qed (simp add: exact_rules_def prefix_only_def)

definition exclude_rules :: "path_rule \<Rightarrow> indexed_rule list" where
  "exclude_rules r = (if is_exact r then [indexed (pa_path r)] else prefix_rules r)"

lemma compile_excludes_Inr:
  "compile_excludes L rules excludes = Inr x \<Longrightarrow>
     x = excludes @ concat (map exclude_rules rules) \<and>
     (\<forall>r \<in> set (prefix_only rules). literal_prefix (pa_path r))"
proof (induction rules arbitrary: excludes)
  case (Cons rule rules)
  show ?case
  proof (cases "pa_kind rule")
    case Prefix
    with Cons.prems have lit: "literal_prefix (pa_path rule)"
      and rec: "compile_excludes L rules (excludes @ prefix_rules rule) = Inr x"
      by (auto simp: bind_ok_Inr_iff add_prefix_Inr_iff)
    from Cons.IH [OF rec] lit Prefix show ?thesis
      by (simp add: exclude_rules_def prefix_only_def is_exact_def)
  next
    case Exact
    with Cons.prems have rec: "compile_excludes L rules (excludes @ [indexed (pa_path rule)]) = Inr x"
      by (auto simp: bind_ok_Inr_iff)
    from Cons.IH [OF rec] Exact show ?thesis
      by (simp add: exclude_rules_def prefix_only_def is_exact_def)
  qed
qed (simp add: prefix_only_def)

lemma indexed_priority [simp]: "ir_priority (indexed p) = 0"
  by (simp add: indexed_def)

lemma prefix_rules_priority: "r \<in> set (prefix_rules rule) \<Longrightarrow> ir_priority r = 0"
  by (auto simp: prefix_rules_def Let_def)

lemma exclude_rules_priority: "r \<in> set (exclude_rules rule) \<Longrightarrow> ir_priority r = 0"
  by (auto simp: exclude_rules_def dest: prefix_rules_priority split: if_splits)

lemma compile_policy_InrE:
  assumes "compile_policy L R config = Inr p"
  obtains "cp_case_limit p = pc_case_limit config"
    and "\<And>limit. cp_case_limit p = Some limit \<Longrightarrow> limit \<le> i64_max"
    and "cp_includes_all p \<longleftrightarrow> pc_includes config = []"
    and "cp_exact_paths p = map pa_path (exact_rules (pc_includes config))"
    and "ri_compile R (map (\<lambda>r. indexed (pa_path r)) (exact_rules (pc_includes config))) = Inr (cp_exact p)"
    and "ri_compile R (concat (map prefix_rules (prefix_only (pc_includes config)))) = Inr (cp_prefixes p)"
    and "ri_compile R (concat (map exclude_rules (pc_excludes config))) = Inr (cp_excludes p)"
    and "\<forall>r \<in> set (prefix_only (pc_includes config)). literal_prefix (pa_path r)"
    and "\<forall>r \<in> set (prefix_only (pc_excludes config)). literal_prefix (pa_path r)"
proof -
  have "\<not> (case pc_case_limit config of None \<Rightarrow> False | Some limit \<Rightarrow> limit > i64_max)"
    using assms by (auto simp: compile_policy_def)
  then have lim: "\<And>limit. pc_case_limit config = Some limit \<Longrightarrow> limit \<le> i64_max" by auto
  from assms obtain e ps pre x where "compile_includes L (pc_includes config) [] [] [] = Inr (e, ps, pre)"
    and "compile_excludes L (pc_excludes config) [] = Inr x"
    and rest: "ri_compile R e = Inr (cp_exact p)" "ri_compile R pre = Inr (cp_prefixes p)"
      "ri_compile R x = Inr (cp_excludes p)" "cp_exact_paths p = ps"
      "cp_case_limit p = pc_case_limit config" "cp_includes_all p = (pc_includes config = [])"
    by (auto simp: compile_policy_def compile_index_def bind_ok_Inr_iff split: if_splits)
  with compile_includes_Inr [of L "pc_includes config" "[]" "[]" "[]" e ps pre]
    compile_excludes_Inr [of L "pc_excludes config" "[]" x] that lim
  show thesis by simp
qed

context router_crate
begin

lemma indexed_selects_indexed: "indexed_selects tm m path (indexed p) \<longleftrightarrow> tm p path"
  by (simp add: indexed_selects_def indexed_def rule_selects_def)

lemma literal_trim: "literal_path p \<Longrightarrow> literal_path (trim_end_char CHR ''/'' p)"
  using trim_end_char_segments [of "CHR ''/''" p] by (auto simp: literal_path_def)

lemma prefix_rules_select:
  assumes "literal_prefix (pa_path rule)" and "starts_with ''/'' path"
  shows "(\<exists>r \<in> set (prefix_rules rule). indexed_selects tm m path r) \<longleftrightarrow>
    prefix_covers (pa_path rule) path"
proof -
  let ?base = "trim_end_char CHR ''/'' (pa_path rule)"
  from assms have lit: "literal_path ?base" by (simp add: literal_prefix_def literal_trim)
  have rest: "tm (?base @ ''/*__breeze_policy_path'') path \<longleftrightarrow> starts_with (?base @ ''/'') path"
    using template_rest [OF lit, of "''__breeze_policy_path''" path] by simp
  have root: "tm ''/'' path \<longleftrightarrow> path = ''/''"
    by (rule template_literal) (simp add: literal_path_def)
  show ?thesis
    using template_literal [OF lit, of path] rest root assms(2)
    by (auto simp: prefix_rules_def Let_def indexed_selects_indexed prefix_covers_def)
qed

lemma exclude_rules_select:
  assumes "is_exact rule \<or> literal_prefix (pa_path rule)" and "starts_with ''/'' path"
  shows "(\<exists>r \<in> set (exclude_rules rule). indexed_selects tm m path r) \<longleftrightarrow>
    policy_rule_matches tm rule path"
proof (cases "pa_kind rule")
  case Exact
  then show ?thesis
    by (simp add: exclude_rules_def is_exact_def policy_rule_matches_def indexed_selects_indexed)
next
  case Prefix
  with assms have "literal_prefix (pa_path rule)" by (simp add: is_exact_def)
  from prefix_rules_select [OF this assms(2)] Prefix show ?thesis
    by (simp add: exclude_rules_def is_exact_def policy_rule_matches_def)
qed

lemma find_exact:
  "find (\<lambda>r. is_exact r \<and> P r) rules = map_option ((!) (exact_rules rules)) (first_index P (exact_rules rules))"
  by (induction rules) (auto simp: exact_rules_def option.map_comp comp_def)

lemma api_total:
  assumes "compile_policy L R config = Inr p"
  shows "api R p path \<noteq> None"
proof (rule compile_policy_InrE [OF assms])
  assume paths: "cp_exact_paths p = map pa_path (exact_rules (pc_includes config))"
    and exact: "ri_compile R (map (\<lambda>r. indexed (pa_path r)) (exact_rules (pc_includes config))) = Inr (cp_exact p)"
  have "route < length (cp_exact_paths p)" if "ri_resolve_raw R (cp_exact p) ''GET'' path = Some route" for route
  proof -
    have "first_index (\<lambda>r. tm (pa_path r) path) (exact_rules (pc_includes config)) = Some route"
      using that resolve_compile [OF exact] by (simp add: first_index_map indexed_selects_indexed)
    then show ?thesis using paths by (simp add: first_index_Some_iff)
  qed
  then show ?thesis by (auto simp: api_def split: option.split)
qed

lemma api_refines:
  assumes comp: "compile_policy L R config = Inr p" and path: "starts_with ''/'' path"
  shows "api R p path = Some (config_api tm config path)"
proof (rule compile_policy_InrE [OF comp])
  assume lim: "cp_case_limit p = pc_case_limit config"
    and all: "cp_includes_all p \<longleftrightarrow> pc_includes config = []"
    and paths: "cp_exact_paths p = map pa_path (exact_rules (pc_includes config))"
    and exact: "ri_compile R (map (\<lambda>r. indexed (pa_path r)) (exact_rules (pc_includes config))) = Inr (cp_exact p)"
    and pre: "ri_compile R (concat (map prefix_rules (prefix_only (pc_includes config)))) = Inr (cp_prefixes p)"
    and ex: "ri_compile R (concat (map exclude_rules (pc_excludes config))) = Inr (cp_excludes p)"
    and lit_in: "\<forall>r \<in> set (prefix_only (pc_includes config)). literal_prefix (pa_path r)"
    and lit_ex: "\<forall>r \<in> set (prefix_only (pc_excludes config)). literal_prefix (pa_path r)"
  have excluded: "ri_matches R (cp_excludes p) ''GET'' path \<longleftrightarrow>
      list_ex (\<lambda>r. policy_rule_matches tm r path) (pc_excludes config)"
  proof -
    have "\<forall>r \<in> set (concat (map exclude_rules (pc_excludes config))). ir_priority r = 0"
      using exclude_rules_priority by auto
    moreover have "\<forall>r \<in> set (pc_excludes config). is_exact r \<or> literal_prefix (pa_path r)"
      using lit_ex by (auto simp: prefix_only_def)
    ultimately show ?thesis
      using exclude_rules_select [OF _ path] by (simp add: matches_compile [OF ex] list_ex_iff)
  qed
  have prefixed: "ri_matches R (cp_prefixes p) ''GET'' path \<longleftrightarrow>
      (\<exists>r \<in> set (prefix_only (pc_includes config)). prefix_covers (pa_path r) path)"
  proof -
    have "\<forall>r \<in> set (concat (map prefix_rules (prefix_only (pc_includes config)))). ir_priority r = 0"
      using prefix_rules_priority by auto
    then show ?thesis
      using lit_in prefix_rules_select [OF _ path]
      by (simp add: matches_compile [OF pre])
  qed
  have resolved: "ri_resolve_raw R (cp_exact p) ''GET'' path =
      first_index (\<lambda>r. tm (pa_path r) path) (exact_rules (pc_includes config))"
    using resolve_compile [OF exact] by (simp add: first_index_map indexed_selects_indexed)
  have any: "list_ex (\<lambda>r. policy_rule_matches tm r path) (pc_includes config) \<longleftrightarrow>
      (\<exists>r \<in> set (prefix_only (pc_includes config)). prefix_covers (pa_path r) path)"
    if "first_index (\<lambda>r. tm (pa_path r) path) (exact_rules (pc_includes config)) = None"
    using that
    by (auto simp: list_ex_iff policy_rule_matches_def prefix_only_def exact_rules_def is_exact_def
        first_index_None_iff split: match_kind.splits) (metis match_kind.exhaust)+
  show ?thesis
  proof (cases "first_index (\<lambda>r. tm (pa_path r) path) (exact_rules (pc_includes config))")
    case None
    then show ?thesis
      unfolding api_def config_api_def lim all excluded prefixed resolved paths find_exact any [OF None]
      by simp
  next
    case (Some i)
    then have "i < length (exact_rules (pc_includes config))" by (simp add: first_index_Some_iff)
    with Some show ?thesis
      unfolding api_def config_api_def lim all excluded prefixed resolved paths find_exact by simp
  qed
qed

end

section \<open>Properties\<close>

text \<open>
  C23: the compiled policy means what the JSON says. For every absolute request path the lookup
  over the three compiled indexes gives the counter path of the configuration itself: nothing
  when the case limit is zero or an exclusion matches; otherwise the pattern of the first
  matching exact include, even under a broader prefix; otherwise the path itself when includes
  are empty or a whole-segment prefix covers it. The lookup never indexes out of range, and an
  accepted case limit fits a signed 64-bit Redis integer.
\<close>

theorem policy_api_correct:
  assumes "router_crate R tm" and "compile_policy L R config = Inr p" and "starts_with ''/'' path"
  shows "api R p path = Some (config_api tm config path) \<and>
    cp_case_limit p = pc_case_limit config \<and>
    (case pc_case_limit config of None \<Rightarrow> True | Some limit \<Rightarrow> limit \<le> i64_max)"
proof (rule compile_policy_InrE [OF assms(2)], intro conjI)
  show "api R p path = Some (config_api tm config path)"
    by (rule router_crate.api_refines [OF assms])
  assume "cp_case_limit p = pc_case_limit config"
    and "\<And>limit. cp_case_limit p = Some limit \<Longrightarrow> limit \<le> i64_max"
  then show "cp_case_limit p = pc_case_limit config"
    and "case pc_case_limit config of None \<Rightarrow> True | Some limit \<Rightarrow> limit \<le> i64_max"
    by (auto split: option.split)
qed

definition sample_policy :: policy_config where
  "sample_policy =
     \<lparr>pc_case_limit = Some 200,
      pc_includes = [\<lparr>pa_path = ''/api/'', pa_kind = Prefix\<rparr>,
                     \<lparr>pa_path = ''/api/:id/xxx'', pa_kind = Exact\<rparr>],
      pc_excludes = [\<lparr>pa_path = ''/api/socket.io'', pa_kind = Prefix\<rparr>]\<rparr>"

theorem policy_api_correct_witness:
  "\<exists>p. compile_policy assoc_lib segment_router sample_policy = Inr p \<and>
     api segment_router p ''/api'' = Some (Some ''/api'') \<and>
     api segment_router p ''/apix'' = Some None \<and>
     api segment_router p ''/api/123/xxx'' = Some (Some ''/api/:id/xxx'') \<and>
     api segment_router p ''/api/socket.io/1'' = Some None"
proof -
  have "is_ok (compile_policy assoc_lib segment_router sample_policy) \<longleftrightarrow>
      is_ok (compile_policy assoc_lib segment_router (sample_policy\<lparr>pc_case_limit := None\<rparr>))"
    by (simp add: compile_policy_def sample_policy_def bind_ok_def split: sum.splits)
  moreover have "is_ok (compile_policy assoc_lib segment_router (sample_policy\<lparr>pc_case_limit := None\<rparr>))"
    by code_simp
  ultimately have "is_ok (compile_policy assoc_lib segment_router sample_policy)" by simp
  then obtain p where p: "compile_policy assoc_lib segment_router sample_policy = Inr p"
    by (auto simp: is_ok_iff)
  note correct = policy_api_correct [OF segment_routes.router_crate_axioms p]
  have "config_api template_match sample_policy ''/api'' = Some ''/api''"
    and "config_api template_match sample_policy ''/apix'' = None"
    and "config_api template_match sample_policy ''/api/123/xxx'' = Some ''/api/:id/xxx''"
    and "config_api template_match sample_policy ''/api/socket.io/1'' = None"
    by code_simp+
  with p correct [of "''/api''"] correct [of "''/apix''"] correct [of "''/api/123/xxx''"]
    correct [of "''/api/socket.io/1''"]
  show ?thesis by simp
qed

end
