(* ===== verification/Redis_Client.thy ===== *)
theory Redis_Client
  imports Discovery Policy
begin

text \<open>
  The Redis side of a provider: the replies and requests of the \<open>brz-redis\<close> client that
  \<open>src/redis_admission.rs\<close> and its submodules use, the state that the clones of a provider
  and its background task share, the Lua scripts translated over \<open>redis.call\<close>, and the
  helpers \<open>reserve\<close> and \<open>transition\<close>.

  The client is a field of the record \<open>runtime\<close>. It maps the shared state to the state after
  the await, so that everything other tasks and other processes do meanwhile is part of it; the
  only thing it cannot touch is the ghost log of the requests this task sent. \<open>rt_lock\<close> waits for
  the mutex that serializes policy loads and \<open>rt_sleep\<close> for the next background cycle.
  The locales at
  the end state what is known about a Redis server and about a connection to it.
\<close>

section \<open>Requests, replies and state\<close>

datatype redis_value =
    NilReply
  | Okay
  | SimpleString string
  | BulkString string
  | IntReply int
  | OtherReply

datatype lua_script = COMPLETE | RENEW

datatype redis_request =
    Command "string list"
  | Eval lua_script "string list" "string list"

record 'i snapshot =
  sn_raw :: "string option"
  sn_policy :: "'i compiled_policy option"

text \<open>
  \<open>sh_now\<close> is the monotonic clock; it advances while a task awaits. \<open>sh_valid_until\<close> is the
  participation state behind the mutex of \<open>GatewayLease\<close> and \<open>sh_owned_slot\<close> the local
  variable \<open>owned_slot\<close> of its background task, which outlives a cancelled refresh.
\<close>

record ('w, 'i) shared =
  sh_now :: instant
  sh_discovery :: discovery_state
  sh_snapshot :: "'i snapshot"
  sh_valid_until :: "instant option"
  sh_owned_slot :: "nat option"
  sh_world :: 'w

record ('w, 'i) task =
  tk_shared :: "('w, 'i) shared"
  tk_log :: "redis_request list"

text \<open>
  The random factors by which the background task stretches its refresh interval: the first
  delay, and the sleeps of an eligible gateway and of a standby. \<open>rt_jitter\<close> draws the factor and
  multiplies, both in floating point.
\<close>

datatype jitter = Startup | Renewing | Waiting

record ('w, 'i) runtime =
  rt_redis :: "redis_request \<Rightarrow> (('w, 'i) shared, string + redis_value) fut"
  rt_random_u128 :: "'w \<Rightarrow> 128 word \<times> 'w"
  rt_random_usize :: "'w \<Rightarrow> 64 word \<times> 'w"
  rt_lock :: "(('w, 'i) shared, unit) fut"
  rt_jitter :: "jitter \<Rightarrow> duration \<Rightarrow> 'w \<Rightarrow> duration \<times> 'w"
  rt_sleep :: "duration \<Rightarrow> (('w, 'i) shared, unit) fut"

definition lift_shared :: "(('w, 'i) shared, 'a) fut \<Rightarrow> (('w, 'i) task, 'a) fut" where
  "lift_shared c t = (case c (tk_shared t) of (r, s) \<Rightarrow> (r, t\<lparr>tk_shared := s\<rparr>))"

definition redis_call ::
  "('w, 'i) runtime \<Rightarrow> redis_request \<Rightarrow> (('w, 'i) task, admission_error + redis_value) fut" where
  "redis_call RT req t =
     (case rt_redis RT req (tk_shared t) of
        (r, s) \<Rightarrow>
          (map_async (map_err Backend) r, t\<lparr>tk_shared := s, tk_log := tk_log t @ [req]\<rparr>))"

definition command ::
  "('w, 'i) runtime \<Rightarrow> string list \<Rightarrow> (('w, 'i) task, admission_error + redis_value) fut" where
  "command RT args = redis_call RT (Command args)"

definition random_u128 :: "('w, 'i) runtime \<Rightarrow> (('w, 'i) task, 128 word) fut" where
  "random_u128 RT t =
     (case rt_random_u128 RT (sh_world (tk_shared t)) of
        (r, w) \<Rightarrow> (Ready r, t\<lparr>tk_shared := (tk_shared t)\<lparr>sh_world := w\<rparr>\<rparr>))"

definition random_usize :: "('w, 'i) runtime \<Rightarrow> (('w, 'i) task, nat) fut" where
  "random_usize RT t =
     (case rt_random_usize RT (sh_world (tk_shared t)) of
        (r, w) \<Rightarrow> (Ready (unat r), t\<lparr>tk_shared := (tk_shared t)\<lparr>sh_world := w\<rparr>\<rparr>))"

definition jittered :: "('w, 'i) runtime \<Rightarrow> jitter \<Rightarrow> duration \<Rightarrow> (('w, 'i) task, duration) fut" where
  "jittered RT band interval t =
     (case rt_jitter RT band interval (sh_world (tk_shared t)) of
        (d, w) \<Rightarrow> (Ready d, t\<lparr>tk_shared := (tk_shared t)\<lparr>sh_world := w\<rparr>\<rparr>))"

definition instant_now :: "(('w, 'i) task, instant) fut" where
  "instant_now t = (Ready (sh_now (tk_shared t)), t)"

definition modify :: "(('w, 'i) shared \<Rightarrow> ('w, 'i) shared) \<Rightarrow> (('w, 'i) task, unit) fut" where
  "modify f t = (Ready (), t\<lparr>tk_shared := f (tk_shared t)\<rparr>)"

section \<open>Reservations and token-checked transitions\<close>

definition reserve_reply :: "redis_value \<Rightarrow> admission_error + bool" where
  "reserve_reply v =
     (case v of
        Okay \<Rightarrow> Inr True
      | SimpleString value \<Rightarrow>
          if value = ''OK'' then Inr True
          else Inl (Backend ''unexpected Redis admission acquisition response'')
      | NilReply \<Rightarrow> Inr False
      | _ \<Rightarrow> Inl (Backend ''unexpected Redis admission acquisition response''))"

definition reserve_args :: "string \<Rightarrow> string \<Rightarrow> nat \<Rightarrow> string list" where
  "reserve_args key token ttl_ms = [''SET'', key, token, ''NX'', ''PX'', show_nat ttl_ms]"

definition reserve ::
  "('w, 'i) runtime \<Rightarrow> string \<Rightarrow> string \<Rightarrow> nat \<Rightarrow> (('w, 'i) task, admission_error + bool) fut" where
  "reserve RT key token ttl_ms =
     await_ok (command RT (reserve_args key token ttl_ms)) (\<lambda>v. ret (reserve_reply v))"

definition transition_reply :: "string \<Rightarrow> redis_value \<Rightarrow> admission_error + bool" where
  "transition_reply message v =
     (case v of
        IntReply n \<Rightarrow> if n = 0 then Inr False else if n = 1 then Inr True else Inl (Backend message)
      | _ \<Rightarrow> Inl (Backend message))"

definition eval_transition ::
  "string \<Rightarrow> ('w, 'i) runtime \<Rightarrow> lua_script \<Rightarrow> string \<Rightarrow> string list \<Rightarrow>
     (('w, 'i) task, admission_error + bool) fut" where
  "eval_transition message RT script key args =
     await_ok (redis_call RT (Eval script [key] args)) (\<lambda>v. ret (transition_reply message v))"

text \<open>
  A count or a limit: an absent key is zero, a nonempty string of digits is parsed, anything
  else is an error.
\<close>

definition decimal_reply :: "admission_error \<Rightarrow> redis_value \<Rightarrow> admission_error + nat" where
  "decimal_reply err v =
     (case v of
        NilReply \<Rightarrow> Inr 0
      | BulkString bytes \<Rightarrow>
          if bytes \<noteq> [] \<and> list_all is_ascii_digit bytes
          then (case parse_u64 bytes of Some n \<Rightarrow> Inr n | None \<Rightarrow> Inl err)
          else Inl err
      | _ \<Rightarrow> Inl err)"

section \<open>The scripts\<close>

type_synonym 'db redis_exec = "instant \<Rightarrow> string list \<Rightarrow> 'db \<Rightarrow> (string + redis_value) \<times> 'db"

text \<open>
  \<open>redis.call('GET', KEYS[1]) == ARGV[1]\<close> holds for a string reply with the same bytes; an
  absent key is \<open>false\<close> in Lua and equals no string. An error of \<open>redis.call\<close> aborts the
  script.
\<close>

definition if_owner ::
  "'db redis_exec \<Rightarrow> instant \<Rightarrow> string \<Rightarrow> string \<Rightarrow> ('db \<Rightarrow> (string + redis_value) \<times> 'db) \<Rightarrow>
     'db \<Rightarrow> (string + redis_value) \<times> 'db" where
  "if_owner exec now key token body db =
     (case exec now [''GET'', key] db of
        (Inl e, db1) \<Rightarrow> (Inl e, db1)
      | (Inr v, db1) \<Rightarrow> if v = BulkString token then body db1 else (Inr (IntReply 0), db1))"

fun run_script ::
  "'db redis_exec \<Rightarrow> instant \<Rightarrow> lua_script \<Rightarrow> string list \<Rightarrow> string list \<Rightarrow> 'db \<Rightarrow>
     (string + redis_value) \<times> 'db" where
  "run_script exec now COMPLETE (key # _) (token # _) db =
     if_owner exec now key token (exec now [''DEL'', key]) db"
| "run_script exec now RENEW (key # _) (token # ttl # _) db =
     if_owner exec now key token (exec now [''PEXPIRE'', key, ttl]) db"
| "run_script exec now _ _ _ db = (Inl ''missing script argument'', db)"

fun run_request ::
  "'db redis_exec \<Rightarrow> instant \<Rightarrow> redis_request \<Rightarrow> 'db \<Rightarrow> (string + redis_value) \<times> 'db" where
  "run_request exec now (Command args) db = exec now args db"
| "run_request exec now (Eval script keys args) db = run_script exec now script keys args db"

section \<open>Lemmas on runs\<close>

lemma reserve_reply_True: "reserve_reply v = Inr True \<longleftrightarrow> v = Okay \<or> v = SimpleString ''OK''"
  by (auto simp: reserve_reply_def split: redis_value.splits)

lemma reserve_reply_False: "reserve_reply v = Inr False \<longleftrightarrow> v = NilReply"
  by (auto simp: reserve_reply_def split: redis_value.splits)

lemma transition_reply_Inr:
  "transition_reply m v = Inr b \<longleftrightarrow> v = IntReply (if b then 1 else 0)"
  by (auto simp: transition_reply_def split: redis_value.splits)

lemma decimal_reply_show: "n \<le> u64_max \<Longrightarrow> decimal_reply err (BulkString (show_nat n)) = Inr n"
  by (simp add: decimal_reply_def show_nat_digits parse_show_nat)

lemma parse_u64_bound: "parse_u64 s = Some n \<Longrightarrow> n \<le> u64_max"
  by (auto simp: parse_u64_def Let_def split: option.splits if_splits list.splits)

lemma decimal_reply_bound: "decimal_reply err v = Inr n \<Longrightarrow> n \<le> u64_max"
  by (auto simp: decimal_reply_def parse_u64_bound split: redis_value.splits if_splits option.splits)

lemma tk_shared_lift [simp]: "tk_shared (snd (lift_shared c t)) = snd (c (tk_shared t))"
  by (simp add: lift_shared_def split: prod.splits)

lemma redis_call_log:
  "tk_log (snd (redis_call RT req t)) = tk_log t @ [req]"
  by (simp add: redis_call_def split: prod.splits)

lemma redis_call_shared:
  "redis_call RT req t = (out, t') \<Longrightarrow>
     \<exists>r. rt_redis RT req (tk_shared t) = (r, tk_shared t') \<and> out = map_async (map_err Backend) r"
  by (auto simp: redis_call_def split: prod.splits)

lemma command_shared:
  "command RT args t = (out, t') \<Longrightarrow>
     \<exists>r. rt_redis RT (Command args) (tk_shared t) = (r, tk_shared t') \<and> out = map_async (map_err Backend) r"
  unfolding command_def by (rule redis_call_shared)

lemma await_call_shared:
  assumes "await_ok (redis_call RT req) (\<lambda>v. ret (f v)) t = (out, t')"
  shows "\<exists>r. rt_redis RT req (tk_shared t) = (r, tk_shared t') \<and>
    (\<forall>x. out = Ready (Inr x) \<longrightarrow> (\<exists>v. r = Ready (Inr v) \<and> f v = Inr x))"
proof -
  obtain r s where r: "rt_redis RT req (tk_shared t) = (r, s)" by fastforce
  with assms have "tk_shared t' = s"
    by (cases r) (auto simp: await_ok_def await_def redis_call_def split: sum.splits)
  moreover have "\<exists>v. r = Ready (Inr v) \<and> f v = Inr x" if "out = Ready (Inr x)" for x
    using assms r that
    by (cases r) (auto simp: await_ok_def await_def redis_call_def map_err_def split: sum.splits)
  ultimately show ?thesis using r by blast
qed

lemma await_call_log:
  "tk_log (snd (await_ok (redis_call RT req) (\<lambda>v. ret (f v)) t)) = tk_log t @ [req]"
  by (auto simp: await_ok_def await_def redis_call_def split: prod.splits async.split sum.split)

lemmas reserve_shared = await_call_shared [of RT "Command (reserve_args key token ttl_ms)" reserve_reply t out t',
    folded reserve_def [of RT key token ttl_ms, unfolded command_def]] for RT key token ttl_ms t out t'

lemmas eval_transition_shared = await_call_shared [of RT "Eval script [key] args" "transition_reply m" t out t',
    folded eval_transition_def] for RT script key args m t out t'

lemmas reserve_log = await_call_log [of RT "Command (reserve_args key token ttl_ms)" reserve_reply t,
    folded reserve_def [of RT key token ttl_ms, unfolded command_def]] for RT key token ttl_ms t

lemmas eval_transition_log = await_call_log [of RT "Eval script [key] args" "transition_reply m" t,
    folded eval_transition_def] for RT script key args m t

text \<open>Which requests a computation may send.\<close>

definition sends :: "(redis_request \<Rightarrow> bool) \<Rightarrow> (('w, 'i) task, 'a) fut \<Rightarrow> bool" where
  "sends P c \<longleftrightarrow> (\<forall>t. \<exists>sent. tk_log (snd (c t)) = tk_log t @ sent \<and> (\<forall>req \<in> set sent. P req))"

named_theorems sends_intros

lemma sends_quietI: "(\<And>t. tk_log (snd (c t)) = tk_log t) \<Longrightarrow> sends P c"
  by (simp add: sends_def)

lemma sends_ret [sends_intros]: "sends P (ret x)"
  by (rule sends_quietI) simp

lemma sends_modify [sends_intros]: "sends P (modify f)"
  by (rule sends_quietI) (simp add: modify_def)

lemma sends_now [sends_intros]: "sends P instant_now"
  by (rule sends_quietI) (simp add: instant_now_def)

lemma sends_lift [sends_intros]: "sends P (lift_shared c)"
  by (rule sends_quietI) (simp add: lift_shared_def split: prod.splits)

lemma sends_random [sends_intros]: "sends P (random_usize RT)" "sends P (random_u128 RT)" "sends P (jittered RT band interval)"
  by (rule sends_quietI, simp add: random_usize_def random_u128_def jittered_def split: prod.splits)+

lemma sends_call [sends_intros]: "P req \<Longrightarrow> sends P (redis_call RT req)"
  by (auto simp: sends_def redis_call_log)

lemma sends_await [sends_intros]:
  assumes "sends P c" and "\<And>x. sends P (k x)"
  shows "sends P (await c k)"
  unfolding sends_def
proof
  fix t
  obtain r t1 where c: "c t = (r, t1)" by fastforce
  with assms(1) obtain s1 where s1: "tk_log t1 = tk_log t @ s1" "\<forall>req \<in> set s1. P req"
    unfolding sends_def by (metis snd_conv)
  show "\<exists>sent. tk_log (snd (await c k t)) = tk_log t @ sent \<and> (\<forall>req \<in> set sent. P req)"
  proof (cases r)
    case (Ready x)
    with assms(2) [of x] obtain s2 where "tk_log (snd (k x t1)) = tk_log t1 @ s2" "\<forall>req \<in> set s2. P req"
      unfolding sends_def by blast
    with s1 c Ready show ?thesis by (intro exI [of _ "s1 @ s2"]) (auto simp: await_def)
  qed (use s1 c in \<open>auto simp: await_def\<close>)
qed

lemma sends_await_ok [sends_intros]:
  assumes "sends P c" and "\<And>x. sends P (k x)"
  shows "sends P (await_ok c k)"
  unfolding await_ok_def
  by (rule sends_await [OF assms(1)]) (use assms(2) in \<open>auto intro: sends_ret split: sum.split\<close>)

lemma sends_timeout [sends_intros]: "sends P c \<Longrightarrow> sends P (tokio_timeout budget c)"
  by (simp add: sends_def)

lemma sends_reserve [sends_intros]:
  "P (Command (reserve_args key token ms)) \<Longrightarrow> sends P (reserve RT key token ms)"
  unfolding reserve_def command_def by (intro sends_intros)

lemma sends_transition [sends_intros]:
  "P (Eval script [key] args) \<Longrightarrow> sends P (eval_transition m RT script key args)"
  unfolding eval_transition_def by (intro sends_intros)

end
