(* ===== verification/Redis_Server.thy ===== *)
theory Redis_Server
  imports Redis_Client
begin

text \<open>
  What is known about Redis. The locale \<open>redis_server\<close> states the documented effect of the
  commands on string keys with a deadline; it is the basis of the token-lease lemmas shared by
  request reservations, recorder registrations and gateway slots. The locale \<open>redis_link\<close>
  adds a connection: a request is executed at one moment between the start and the end of the
  await, or not at all, and its reply may be lost. \<open>simple_exec\<close> is an executable server and
  \<open>simple_runtime\<close> a connection to it; they show that the laws can hold together.
\<close>

section \<open>String keys with deadlines\<close>

type_synonym 'db live_view = "instant \<Rightarrow> 'db \<Rightarrow> string \<Rightarrow> (string \<times> instant option) option"

definition holds_until :: "(string \<times> instant option) option \<Rightarrow> string \<Rightarrow> instant \<Rightarrow> bool" where
  "holds_until entry token d \<longleftrightarrow>
     (case entry of
        None \<Rightarrow> False
      | Some (v, deadline) \<Rightarrow> v = token \<and> (case deadline of None \<Rightarrow> True | Some e \<Rightarrow> d \<le> e))"

locale redis_server =
  fixes exec :: "'db redis_exec"
    and live :: "'db live_view"
  assumes live_deadline: "live now db k = Some (v, Some e) \<Longrightarrow> now < e"
    and live_later: "now \<le> now' \<Longrightarrow>
      live now' db k =
        (case live now db k of
           Some (v, Some e) \<Rightarrow> if now' < e then Some (v, Some e) else None
         | entry \<Rightarrow> entry)"
    and get_reply:
      "case live now db k of
         Some (v, _) \<Rightarrow> fst (exec now [''GET'', k] db) = Inr (BulkString v)
       | None \<Rightarrow> \<not> (\<exists>v. fst (exec now [''GET'', k] db) = Inr (BulkString v))"
    and get_keeps: "live now (snd (exec now [''GET'', k] db)) = live now db"
    and hash_keeps:
      "live now (snd (exec now [''HGET'', k, f] db)) = live now db"
      "live now (snd (exec now [''HINCRBY'', k, f, n] db)) = live now db"
    and set_nx:
      "fst (exec now (reserve_args k v ms) db) \<in> {Inr Okay, Inr (SimpleString ''OK'')} \<and>
         live now db k = None \<and>
         live now (snd (exec now (reserve_args k v ms) db)) =
           (live now db)(k \<mapsto> (v, Some (now + from_millis ms))) \<or>
       fst (exec now (reserve_args k v ms) db) \<notin> {Inr Okay, Inr (SimpleString ''OK'')} \<and>
         live now (snd (exec now (reserve_args k v ms) db)) = live now db"
    and set_nx_held:
      "live now db k \<noteq> None \<Longrightarrow> 0 < ms \<Longrightarrow> ms \<le> i64_max \<Longrightarrow>
         fst (exec now (reserve_args k v ms) db) = Inr NilReply"
    and del_live:
      "live now db k \<noteq> None \<Longrightarrow>
         fst (exec now [''DEL'', k] db) = Inr (IntReply 1) \<and>
         live now (snd (exec now [''DEL'', k] db)) = (live now db)(k := None)"
    and pexpire_live:
      "live now db k = Some (v, d) \<Longrightarrow> 0 < ms \<Longrightarrow> ms \<le> i64_max \<Longrightarrow>
         fst (exec now [''PEXPIRE'', k, show_nat ms] db) = Inr (IntReply 1) \<and>
         live now (snd (exec now [''PEXPIRE'', k, show_nat ms] db)) =
           (live now db)(k \<mapsto> (v, Some (now + from_millis ms)))"
begin

lemma if_owner_cases:
  "if_owner exec now k token body db =
     (if \<exists>d. live now db k = Some (token, d) then body (snd (exec now [''GET'', k] db))
      else (case fst (exec now [''GET'', k] db) of Inl e \<Rightarrow> Inl e | Inr _ \<Rightarrow> Inr (IntReply 0),
            snd (exec now [''GET'', k] db)))"
  using get_reply [where now = now and db = db and k = k]
  by (auto simp: if_owner_def split: prod.splits sum.splits option.splits)

lemma complete_owner:
  assumes "live now db k = Some (token, d)"
  shows "fst (run_script exec now COMPLETE [k] (token # args) db) = Inr (IntReply 1)"
    and "live now (snd (run_script exec now COMPLETE [k] (token # args) db)) = (live now db)(k := None)"
  using assms del_live [of now "snd (exec now [''GET'', k] db)" k]
  by (simp_all add: if_owner_cases get_keeps)

lemma renew_owner:
  assumes "live now db k = Some (token, d)" and "0 < ms" and "ms \<le> i64_max"
  shows "fst (run_script exec now RENEW [k] (token # show_nat ms # args) db) = Inr (IntReply 1)"
    and "live now (snd (run_script exec now RENEW [k] (token # show_nat ms # args) db)) =
      (live now db)(k \<mapsto> (token, Some (now + from_millis ms)))"
  using assms pexpire_live [of now "snd (exec now [''GET'', k] db)" k token d ms]
  by (simp_all add: if_owner_cases get_keeps)

text \<open>
  A script whose token does not own the key leaves every key alone and never reports success.
\<close>

lemma script_not_owner:
  assumes "\<And>d. live now db k \<noteq> Some (token, d)"
  shows "fst (run_script exec now script [k] (token # args) db) \<noteq> Inr (IntReply 1)"
    and "live now (snd (run_script exec now script [k] (token # args) db)) = live now db"
proof -
  have "fst (if_owner exec now k token body db) \<noteq> Inr (IntReply 1) \<and>
      live now (snd (if_owner exec now k token body db)) = live now db" for body
    using assms by (auto simp: if_owner_cases get_keeps split: sum.split)
  then show "fst (run_script exec now script [k] (token # args) db) \<noteq> Inr (IntReply 1)"
    and "live now (snd (run_script exec now script [k] (token # args) db)) = live now db"
    by (cases script; cases args; simp)+
qed

lemma holds_until_later:
  assumes "holds_until (live now db k) token d" and "now \<le> now'" and "now' < d"
  shows "holds_until (live now' db k) token d"
  using assms by (auto simp: holds_until_def live_later [OF assms(2)] split: option.splits)

end

section \<open>A connection\<close>

locale redis_link = redis_server exec live
  for exec :: "'db redis_exec" and live :: "'db live_view" +
  fixes RT :: "('w, 'i) runtime"
    and db :: "'w \<Rightarrow> 'db"
    and set_db :: "'db \<Rightarrow> 'w \<Rightarrow> 'w"
    and rely :: "('w, 'i) shared \<Rightarrow> ('w, 'i) shared \<Rightarrow> bool"
  assumes db_set_db: "db (set_db d w) = d"
    and sleep_rely: "rely s (snd (rt_sleep RT delay s))"
    and lock_rely: "rely s (snd (rt_lock RT s))"
    and rely_refl: "rely s s"
    and random_usize_db: "db (snd (rt_random_usize RT w)) = db w"
    and random_u128_db: "db (snd (rt_random_u128 RT w)) = db w"
    and jitter_db: "db (snd (rt_jitter RT band interval w)) = db w"
    and served:
      "rt_redis RT req s = (out, s') \<Longrightarrow>
         \<exists>s1 s2. rely s s1 \<and> rely s2 s' \<and>
           (s2 = s1 \<and> (out = Cancelled \<or> (\<exists>e. out = Ready (Inl e))) \<or>
            s2 = s1\<lparr>sh_world :=
                     set_db (snd (run_request exec (sh_now s1) req (db (sh_world s1)))) (sh_world s1)\<rparr> \<and>
            (out = Cancelled \<or> (\<exists>e. out = Ready (Inl e)) \<or>
             out = Ready (fst (run_request exec (sh_now s1) req (db (sh_world s1))))))"
begin

lemma servedE:
  assumes "rt_redis RT req s = (out, s')"
  obtains (lost) s1 where "rely s s1" "rely s1 s'" "out = Cancelled \<or> (\<exists>e. out = Ready (Inl e))"
  | (executed) s1 r d where "rely s s1"
      "run_request exec (sh_now s1) req (db (sh_world s1)) = (r, d)"
      "rely (s1\<lparr>sh_world := set_db d (sh_world s1)\<rparr>) s'"
      "out = Cancelled \<or> (\<exists>e. out = Ready (Inl e)) \<or> out = Ready r"
  using served [OF assms] by (metis prod.collapse)

lemma served_ok:
  assumes "rt_redis RT req s = (Ready (Inr v), s')"
  obtains s1 d where "rely s s1"
      "run_request exec (sh_now s1) req (db (sh_world s1)) = (Inr v, d)"
      "rely (s1\<lparr>sh_world := set_db d (sh_world s1)\<rparr>) s'"
  using assms by (rule servedE) auto

end

text \<open>
  A token-checked transition that got a definite answer: at one moment during the await the key
  held the token exactly when the answer is true; then the script acted on that key alone, and
  otherwise nothing changed.
\<close>

definition acted ::
  "'db live_view \<Rightarrow> lua_script \<Rightarrow> string \<Rightarrow> string \<Rightarrow> nat \<Rightarrow> bool \<Rightarrow> instant \<Rightarrow> 'db \<Rightarrow> 'db \<Rightarrow> bool" where
  "acted live script key token ms b now d d' \<longleftrightarrow>
     (b \<longleftrightarrow> (\<exists>e. live now d key = Some (token, e))) \<and>
     live now d' =
       (if b then (live now d)(key :=
                     (case script of COMPLETE \<Rightarrow> None | RENEW \<Rightarrow> Some (token, Some (now + from_millis ms))))
        else live now d)"

context redis_link
begin

lemma transition_acted:
  assumes "eval_transition m RT script key (token # args) t = (Ready (Inr b), t')"
    and "script = COMPLETE \<or> (\<exists>args'. args = show_nat ms # args') \<and> 0 < ms \<and> ms \<le> i64_max"
  shows "\<exists>s1 d'. rely (tk_shared t) s1 \<and>
    rely (s1\<lparr>sh_world := set_db d' (sh_world s1)\<rparr>) (tk_shared t') \<and>
    acted live script key token ms b (sh_now s1) (db (sh_world s1)) d'"
proof -
  from eval_transition_shared [OF assms(1)] obtain v where
    "rt_redis RT (Eval script [key] (token # args)) (tk_shared t) = (Ready (Inr v), tk_shared t')"
    and v: "transition_reply m v = Inr b" by auto
  then obtain s1 d' where rely: "rely (tk_shared t) s1" "rely (s1\<lparr>sh_world := set_db d' (sh_world s1)\<rparr>) (tk_shared t')"
    and run: "run_script exec (sh_now s1) script [key] (token # args) (db (sh_world s1)) = (Inr v, d')"
    by (elim served_ok) auto
  have "acted live script key token ms b (sh_now s1) (db (sh_world s1)) d'"
  proof (cases "\<exists>e. live (sh_now s1) (db (sh_world s1)) key = Some (token, e)")
    case True
    then obtain e where e: "live (sh_now s1) (db (sh_world s1)) key = Some (token, e)" by blast
    show ?thesis
    proof (cases script)
      case COMPLETE
      with complete_owner [OF e, of args] run v True show ?thesis
        by (auto simp: acted_def transition_reply_Inr split: if_splits)
    next
      case RENEW
      with assms(2) obtain args' where "args = show_nat ms # args'" "0 < ms" "ms \<le> i64_max" by auto
      with renew_owner [OF e, of ms args'] RENEW run v True show ?thesis
        by (auto simp: acted_def transition_reply_Inr split: if_splits)
    qed
  next
    case False
    then have "v \<noteq> IntReply 1" "live (sh_now s1) d' = live (sh_now s1) (db (sh_world s1))"
      using script_not_owner [of "sh_now s1" "db (sh_world s1)" key token script args] run by auto
    with False v show ?thesis by (auto simp: acted_def transition_reply_Inr split: if_splits)
  qed
  with rely show ?thesis by blast
qed

end

text \<open>
  A client that holds a token on a key: while it waits, nobody takes its token off the key
  before the deadline, and the clock does not run backwards.
\<close>

locale token_link = redis_link exec live RT db set_db rely
  for exec :: "'db redis_exec" and live :: "'db live_view" and RT :: "('w, 'i) runtime"
    and db :: "'w \<Rightarrow> 'db" and set_db :: "'db \<Rightarrow> 'w \<Rightarrow> 'w" and rely +
  fixes key :: string and token :: string
  assumes clock: "rely s s' \<Longrightarrow> sh_now s \<le> sh_now s'"
    and keeps_token: "rely s s' \<Longrightarrow>
      holds_until (live (sh_now s) (db (sh_world s)) key) token d \<Longrightarrow> sh_now s' < d \<Longrightarrow>
      holds_until (live (sh_now s') (db (sh_world s')) key) token d"
begin

lemma granted:
  assumes "rt_redis RT req s = (Ready (Inr v), s')" and "d \<le> sh_now s + ttl" and "sh_now s' < d"
    and grant: "\<And>now d0. fst (run_request exec now req d0) = Inr v \<Longrightarrow>
      live now (snd (run_request exec now req d0)) key = Some (token, Some (now + ttl))"
  shows "holds_until (live (sh_now s') (db (sh_world s')) key) token d"
proof (rule served_ok [OF assms(1)])
  fix s1 d1
  assume s1: "rely s s1" and run: "run_request exec (sh_now s1) req (db (sh_world s1)) = (Inr v, d1)"
    and s2: "rely (s1\<lparr>sh_world := set_db d1 (sh_world s1)\<rparr>) s'"
  from clock [OF s1] assms(2) have "d \<le> sh_now s1 + ttl" by simp
  moreover have "live (sh_now s1) d1 key = Some (token, Some (sh_now s1 + ttl))"
    using grant [of "sh_now s1" "db (sh_world s1)"] run by simp
  ultimately have "holds_until (live (sh_now s1) d1 key) token d"
    by (simp add: holds_until_def)
  with keeps_token [OF s2] assms(3) show ?thesis by (simp add: db_set_db)
qed

text \<open>A request that leaves the string keys alone keeps the token in place.\<close>

lemma held_over_call:
  assumes "rt_redis RT req s = (out, s')"
    and keeps: "\<And>now d0. live now (snd (run_request exec now req d0)) = live now d0"
    and "holds_until (live (sh_now s) (db (sh_world s)) key) token d" and "sh_now s' < d"
  shows "holds_until (live (sh_now s') (db (sh_world s')) key) token d"
  using assms(1)
proof (cases rule: servedE)
  case (lost s1)
  with assms(3,4) clock [OF lost(2)] show ?thesis
    by (meson keeps_token order.strict_trans1)
next
  case (executed s1 r d1)
  have "sh_now s1 < d" using clock [OF executed(3)] assms(4) by simp
  with executed(1) assms(3) have "holds_until (live (sh_now s1) (db (sh_world s1)) key) token d"
    by (blast intro: keeps_token)
  then have "holds_until (live (sh_now s1) d1 key) token d"
    using keeps [of "sh_now s1" "db (sh_world s1)"] executed(2) by simp
  with keeps_token [OF executed(3)] assms(4) show ?thesis by (simp add: db_set_db)
qed

lemma call_clock:
  assumes "rt_redis RT req s = (out, s')"
  shows "sh_now s \<le> sh_now s'"
  using assms
proof (cases rule: servedE)
  case (lost s1)
  with clock show ?thesis by (meson order_trans)
next
  case (executed s1 r d1)
  with clock [OF executed(1)] clock [OF executed(3)] show ?thesis by simp
qed

text \<open>A granted reservation holds until its time-to-live has passed.\<close>

lemma reserve_holds:
  assumes "reserve RT key token ms t = (Ready (Inr True), t')"
    and "d \<le> sh_now (tk_shared t) + from_millis ms" and "sh_now (tk_shared t') < d"
  shows "holds_until (live (sh_now (tk_shared t')) (db (sh_world (tk_shared t'))) key) token d"
proof -
  from reserve_shared [OF assms(1)] obtain v where
    r: "rt_redis RT (Command (reserve_args key token ms)) (tk_shared t) = (Ready (Inr v), tk_shared t')"
    and "reserve_reply v = Inr True" by auto
  then have v: "v = Okay \<or> v = SimpleString ''OK''" by (simp add: reserve_reply_True)
  show ?thesis
  proof (rule granted [OF r assms(2,3)])
    fix now d0
    assume "fst (run_request exec now (Command (reserve_args key token ms)) d0) = Inr v"
    with v set_nx [of now key token ms d0]
    show "live now (snd (run_request exec now (Command (reserve_args key token ms)) d0)) key =
        Some (token, Some (now + from_millis ms))" by auto
  qed
qed

text \<open>So does a confirmed renewal.\<close>

lemma renew_holds:
  assumes "eval_transition m RT RENEW key [token, show_nat ms] t = (Ready (Inr True), t')"
    and "0 < ms" and "ms \<le> i64_max"
    and "d \<le> sh_now (tk_shared t) + from_millis ms" and "sh_now (tk_shared t') < d"
  shows "holds_until (live (sh_now (tk_shared t')) (db (sh_world (tk_shared t'))) key) token d"
proof -
  from eval_transition_shared [OF assms(1)] obtain v where
    r: "rt_redis RT (Eval RENEW [key] [token, show_nat ms]) (tk_shared t) = (Ready (Inr v), tk_shared t')"
    and "transition_reply m v = Inr True" by auto
  then have v: "v = IntReply 1" by (simp add: transition_reply_Inr)
  show ?thesis
  proof (rule granted [OF r assms(4,5)])
    fix now d0
    assume "fst (run_request exec now (Eval RENEW [key] [token, show_nat ms]) d0) = Inr v"
    with v obtain e where "live now d0 key = Some (token, e)"
      using script_not_owner(1) [of now d0 key token RENEW "[show_nat ms]"] by auto
    from renew_owner(2) [OF this assms(2,3)]
    show "live now (snd (run_request exec now (Eval RENEW [key] [token, show_nat ms]) d0)) key =
        Some (token, Some (now + from_millis ms))" by simp
  qed
qed

end

section \<open>An executable server\<close>

record simple_db =
  sd_strings :: "string \<rightharpoonup> string \<times> instant option"
  sd_hashes :: "string \<Rightarrow> string \<rightharpoonup> nat"

definition simple_live :: "simple_db live_view" where
  "simple_live now db k =
     (case sd_strings db k of
        Some (v, Some e) \<Rightarrow> if now < e then Some (v, Some e) else None
      | entry \<Rightarrow> entry)"

definition simple_set :: "string \<Rightarrow> (string \<times> instant option) option \<Rightarrow> simple_db \<Rightarrow> simple_db" where
  "simple_set k entry db = db\<lparr>sd_strings := (sd_strings db)(k := entry)\<rparr>"

text \<open>Commands dispatch on their name; the argument checks mirror the server's arity errors.\<close>

definition simple_exec :: "simple_db redis_exec" where
  "simple_exec now args db =
     (case args of
        [name, k] \<Rightarrow>
          if name = ''GET'' then
            (case simple_live now db k of
               Some (v, _) \<Rightarrow> (Inr (BulkString v), db)
             | None \<Rightarrow> (Inr NilReply, db))
          else if name = ''DEL'' then
            (case simple_live now db k of
               Some _ \<Rightarrow> (Inr (IntReply 1), simple_set k None db)
             | None \<Rightarrow> (Inr (IntReply 0), db))
          else (Inl ''ERR unknown command'', db)
      | [name, k, a] \<Rightarrow>
          if name = ''PEXPIRE'' then
            (case (parse_u64 a, simple_live now db k) of
               (Some ms, Some (v, _)) \<Rightarrow>
                 (Inr (IntReply 1), simple_set k (Some (v, Some (now + from_millis ms))) db)
             | (Some _, None) \<Rightarrow> (Inr (IntReply 0), db)
             | (None, _) \<Rightarrow> (Inl ''ERR value is not an integer'', db))
          else if name = ''HGET'' then
            (case sd_hashes db k a of
               Some n \<Rightarrow> (Inr (BulkString (show_nat n)), db)
             | None \<Rightarrow> (Inr NilReply, db))
          else (Inl ''ERR unknown command'', db)
      | [name, k, f, a] \<Rightarrow>
          if name = ''HINCRBY'' then
            (case parse_u64 a of
               Some n \<Rightarrow>
                 (let total = (case sd_hashes db k f of Some m \<Rightarrow> m | None \<Rightarrow> 0) + n
                  in (Inr (IntReply (int total)),
                      db\<lparr>sd_hashes := (sd_hashes db)(k := (sd_hashes db k)(f \<mapsto> total))\<rparr>))
             | None \<Rightarrow> (Inl ''ERR value is not an integer'', db))
          else (Inl ''ERR unknown command'', db)
      | [name, k, v, nx, px, a] \<Rightarrow>
          if name = ''SET'' \<and> nx = ''NX'' \<and> px = ''PX'' then
            (case (parse_u64 a, simple_live now db k) of
               (Some ms, None) \<Rightarrow>
                 if ms = 0 then (Inl ''ERR invalid expire time'', db)
                 else (Inr Okay, simple_set k (Some (v, Some (now + from_millis ms))) db)
             | (Some _, Some _) \<Rightarrow> (Inr NilReply, db)
             | (None, _) \<Rightarrow> (Inl ''ERR value is not an integer'', db))
          else (Inl ''ERR syntax error'', db)
      | _ \<Rightarrow> (Inl ''ERR unknown command'', db))"


interpretation simple_server: redis_server simple_exec simple_live
proof (unfold_locales, goal_cases)
  case (1 now db k v e)
  then show ?case by (auto simp: simple_live_def split: option.splits if_splits)
next
  case (2 now now' db k)
  then show ?case by (auto simp: simple_live_def split: option.splits if_splits)
next
  case (3 now db k)
  then show ?case by (auto simp: simple_exec_def split: option.splits)
next
  case (4 now k db)
  then show ?case by (auto simp: simple_exec_def split: option.splits)
next
  case (5 now k f db)
  then show ?case by (auto simp: simple_exec_def split: option.splits)
next
  case (6 now k f n db)
  then show ?case by (auto simp: simple_exec_def simple_live_def fun_eq_iff Let_def split: option.splits)
next
  case (7 now k v ms db)
  then show ?case
    by (auto simp: simple_exec_def reserve_args_def parse_show_nat fun_eq_iff simple_set_def
        simple_live_def from_millis_def split: option.splits if_splits)
next
  case (8 now db k ms v)
  then show ?case
    by (auto simp: simple_exec_def reserve_args_def parse_show_nat split: option.splits)
next
  case (9 now db k)
  then show ?case
    by (auto simp: simple_exec_def fun_eq_iff simple_set_def simple_live_def split: option.splits if_splits)
next
  case (10 now db k v d ms)
  then show ?case
    by (auto simp: simple_exec_def parse_show_nat fun_eq_iff simple_set_def simple_live_def
        from_millis_def split: option.splits if_splits)
qed

text \<open>
  A connection with no other client: a request takes one millisecond and is executed half way.
  \<open>sw_drops\<close> lists, request by request, whether the await is cancelled after execution;
  random numbers come from a list.
\<close>

record simple_world =
  sw_db :: simple_db
  sw_drops :: "bool list"
  sw_random :: "128 word list"

definition draw :: "simple_world \<Rightarrow> 128 word \<times> simple_world" where
  "draw w = (case sw_random w of [] \<Rightarrow> (7, w) | r # rs \<Rightarrow> (r, w\<lparr>sw_random := rs\<rparr>))"

definition simple_await ::
  "redis_request \<Rightarrow> ((simple_world, 'i) shared, string + redis_value) fut" where
  "simple_await req s =
     (let s1 = s\<lparr>sh_now := sh_now s + 500000\<rparr>;
          w = sh_world s1;
          (r, d) = run_request simple_exec (sh_now s1) req (sw_db w);
          (lost, w1) = (case sw_drops w of [] \<Rightarrow> (False, w) | b # bs \<Rightarrow> (b, w\<lparr>sw_drops := bs\<rparr>));
          s2 = s1\<lparr>sh_world := w1\<lparr>sw_db := d\<rparr>, sh_now := sh_now s1 + 500000\<rparr>
      in (if lost then Cancelled else Ready r, s2))"

definition simple_runtime :: "(simple_world, 'i) runtime" where
  "simple_runtime =
     \<lparr>rt_redis = simple_await,
      rt_random_u128 = draw,
      rt_random_usize = (\<lambda>w. case draw w of (r, w') \<Rightarrow> (ucast r, w')),
      rt_lock = (\<lambda>s. (Ready (), s)),
      rt_jitter = (\<lambda>_ interval w. (interval, w)),
      rt_sleep = (\<lambda>d s. (Ready (), s\<lparr>sh_now := sh_now s + d\<rparr>))\<rparr>"

definition quiet :: "(simple_world, 'i) shared \<Rightarrow> (simple_world, 'i) shared \<Rightarrow> bool" where
  "quiet s s' \<longleftrightarrow>
     sh_now s \<le> sh_now s' \<and> sw_db (sh_world s') = sw_db (sh_world s) \<and>
     sh_discovery s' = sh_discovery s \<and> sh_snapshot s' = sh_snapshot s \<and>
     sh_valid_until s' = sh_valid_until s \<and> sh_owned_slot s' = sh_owned_slot s"

interpretation simple_link: redis_link simple_exec simple_live
  "simple_runtime :: (simple_world, 'i) runtime" sw_db "\<lambda>d w. w\<lparr>sw_db := d\<rparr>" quiet
proof (unfold_locales, goal_cases)
  case (8 req s out s')
  let ?s1 = "s\<lparr>sh_now := sh_now s + 500000\<rparr>"
  let ?run = "run_request simple_exec (sh_now ?s1) req (sw_db (sh_world ?s1))"
  let ?s2 = "?s1\<lparr>sh_world := (sh_world ?s1)\<lparr>sw_db := snd ?run\<rparr>\<rparr>"
  have "quiet s ?s1" by (simp add: quiet_def)
  moreover have "quiet ?s2 s'" and "out = Cancelled \<or> out = Ready (fst ?run)"
    using 8 by (auto simp: simple_runtime_def simple_await_def quiet_def Let_def split: prod.splits list.splits if_splits)
  ultimately show ?case by blast
qed (auto simp: simple_runtime_def draw_def quiet_def split: list.splits prod.splits)

text \<open>The sample connection keeps every token until its deadline: there is no other client.\<close>

interpretation simple_token: token_link simple_exec simple_live
  "simple_runtime :: (simple_world, 'i) runtime" sw_db "\<lambda>d w. w\<lparr>sw_db := d\<rparr>" quiet key token for key token
proof (unfold_locales, goal_cases)
  case (2 s s' d)
  then show ?case
    using simple_server.holds_until_later [of "sh_now s" "sw_db (sh_world s)" key token d "sh_now s'"]
    by (simp add: quiet_def)
qed (auto simp: quiet_def)

end
