(* ===== verification/Policy_Store.thy ===== *)
theory Policy_Store
  imports Redis_Server
begin

text \<open>
  Model of the policy store of \<open>src/redis_admission/policy.rs\<close>: loading the JSON policy from
  Redis and publishing a compiled snapshot to all clones of a provider. The JSON decoder
  \<open>serde_json::from_slice\<close> is the argument \<open>from_json\<close>. Waiting for the load mutex and for
  Redis are await points at which other clones may publish; what \<open>load\<close> itself does happens
  in one step after the reply.
\<close>

section \<open>Definitions\<close>

definition LOAD_TIMEOUT :: duration where
  "LOAD_TIMEOUT = from_millis 200"

record policy_store =
  ps_key :: string
  ps_counts_key :: string

definition policy_store_new :: "string \<Rightarrow> policy_store" where
  "policy_store_new prefix =
     \<lparr>ps_key = prefix @ '':api-policy'', ps_counts_key = prefix @ '':api-counts''\<rparr>"

definition snapshot_new :: "'i snapshot" where
  "snapshot_new = \<lparr>sn_raw = None, sn_policy = None\<rparr>"

definition decode_policy ::
  "(string \<Rightarrow> string + policy_config) \<Rightarrow> string option \<Rightarrow> admission_error + policy_config" where
  "decode_policy from_json raw =
     (case raw of
        Some bytes \<Rightarrow> map_err Backend (from_json bytes)
      | None \<Rightarrow> Inr policy_default)"

definition publish_policy ::
  "('h, 'u) http_lib \<Rightarrow> 'i router_lib \<Rightarrow> (string \<Rightarrow> string + policy_config) \<Rightarrow> string option \<Rightarrow>
     (('w, 'i) task, admission_error + unit) fut" where
  "publish_policy L R from_json raw t =
     (let current = sh_snapshot (tk_shared t)
      in if sn_policy current \<noteq> None \<and> sn_raw current = raw then (Ready (Inr ()), t)
         else case bind_ok (decode_policy from_json raw) (compile_policy L R) of
                Inl e \<Rightarrow> (Ready (Inl e), t)
              | Inr policy \<Rightarrow>
                  (Ready (Inr ()),
                   t\<lparr>tk_shared := (tk_shared t)\<lparr>sh_snapshot := \<lparr>sn_raw = raw, sn_policy = Some policy\<rparr>\<rparr>\<rparr>))"

definition load_policy ::
  "('h, 'u) http_lib \<Rightarrow> 'i router_lib \<Rightarrow> (string \<Rightarrow> string + policy_config) \<Rightarrow>
     ('w, 'i) runtime \<Rightarrow> policy_store \<Rightarrow> (('w, 'i) task, admission_error + unit) fut" where
  "load_policy L R from_json RT store =
     tokio_timeout LOAD_TIMEOUT
       (await (lift_shared (rt_lock RT))
         (\<lambda>_. await_ok (command RT [''GET'', ps_key store])
           (\<lambda>value. case value of
              NilReply \<Rightarrow> publish_policy L R from_json None
            | BulkString bytes \<Rightarrow> publish_policy L R from_json (Some bytes)
            | _ \<Rightarrow> ret (Inl (invalid ''API policy must be a JSON string'')))))"

section \<open>Snapshots\<close>

text \<open>A published policy is the compilation of the raw value it is stored with.\<close>

definition snapshot_wf ::
  "('h, 'u) http_lib \<Rightarrow> 'i router_lib \<Rightarrow> (string \<Rightarrow> string + policy_config) \<Rightarrow> 'i snapshot \<Rightarrow> bool" where
  "snapshot_wf L R from_json snap \<longleftrightarrow>
     (\<forall>policy. sn_policy snap = Some policy \<longrightarrow>
        (\<exists>config. decode_policy from_json (sn_raw snap) = Inr config \<and>
           compile_policy L R config = Inr policy))"

lemma publish_policy_cases:
  "\<exists>res snap. publish_policy L R from_json raw t =
      (Ready res, t\<lparr>tk_shared := (tk_shared t)\<lparr>sh_snapshot := snap\<rparr>\<rparr>) \<and>
    (case res of
       Inl e \<Rightarrow> snap = sh_snapshot (tk_shared t) \<and>
         bind_ok (decode_policy from_json raw) (compile_policy L R) = Inl e
     | Inr _ \<Rightarrow> sn_raw snap = raw \<and> sn_policy snap \<noteq> None) \<and>
    (snapshot_wf L R from_json (sh_snapshot (tk_shared t)) \<longrightarrow> snapshot_wf L R from_json snap)"
proof (cases "sn_policy (sh_snapshot (tk_shared t)) \<noteq> None \<and> sn_raw (sh_snapshot (tk_shared t)) = raw")
  case True
  then show ?thesis
    by (intro exI [of _ "Inr ()"] exI [of _ "sh_snapshot (tk_shared t)"])
      (simp add: publish_policy_def Let_def)
next
  case False
  show ?thesis
  proof (cases "bind_ok (decode_policy from_json raw) (compile_policy L R)")
    case (Inl e)
    with False show ?thesis
      by (intro exI [of _ "Inl e"] exI [of _ "sh_snapshot (tk_shared t)"])
        (auto simp: publish_policy_def Let_def)
  next
    case (Inr policy)
    with False show ?thesis
      by (intro exI [of _ "Inr ()"] exI [of _ "\<lparr>sn_raw = raw, sn_policy = Some policy\<rparr>"])
        (auto simp: publish_policy_def Let_def snapshot_wf_def bind_ok_Inr_iff)
  qed
qed

text \<open>The raw value behind a reply, \<open>None\<close> for a reply that is not a string.\<close>

fun raw_of :: "redis_value \<Rightarrow> string option option" where
  "raw_of NilReply = Some None"
| "raw_of (BulkString bytes) = Some (Some bytes)"
| "raw_of _ = None"

lemma load_policy_reply:
  assumes "rt_lock RT (tk_shared t) = (Ready (), s0)"
    and "rt_redis RT (Command [''GET'', ps_key store]) s0 = (Ready (Inr v), s1)"
  shows "load_policy L R from_json RT store t =
    (case raw_of v of
       None \<Rightarrow> (Ready (Inl (invalid ''API policy must be a JSON string'')),
                \<lparr>tk_shared = s1, tk_log = tk_log t @ [Command [''GET'', ps_key store]]\<rparr>)
     | Some raw \<Rightarrow> publish_policy L R from_json raw
                \<lparr>tk_shared = s1, tk_log = tk_log t @ [Command [''GET'', ps_key store]]\<rparr>)"
proof -
  let ?t1 = "\<lparr>tk_shared = s1, tk_log = tk_log t @ [Command [''GET'', ps_key store]]\<rparr>"
  define body where "body = await (lift_shared (rt_lock RT))
    (\<lambda>_. await_ok (command RT [''GET'', ps_key store])
      (\<lambda>value. case value of
         NilReply \<Rightarrow> publish_policy L R from_json None
       | BulkString bytes \<Rightarrow> publish_policy L R from_json (Some bytes)
       | _ \<Rightarrow> ret (Inl (invalid ''API policy must be a JSON string''))))"
  have load: "load_policy L R from_json RT store = tokio_timeout LOAD_TIMEOUT body"
    by (simp add: load_policy_def body_def)
  have lock: "lift_shared (rt_lock RT) t = (Ready (), t\<lparr>tk_shared := s0\<rparr>)"
    by (simp add: lift_shared_def assms(1))
  have get: "command RT [''GET'', ps_key store] (t\<lparr>tk_shared := s0\<rparr>) = (Ready (Inr v), ?t1)"
    by (simp add: command_def redis_call_def assms(2))
  have body: "body t = (case raw_of v of
       None \<Rightarrow> (Ready (Inl (invalid ''API policy must be a JSON string'')), ?t1)
     | Some raw \<Rightarrow> publish_policy L R from_json raw ?t1)"
    unfolding body_def await_Ready [where c = "lift_shared (rt_lock RT)", OF lock] await_ok_Inr [where c = "command RT [''GET'', ps_key store]", OF get]
    by (cases v) simp_all
  have "\<exists>res t'. publish_policy L R from_json raw ?t1 = (Ready res, t')" for raw
    using publish_policy_cases [of L R from_json raw ?t1] by blast
  then have "\<exists>res t'. body t = (Ready res, t')"
    unfolding body by (cases "raw_of v") simp_all
  then obtain res t' where final: "body t = (Ready res, t')" by blast
  show ?thesis
    unfolding load tokio_timeout_simps(1) [of body, OF final] final [symmetric] by (rule body)
qed

lemma publish_policy_log: "tk_log (snd (publish_policy L R from_json raw t)) = tk_log t"
  by (simp add: publish_policy_def Let_def split: sum.split)

lemma load_policy_log:
  "tk_log (snd (load_policy L R from_json RT store t)) \<in>
     {tk_log t, tk_log t @ [Command [''GET'', ps_key store]]}"
  by (auto simp: load_policy_def await_def await_ok_def lift_shared_def command_def
      redis_call_def publish_policy_log split: prod.splits async.split sum.split redis_value.split)

text \<open>
  A condition that the surroundings keep, that reading the policy key keeps and that does not
  mention the snapshot survives a load.
\<close>

context redis_link
begin

lemma load_policy_keeps:
  assumes rely: "\<And>s s'. P s \<Longrightarrow> rely s s' \<Longrightarrow> P s'"
    and get: "\<And>s out s'. P s \<Longrightarrow> rt_redis RT (Command [''GET'', ps_key store]) s = (out, s') \<Longrightarrow> P s'"
    and snap: "\<And>s x. P s \<Longrightarrow> P (s\<lparr>sh_snapshot := x\<rparr>)"
  shows "runs (\<lambda>t. P (tk_shared t)) (load_policy L R from_json RT store) (\<lambda>_ t. P (tk_shared t))"
proof -
  let ?P = "\<lambda>out (t :: ('w, 'i) task). P (tk_shared t)"
  have publish: "runs (?P ()) (publish_policy L R from_json raw) ?P" for raw
    by (rule runsI) (auto simp: publish_policy_def Let_def snap split: sum.split)
  have "runs (?P ()) (await (lift_shared (rt_lock RT))
         (\<lambda>_. await_ok (command RT [''GET'', ps_key store])
           (\<lambda>value. case value of
              NilReply \<Rightarrow> publish_policy L R from_json None
            | BulkString bytes \<Rightarrow> publish_policy L R from_json (Some bytes)
            | _ \<Rightarrow> ret (Inl (invalid ''API policy must be a JSON string''))))) ?P"
  proof (intro runs_await [where R = ?P] runs_await_ok [where R = ?P], goal_cases)
    case 1
    show ?case by (rule runsI) (simp add: rely [OF _ lock_rely])
  next
    case (2 x)
    show ?case
      by (rule runsI) (metis command_shared get prod.collapse)
  next
    case (3 x v)
    show ?case using publish by (cases v) (auto intro: runs_ret)
  qed simp_all
  then show ?thesis by (simp add: load_policy_def runs_def)
qed

end

section \<open>Properties\<close>

text \<open>
  C30: publishing a policy is all or nothing. When the Redis reply arrives, a load changes
  nothing but the snapshot; a reply that is not a string, a decoding error or a compilation
  error returns the error and leaves the last snapshot in force; success publishes a policy for
  exactly the value read, an absent key giving the default policy. The snapshot always is the
  compilation of the raw value stored beside it, and one command is sent.
\<close>

theorem load_policy_atomic:
  assumes "rt_lock RT (tk_shared t) = (Ready (), s0)"
    and "rt_redis RT (Command [''GET'', ps_key store]) s0 = (Ready (Inr v), s1)"
  shows "\<exists>res snap. load_policy L R from_json RT store t =
      (Ready res, \<lparr>tk_shared = s1\<lparr>sh_snapshot := snap\<rparr>,
                   tk_log = tk_log t @ [Command [''GET'', ps_key store]]\<rparr>) \<and>
    (case res of
       Inl e \<Rightarrow> snap = sh_snapshot s1
     | Inr _ \<Rightarrow> raw_of v = Some (sn_raw snap) \<and> sn_policy snap \<noteq> None) \<and>
    (snapshot_wf L R from_json (sh_snapshot s1) \<longrightarrow> snapshot_wf L R from_json snap)"
proof (cases "raw_of v")
  case None
  then show ?thesis
    unfolding load_policy_reply [OF assms]
    by (intro exI [of _ "Inl _"] exI [of _ "sh_snapshot s1"]) simp
next
  case (Some raw)
  with publish_policy_cases [of L R from_json raw
      "\<lparr>tk_shared = s1, tk_log = tk_log t @ [Command [''GET'', ps_key store]]\<rparr>"]
  show ?thesis
    unfolding load_policy_reply [OF assms] by (fastforce split: sum.splits)
qed

definition sample_store :: policy_store where
  "sample_store = policy_store_new ''rec''"

definition sample_shared :: "(string \<rightharpoonup> string \<times> instant option) \<Rightarrow> (simple_world, 'i) shared" where
  "sample_shared strings =
     \<lparr>sh_now = 0, sh_discovery = discovery_default, sh_snapshot = snapshot_new, sh_valid_until = None,
      sh_owned_slot = None,
      sh_world = \<lparr>sw_db = \<lparr>sd_strings = strings, sd_hashes = (\<lambda>_. Map.empty)\<rparr>, sw_drops = [], sw_random = []\<rparr>\<rparr>"

text \<open>With no policy key in Redis the default policy is published.\<close>

theorem load_policy_atomic_witness:
  "\<exists>t'. load_policy assoc_lib segment_router (\<lambda>_. Inl ''json'') simple_runtime sample_store
       \<lparr>tk_shared = sample_shared Map.empty, tk_log = []\<rparr> = (Ready (Inr ()), t') \<and>
     sn_raw (sh_snapshot (tk_shared t')) = None \<and> sn_policy (sh_snapshot (tk_shared t')) \<noteq> None"
proof -
  let ?t = "\<lparr>tk_shared = sample_shared Map.empty, tk_log = []\<rparr>
    :: (simple_world, indexed_rule list) task"
  let ?s1 = "(tk_shared ?t)\<lparr>sh_now := 1000000\<rparr>"
  have lock: "rt_lock simple_runtime (tk_shared ?t) = (Ready (), tk_shared ?t)"
    by (simp add: simple_runtime_def)
  have get: "rt_redis simple_runtime (Command [''GET'', ps_key sample_store]) (tk_shared ?t)
      = (Ready (Inr NilReply), ?s1)"
    by (simp add: simple_runtime_def simple_await_def sample_shared_def simple_exec_def simple_live_def)
  have default: "is_ok (compile_policy assoc_lib segment_router policy_default)" by code_simp
  have res: "fst (load_policy assoc_lib segment_router (\<lambda>_. Inl ''json'') simple_runtime sample_store ?t)
      = Ready (Inr ())"
    unfolding load_policy_reply [OF lock get] using default
    by (auto simp: publish_policy_def sample_shared_def snapshot_new_def
        decode_policy_def is_ok_iff Let_def)
  from load_policy_atomic [OF lock get, of assoc_lib segment_router "\<lambda>_. Inl ''json''"] res
  show ?thesis by fastforce
qed

end
