(* ===== verification/Lease.thy ===== *)
theory Lease
  imports Policy_Store
begin

text \<open>
  Model of \<open>src/redis_admission/lease.rs\<close>: the participation lease of a gateway. \<open>refresh\<close>
  is one election or renewal, with the local deadline and the possibly owned slot kept in the
  shared state so that a cancelled refresh leaves exactly what the code leaves. \<open>cycle\<close> is one
  iteration of the background loop.

  The second half proves the safety of the scheme by rely and guarantee: whatever happens at
  the await points, a gateway is locally eligible only while Redis holds its token on the slot
  it owns; the requests it sends leave the slots of other tokens alone; hence no two gateways
  are eligible on the same slot.
\<close>

section \<open>Configuration\<close>

record gateway_lease_config =
  lc_instance_id :: string
  lc_lease_ttl :: duration
  lc_refresh_interval :: duration

datatype gateway_lease_config_error =
    InvalidTiming
  | AlreadyConfigured
  | LeaseRecorderKeyConflict
  | NoRuntime

definition lease_config_new :: "string \<Rightarrow> gateway_lease_config" where
  "lease_config_new instance_id =
     \<lparr>lc_instance_id = instance_id, lc_lease_ttl = from_secs 30, lc_refresh_interval = from_secs 10\<rparr>"

definition lease_validate :: "gateway_lease_config \<Rightarrow> gateway_lease_config_error + unit" where
  "lease_validate self =
     (if as_millis (lc_lease_ttl self) = 0 \<or>
         as_millis (lc_lease_ttl self) > i64_max \<or>
         subsec_nanos (lc_lease_ttl self) mod 1000000 \<noteq> 0 \<or>
         as_millis (lc_refresh_interval self) = 0 \<or>
         subsec_nanos (lc_refresh_interval self) mod 1000000 \<noteq> 0 \<or>
         lc_refresh_interval self > lc_lease_ttl self div 3
      then Inl InvalidTiming else Inr ())"

section \<open>Local state\<close>

definition lease_is_valid :: "('w, 'i) shared \<Rightarrow> bool" where
  "lease_is_valid s \<longleftrightarrow>
     (case sh_valid_until s of None \<Rightarrow> False | Some deadline \<Rightarrow> sh_now s < deadline)"

definition publish :: "instant \<Rightarrow> duration \<Rightarrow> (('w, 'i) task, unit) fut" where
  "publish started ttl = modify (\<lambda>s. s\<lparr>sh_valid_until := Some (started + ttl)\<rparr>)"

definition clear :: "(('w, 'i) task, unit) fut" where
  "clear = modify (\<lambda>s. s\<lparr>sh_valid_until := None\<rparr>)"

definition set_owned_slot :: "nat option \<Rightarrow> (('w, 'i) task, unit) fut" where
  "set_owned_slot slot = modify (\<lambda>s. s\<lparr>sh_owned_slot := slot\<rparr>)"

definition owned_slot :: "(('w, 'i) task, nat option) fut" where
  "owned_slot t = (Ready (sh_owned_slot (tk_shared t)), t)"

section \<open>Starting\<close>

text \<open>
  \<open>GatewayLease::start\<close> up to the spawn of the background task: the configuration with its
  final instance id and the boot token. \<open>has_runtime\<close> is \<open>Handle::try_current().is_ok()\<close>.
\<close>

definition lease_start ::
  "('w, 'i) runtime \<Rightarrow> bool \<Rightarrow> gateway_lease_config \<Rightarrow>
     (('w, 'i) task, gateway_lease_config_error + gateway_lease_config \<times> string) fut" where
  "lease_start RT has_runtime config =
     (case lease_validate config of
        Inl e \<Rightarrow> ret (Inl e)
      | Inr _ \<Rightarrow>
          if \<not> has_runtime then ret (Inl NoRuntime)
          else
            await (if trim_is_empty (lc_instance_id config)
                   then await (random_u128 RT)
                          (\<lambda>r. ret (config\<lparr>lc_instance_id := ''gw-'' @ hex32 r\<rparr>))
                   else ret config)
              (\<lambda>config'. await clear (\<lambda>_.
                 await (random_u128 RT)
                   (\<lambda>r. ret (Inr (config', lc_instance_id config' @ '':'' @ hex32 r))))))"

section \<open>Refreshing\<close>

definition lease_transition ::
  "('w, 'i) runtime \<Rightarrow> lua_script \<Rightarrow> string \<Rightarrow> string list \<Rightarrow>
     (('w, 'i) task, admission_error + bool) fut" where
  "lease_transition = eval_transition ''unexpected Redis participation transition response''"

definition lease_renew ::
  "('w, 'i) runtime \<Rightarrow> string \<Rightarrow> string \<Rightarrow> nat \<Rightarrow> (('w, 'i) task, admission_error + bool) fut" where
  "lease_renew RT key token ttl_ms = lease_transition RT RENEW key [token, show_nat ttl_ms]"

definition invalid_limit :: admission_error where
  "invalid_limit = Backend ''Redis max-gateways must be a nonnegative decimal integer that fits usize''"

definition read_limit ::
  "('w, 'i) runtime \<Rightarrow> string \<Rightarrow> (('w, 'i) task, admission_error + nat) fut" where
  "read_limit RT key = await_ok (command RT [''GET'', key]) (\<lambda>v. ret (decimal_reply invalid_limit v))"

definition slot_key :: "string \<Rightarrow> nat \<Rightarrow> string" where
  "slot_key prefix slot = prefix @ '':gateway:'' @ show_nat slot"

definition limit_key :: "string \<Rightarrow> string" where
  "limit_key prefix = prefix @ '':max-gateways''"

text \<open>The election loop over \<open>(first..limit).chain(0..first)\<close>.\<close>

fun try_slots ::
  "('w, 'i) runtime \<Rightarrow> string \<Rightarrow> string \<Rightarrow> duration \<Rightarrow> nat list \<Rightarrow>
     (('w, 'i) task, admission_error + unit) fut" where
  "try_slots RT prefix token ttl [] = ret (Inr ())"
| "try_slots RT prefix token ttl (slot # slots) =
     await instant_now (\<lambda>started.
       await (set_owned_slot (Some slot)) (\<lambda>_.
         await_ok (reserve RT (slot_key prefix slot) token (as_millis ttl)) (\<lambda>reserved.
           if reserved then await (publish started ttl) (\<lambda>_. ret (Inr ()))
           else await (set_owned_slot None) (\<lambda>_. try_slots RT prefix token ttl slots))))"

text \<open>Giving up a slot beyond the limit.\<close>

definition release_excess ::
  "('w, 'i) runtime \<Rightarrow> string \<Rightarrow> string \<Rightarrow> nat \<Rightarrow> (('w, 'i) task, admission_error + unit) fut" where
  "release_excess RT prefix token limit =
     await owned_slot (\<lambda>owned.
       case owned of
         None \<Rightarrow> ret (Inr ())
       | Some slot \<Rightarrow>
           if slot \<ge> limit
           then await clear (\<lambda>_.
                  await_ok (lease_transition RT COMPLETE (slot_key prefix slot) [token]) (\<lambda>_.
                    await (set_owned_slot None) (\<lambda>_. ret (Inr ()))))
           else ret (Inr ()))"

definition renew_or_elect ::
  "('w, 'i) runtime \<Rightarrow> string \<Rightarrow> string \<Rightarrow> gateway_lease_config \<Rightarrow> nat \<Rightarrow>
     (('w, 'i) task, admission_error + unit) fut" where
  "renew_or_elect RT prefix token config limit =
     await owned_slot (\<lambda>owned.
       case owned of
         Some slot \<Rightarrow>
           await instant_now (\<lambda>started.
             await_ok (lease_renew RT (slot_key prefix slot) token (as_millis (lc_lease_ttl config))) (\<lambda>renewed.
               if renewed then await (publish started (lc_lease_ttl config)) (\<lambda>_. ret (Inr ()))
               else await clear (\<lambda>_. await (set_owned_slot None) (\<lambda>_. ret (Inr ())))))
       | None \<Rightarrow>
           await (random_usize RT) (\<lambda>r.
             (let first = r mod limit
              in try_slots RT prefix token (lc_lease_ttl config) ([first..<limit] @ [0..<first]))))"

definition refresh ::
  "('w, 'i) runtime \<Rightarrow> string \<Rightarrow> string \<Rightarrow> gateway_lease_config \<Rightarrow>
     (('w, 'i) task, admission_error + unit) fut" where
  "refresh RT prefix token config =
     await_ok (read_limit RT (limit_key prefix)) (\<lambda>limit.
       await_ok (release_excess RT prefix token limit) (\<lambda>_.
         if limit = 0 then await clear (\<lambda>_. ret (Inr ()))
         else renew_or_elect RT prefix token config limit))"

definition refresh_policy ::
  "('h, 'u) http_lib \<Rightarrow> 'i router_lib \<Rightarrow> (string \<Rightarrow> string + policy_config) \<Rightarrow>
     ('w, 'i) runtime \<Rightarrow> policy_store \<Rightarrow> gateway_lease_config \<Rightarrow> (('w, 'i) task, unit) fut" where
  "refresh_policy L R from_json RT store config =
     await (tokio_timeout (lc_refresh_interval config div 4) (load_policy L R from_json RT store)) (\<lambda>_. ret ())"

text \<open>
  One iteration of the loop in \<open>run\<close>; a failed refresh revokes local eligibility, and the sleep
  before the next one depends on whether the gateway is eligible.
\<close>

definition valid_now :: "(('w, 'i) task, bool) fut" where
  "valid_now t = (Ready (lease_is_valid (tk_shared t)), t)"

definition cycle ::
  "('h, 'u) http_lib \<Rightarrow> 'i router_lib \<Rightarrow> (string \<Rightarrow> string + policy_config) \<Rightarrow>
     ('w, 'i) runtime \<Rightarrow> policy_store \<Rightarrow> string \<Rightarrow> string \<Rightarrow> gateway_lease_config \<Rightarrow>
     (('w, 'i) task, unit) fut" where
  "cycle L R from_json RT store prefix token config =
     await (tokio_timeout (lc_refresh_interval config) (refresh RT prefix token config)) (\<lambda>result.
       await (case result of Inl _ \<Rightarrow> clear | Inr _ \<Rightarrow> ret ()) (\<lambda>_.
         await (refresh_policy L R from_json RT store config) (\<lambda>_.
           await valid_now (\<lambda>valid.
             await (jittered RT (if valid then Renewing else Waiting) (lc_refresh_interval config)) (\<lambda>d.
               lift_shared (rt_sleep RT d))))))"

text \<open>The background task: a policy load, a random delay, then cycles; \<open>n\<close> bounds them.\<close>

fun cycles ::
  "('h, 'u) http_lib \<Rightarrow> 'i router_lib \<Rightarrow> (string \<Rightarrow> string + policy_config) \<Rightarrow>
     ('w, 'i) runtime \<Rightarrow> policy_store \<Rightarrow> string \<Rightarrow> string \<Rightarrow> gateway_lease_config \<Rightarrow> nat \<Rightarrow>
     (('w, 'i) task, unit) fut" where
  "cycles L R from_json RT store prefix token config 0 = ret ()"
| "cycles L R from_json RT store prefix token config (Suc n) =
     await (cycle L R from_json RT store prefix token config)
       (\<lambda>_. cycles L R from_json RT store prefix token config n)"

definition run ::
  "('h, 'u) http_lib \<Rightarrow> 'i router_lib \<Rightarrow> (string \<Rightarrow> string + policy_config) \<Rightarrow>
     ('w, 'i) runtime \<Rightarrow> policy_store \<Rightarrow> string \<Rightarrow> string \<Rightarrow> gateway_lease_config \<Rightarrow> nat \<Rightarrow>
     (('w, 'i) task, unit) fut" where
  "run L R from_json RT store prefix token config n =
     await (refresh_policy L R from_json RT store config) (\<lambda>_.
       await (jittered RT Startup (lc_refresh_interval config)) (\<lambda>d.
         await (lift_shared (rt_sleep RT d)) (\<lambda>_.
           await (set_owned_slot None) (\<lambda>_.
             cycles L R from_json RT store prefix token config n))))"

end
