(* ===== verification/Registration.thy ===== *)
theory Registration
  imports Policy_Store
begin

text \<open>
  Model of \<open>src/redis_admission/registration.rs\<close>: the address lease of a recorder and the
  decoding of the published address. The JSON codec of \<open>Address\<close> (serde) is a pair of
  arguments; the locale \<open>address_codec\<close> states that it is a codec and produces an object.
\<close>

section \<open>UTF-8\<close>

text \<open>\<open>std::str::from_utf8\<close>: well-formed UTF-8 in the sense of the Unicode standard.\<close>

definition cont_byte :: "char \<Rightarrow> bool" where
  "cont_byte c \<longleftrightarrow> 0x80 \<le> byte c \<and> byte c \<le> 0xBF"

definition second_byte :: "nat \<Rightarrow> nat \<Rightarrow> bool" where
  "second_byte a b \<longleftrightarrow>
     (if a = 0xE0 then 0xA0 \<le> b \<and> b \<le> 0xBF
      else if a = 0xED then 0x80 \<le> b \<and> b \<le> 0x9F
      else if a = 0xF0 then 0x90 \<le> b \<and> b \<le> 0xBF
      else if a = 0xF4 then 0x80 \<le> b \<and> b \<le> 0x8F
      else 0x80 \<le> b \<and> b \<le> 0xBF)"

fun utf8_valid :: "string \<Rightarrow> bool" where
  "utf8_valid [] = True"
| "utf8_valid (a # s) =
     (if byte a < 0x80 then utf8_valid s
      else if 0xC2 \<le> byte a \<and> byte a \<le> 0xDF then
        (case s of b # s' \<Rightarrow> cont_byte b \<and> utf8_valid s' | _ \<Rightarrow> False)
      else if 0xE0 \<le> byte a \<and> byte a \<le> 0xEF then
        (case s of b # c # s' \<Rightarrow> second_byte (byte a) (byte b) \<and> cont_byte c \<and> utf8_valid s' | _ \<Rightarrow> False)
      else if 0xF0 \<le> byte a \<and> byte a \<le> 0xF4 then
        (case s of
           b # c # d # s' \<Rightarrow>
             second_byte (byte a) (byte b) \<and> cont_byte c \<and> cont_byte d \<and> utf8_valid s'
         | _ \<Rightarrow> False)
      else False)"

lemma utf8_valid_ascii: "is_ascii s \<Longrightarrow> utf8_valid s"
  by (induction s) auto

section \<open>Definitions\<close>

record address =
  ad_url :: string
  ad_owner :: string

record recorder_registration =
  rg_key :: string
  rg_value :: string
  rg_ttl_ms :: nat

definition registration_new ::
  "('h, 'u) http_lib \<Rightarrow> (address \<Rightarrow> string + string) \<Rightarrow> ('w, 'i) runtime \<Rightarrow> string \<Rightarrow> 'u \<Rightarrow> duration \<Rightarrow>
     (('w, 'i) task, admission_error + recorder_registration) fut" where
  "registration_new L to_json RT key url ttl =
     (case bind_ok (ticket_new L ''registration'' ''validation'') (\<lambda>t. with_origin L t url) of
        Inl e \<Rightarrow> ret (Inl e)
      | Inr _ \<Rightarrow>
          (let ms = as_millis ttl
           in if key = [] \<or> ms = 0 \<or> ms > i64_max \<or> subsec_nanos ttl mod 1000000 \<noteq> 0
              then ret (Inl (Backend ''registration key and whole-millisecond TTL must be valid''))
              else await (random_u128 RT) (\<lambda>r.
                     ret (bind_ok
                       (map_err Backend (to_json \<lparr>ad_url = uri_to_string L url, ad_owner = hex32 r\<rparr>))
                       (\<lambda>value. Inr \<lparr>rg_key = key, rg_value = value, rg_ttl_ms = ms\<rparr>)))))"

definition registration_register ::
  "('w, 'i) runtime \<Rightarrow> recorder_registration \<Rightarrow> (('w, 'i) task, admission_error + bool) fut" where
  "registration_register RT self = reserve RT (rg_key self) (rg_value self) (rg_ttl_ms self)"

definition registration_transition ::
  "('w, 'i) runtime \<Rightarrow> recorder_registration \<Rightarrow> lua_script \<Rightarrow>
     (('w, 'i) task, admission_error + bool) fut" where
  "registration_transition RT self script =
     eval_transition ''unexpected Redis registration response'' RT script (rg_key self)
       [rg_value self, show_nat (rg_ttl_ms self)]"

definition registration_renew ::
  "('w, 'i) runtime \<Rightarrow> recorder_registration \<Rightarrow> (('w, 'i) task, admission_error + bool) fut" where
  "registration_renew RT self = registration_transition RT self RENEW"

definition registration_unregister ::
  "('w, 'i) runtime \<Rightarrow> recorder_registration \<Rightarrow> (('w, 'i) task, admission_error + bool) fut" where
  "registration_unregister RT self = registration_transition RT self COMPLETE"

definition recorder_origin ::
  "('h, 'u) http_lib \<Rightarrow> (string \<Rightarrow> address option) \<Rightarrow> string \<Rightarrow> admission_error + 'u" where
  "recorder_origin L from_json bytes =
     (if \<not> utf8_valid bytes then Inl InvalidRecorderUrl
      else bind_ok
             (if starts_with ''{'' (trim_start bytes)
              then (case from_json bytes of
                      None \<Rightarrow> Inl InvalidRecorderUrl
                    | Some address \<Rightarrow>
                        if trim_is_empty (ad_owner address) then Inl InvalidRecorderUrl
                        else Inr (ad_url address))
              else Inr bytes)
             (\<lambda>url. case uri_parse L url of None \<Rightarrow> Inl InvalidRecorderUrl | Some u \<Rightarrow> Inr u))"

section \<open>The codec\<close>

definition is_origin :: "('h, 'u) http_lib \<Rightarrow> 'u \<Rightarrow> bool" where
  "is_origin L u \<longleftrightarrow>
     uri_scheme L u = Some ''http'' \<and> uri_authority L u \<noteq> None \<and> uri_path L u = ''/'' \<and> uri_query L u = None"

locale address_codec = http_crate L
  for L :: "('h, 'u) http_lib" +
  fixes to_json :: "address \<Rightarrow> string + string"
    and from_json :: "string \<Rightarrow> address option"
  assumes decode_encode: "to_json a = Inr s \<Longrightarrow> from_json s = Some a"
    and encode_object: "to_json a = Inr s \<Longrightarrow> starts_with ''{'' s"
    and encode_ascii: "to_json a = Inr s \<Longrightarrow> is_ascii (ad_url a) \<Longrightarrow> is_ascii (ad_owner a) \<Longrightarrow> is_ascii s"
    and origin_roundtrip: "uri_parse L s = Some u \<Longrightarrow> is_origin L u \<Longrightarrow> uri_parse L (uri_to_string L u) = Some u"
    and origin_ascii: "uri_parse L s = Some u \<Longrightarrow> is_origin L u \<Longrightarrow> is_ascii (uri_to_string L u)"
begin

lemma published_origin:
  assumes enc: "to_json \<lparr>ad_url = uri_to_string L u, ad_owner = hex32 r\<rparr> = Inr value"
    and u: "uri_parse L s = Some u" "is_origin L u"
  shows "recorder_origin L from_json value = Inr u"
proof -
  from encode_ascii [OF enc] origin_ascii [OF u] have "utf8_valid value"
    by (simp add: hex32_ascii utf8_valid_ascii)
  moreover obtain rest where rest: "value = CHR ''{'' # rest"
    using encode_object [OF enc] by (cases "value") auto
  moreover have "trim_start value = value"
    by (simp add: rest trim_start_no_ws ws_len_graphic)
  ultimately show ?thesis
    by (simp add: recorder_origin_def decode_encode [OF enc, unfolded rest] hex32_not_blank origin_roundtrip [OF u])
qed

end

section \<open>An executable codec\<close>

definition quote_json :: "address \<Rightarrow> string + string" where
  "quote_json a =
     (if CHR 0x22 \<in> set (ad_url a) \<or> CHR 0x22 \<in> set (ad_owner a) then Inl ''unsupported character''
      else Inr (join_with CHR 0x22
        [''{'', ''url'', '':'', ad_url a, '','', ''owner'', '':'', ad_owner a, ''}'']))"

definition unquote_json :: "string \<Rightarrow> address option" where
  "unquote_json s =
     (case split_on CHR 0x22 s of
        [''{'', _, _, url, _, _, _, owner, ''}''] \<Rightarrow> Some \<lparr>ad_url = url, ad_owner = owner\<rparr>
      | _ \<Rightarrow> None)"

lemma split_on_pieces:
  "ps \<noteq> [] \<Longrightarrow> \<forall>p \<in> set ps. d \<notin> set p \<Longrightarrow> split_on d (join_with d ps) = ps"
proof (induction d ps rule: join_with.induct)
  case (3 d p q ps)
  then show ?case by (simp add: split_on_append_delim split_on_no_occurrence)
qed (auto simp: split_on_no_occurrence)

lemma unquote_quote:
  assumes "quote_json a = Inr s"
  shows "unquote_json s = Some a"
proof -
  let ?ps = "[''{'', ''url'', '':'', ad_url a, '','', ''owner'', '':'', ad_owner a, ''}'']"
  from assms have s: "s = join_with CHR 0x22 ?ps" and "\<forall>p \<in> set ?ps. CHR 0x22 \<notin> set p"
    by (auto simp: quote_json_def split: if_splits)
  then have "split_on CHR 0x22 s = ?ps" by (metis list.distinct(1) split_on_pieces)
  then show ?thesis by (simp add: unquote_json_def)
qed

lemma simple_parse_origin:
  assumes "simple_parse s = Some u" and "is_origin assoc_lib u"
  obtains a where "u = \<lparr>su_scheme = Some ''http'', su_authority = Some a, su_path_query = ''/''\<rparr>"
    and "a \<noteq> []" and "CHR ''/'' \<notin> set a" and "CHR ''?'' \<notin> set a" and "is_ascii a"
proof -
  have scheme: "su_scheme u = Some ''http''" using assms(2) by (simp add: is_origin_def assoc_lib_def)
  with assms(1) obtain r where s: "s = ''http://'' @ r" and asc: "is_ascii s"
    by (auto simp: simple_parse_def strip_prefix_Some_iff split: if_splits option.splits)
  let ?a = "takeWhile (\<lambda>c. c \<noteq> CHR ''/'' \<and> c \<noteq> CHR ''?'') r"
  let ?p = "dropWhile (\<lambda>c. c \<noteq> CHR ''/'' \<and> c \<noteq> CHR ''?'') r"
  from assms(1) s asc have u: "u = \<lparr>su_scheme = Some ''http'', su_authority = Some ?a,
      su_path_query = (if ?p = [] then ''/'' else ?p)\<rparr>" and ne: "?a \<noteq> []"
    by (auto simp: simple_parse_def Let_def strip_prefix_def split: if_splits)
  have "su_path_query u = ''/''"
  proof (rule ccontr)
    assume "su_path_query u \<noteq> ''/''"
    with assms(2) show False
      by (auto simp: is_origin_def assoc_lib_def split_path_query_def split: list.splits)
  qed
  with u have "u = \<lparr>su_scheme = Some ''http'', su_authority = Some ?a, su_path_query = ''/''\<rparr>" by simp
  moreover have "is_ascii ?a" using asc s by (auto simp: is_ascii_def list_all_iff dest: set_takeWhileD)
  ultimately show thesis using ne that [of ?a] by (auto dest: set_takeWhileD)
qed

interpretation quoted: address_codec assoc_lib quote_json unquote_json
proof (unfold_locales, goal_cases)
  case (1 a s)
  then show ?case by (rule unquote_quote)
next
  case (2 a s)
  then show ?case by (auto simp: quote_json_def split: if_splits)
next
  case (3 a s)
  then show ?case by (auto simp: quote_json_def split: if_splits)
next
  case (4 s u)
  then have p: "simple_parse s = Some u" by (simp add: assoc_lib_def)
  show ?case
  proof (rule simple_parse_origin [OF p 4(2)])
    fix a
    assume u: "u = \<lparr>su_scheme = Some ''http'', su_authority = Some a, su_path_query = ''/''\<rparr>"
      and a: "a \<noteq> []" "CHR ''/'' \<notin> set a" "CHR ''?'' \<notin> set a" "is_ascii a"
    then have "\<forall>c \<in> set a. c \<noteq> CHR ''/'' \<and> c \<noteq> CHR ''?''" by auto
    then have "takeWhile (\<lambda>c. c \<noteq> CHR ''/'' \<and> c \<noteq> CHR ''?'') (a @ ''/'') = a"
      "dropWhile (\<lambda>c. c \<noteq> CHR ''/'' \<and> c \<noteq> CHR ''?'') (a @ ''/'') = ''/''"
      by (simp_all add: takeWhile_append2 dropWhile_append2)
    with u a show ?thesis by (simp add: assoc_lib_def simple_parse_def strip_prefix_def)
  qed
next
  case (5 s u)
  then have p: "simple_parse s = Some u" by (simp add: assoc_lib_def)
  show ?case by (rule simple_parse_origin [OF p 5(2)]) (simp add: assoc_lib_def)
qed

section \<open>Properties\<close>

text \<open>
  C31: a registration publishes what gateways read. When a recorder's registration is accepted,
  its key and time-to-live are the given ones (positive whole milliseconds that fit Redis), its
  value carries a fresh 32-digit owner, and a gateway that reads this value from the discovery
  key decodes exactly the registered URL.
\<close>

theorem registration_publishes_origin:
  assumes "address_codec L to_json from_json" and "uri_parse L text = Some url"
    and "registration_new L to_json RT key url ttl t = (Ready (Inr reg), t')"
  shows "rg_key reg = key \<and> key \<noteq> [] \<and> 0 < rg_ttl_ms reg \<and> rg_ttl_ms reg \<le> i64_max \<and>
    from_millis (rg_ttl_ms reg) = ttl \<and>
    (\<exists>r. to_json \<lparr>ad_url = uri_to_string L url, ad_owner = hex32 r\<rparr> = Inr (rg_value reg)) \<and>
    recorder_origin L from_json (rg_value reg) = Inr url"
proof -
  have origin: "is_origin L url"
    and ttl: "key \<noteq> []" "as_millis ttl \<noteq> 0" "as_millis ttl \<le> i64_max" "subsec_nanos ttl mod 1000000 = 0"
    using assms(3)
    by (auto simp: registration_new_def is_origin_def bind_ok_def with_origin_def Let_def
        split: sum.splits if_splits)
  obtain r where enc: "to_json \<lparr>ad_url = uri_to_string L url, ad_owner = hex32 r\<rparr> = Inr (rg_value reg)"
    and "rg_key reg = key" and "rg_ttl_ms reg = as_millis ttl"
    using assms(3) ttl
    by (auto simp: registration_new_def Let_def await_def random_u128_def bind_ok_Inr_iff
        split: sum.splits if_splits prod.splits)
  with ttl whole_millis_roundtrip [OF ttl(4)]
    address_codec.published_origin [OF assms(1) enc assms(2) origin]
  show ?thesis by auto
qed

definition sample_url :: simple_uri where
  "sample_url = \<lparr>su_scheme = Some ''http'', su_authority = Some ''10.0.0.12:9001'', su_path_query = ''/''\<rparr>"

theorem registration_publishes_origin_witness:
  "\<exists>reg t'. registration_new assoc_lib quote_json simple_runtime ''rec:url'' sample_url (from_secs 30)
       \<lparr>tk_shared = (sample_shared Map.empty :: (simple_world, nat) shared), tk_log = []\<rparr> = (Ready (Inr reg), t') \<and>
     rg_ttl_ms reg = 30000 \<and> recorder_origin assoc_lib unquote_json (rg_value reg) = Inr sample_url"
proof -
  let ?t = "\<lparr>tk_shared = (sample_shared Map.empty :: (simple_world, nat) shared), tk_log = []\<rparr>"
  have url: "uri_parse assoc_lib ''http://10.0.0.12:9001'' = Some sample_url" by code_simp
  have "is_ok (bind_ok (ticket_new assoc_lib ''registration'' ''validation'') (\<lambda>t. with_origin assoc_lib t sample_url))"
    by code_simp
  then obtain tk where tk: "bind_ok (ticket_new assoc_lib ''registration'' ''validation'')
      (\<lambda>t. with_origin assoc_lib t sample_url) = Inr tk" by (auto simp: is_ok_iff)
  have "CHR 0x22 \<notin> set (uri_to_string assoc_lib sample_url)" by code_simp
  moreover have "CHR 0x22 \<notin> set (hex32 r)" for r using hex32_graphic [of "CHR 0x22" r] by auto
  ultimately obtain v where v: "quote_json \<lparr>ad_url = uri_to_string assoc_lib sample_url, ad_owner = hex32 7\<rparr> = Inr v"
    by (simp add: quote_json_def)
  have ms: "as_millis (from_secs 30) = 30000" "subsec_nanos (from_secs 30) = 0"
    by (simp_all add: as_millis_def from_secs_def subsec_nanos_def)
  have "registration_new assoc_lib quote_json simple_runtime ''rec:url'' sample_url (from_secs 30) ?t =
    (Ready (Inr \<lparr>rg_key = ''rec:url'', rg_value = v, rg_ttl_ms = 30000\<rparr>), ?t)"
    using v by (simp add: registration_new_def tk ms await_def random_u128_def simple_runtime_def draw_def
        sample_shared_def)
  from this registration_publishes_origin [OF quoted.address_codec_axioms url this] show ?thesis by simp
qed

text \<open>
  C32: a registration is an exclusive lease. A confirmed register or renew means that Redis holds
  this registration's value on the recorder key until its time-to-live has passed since the call
  began, as long as other clients leave that value alone before its deadline. A definite answer
  of renew or unregister tells whether the key held exactly this value at one moment during the
  call, and only then the key was touched: a stale owner cannot extend or delete a replacement.
\<close>

theorem registration_lease:
  assumes "token_link exec live RT db set_db rely (rg_key reg) (rg_value reg)"
    and "0 < rg_ttl_ms reg" and "rg_ttl_ms reg \<le> i64_max"
  shows "(registration_register RT reg t = (Ready (Inr True), t') \<or>
      registration_renew RT reg t = (Ready (Inr True), t') \<longrightarrow>
      (\<forall>d. d \<le> sh_now (tk_shared t) + from_millis (rg_ttl_ms reg) \<longrightarrow> sh_now (tk_shared t') < d \<longrightarrow>
         holds_until (live (sh_now (tk_shared t')) (db (sh_world (tk_shared t'))) (rg_key reg)) (rg_value reg) d)) \<and>
    (script = RENEW \<and> registration_renew RT reg t = (Ready (Inr b), t') \<or>
      script = COMPLETE \<and> registration_unregister RT reg t = (Ready (Inr b), t') \<longrightarrow>
      (\<exists>s1 d'. rely (tk_shared t) s1 \<and> rely (s1\<lparr>sh_world := set_db d' (sh_world s1)\<rparr>) (tk_shared t') \<and>
         acted live script (rg_key reg) (rg_value reg) (rg_ttl_ms reg) b (sh_now s1) (db (sh_world s1)) d'))"
proof (intro conjI impI allI)
  fix d
  assume run: "registration_register RT reg t = (Ready (Inr True), t') \<or> registration_renew RT reg t = (Ready (Inr True), t')"
    and d: "d \<le> sh_now (tk_shared t) + from_millis (rg_ttl_ms reg)" "sh_now (tk_shared t') < d"
  from run show "holds_until (live (sh_now (tk_shared t')) (db (sh_world (tk_shared t'))) (rg_key reg)) (rg_value reg) d"
    using token_link.reserve_holds [OF assms(1) _ d] token_link.renew_holds [OF assms(1) _ assms(2,3) d]
    by (auto simp: registration_register_def registration_renew_def registration_transition_def)
next
  have link: "redis_link exec live RT db set_db rely" by (rule token_link.axioms(1) [OF assms(1)])
  assume "script = RENEW \<and> registration_renew RT reg t = (Ready (Inr b), t') \<or>
      script = COMPLETE \<and> registration_unregister RT reg t = (Ready (Inr b), t')"
  then show "\<exists>s1 d'. rely (tk_shared t) s1 \<and> rely (s1\<lparr>sh_world := set_db d' (sh_world s1)\<rparr>) (tk_shared t') \<and>
      acted live script (rg_key reg) (rg_value reg) (rg_ttl_ms reg) b (sh_now s1) (db (sh_world s1)) d'"
    using redis_link.transition_acted [OF link, of _ script "rg_key reg" "rg_value reg" _ t b t' "rg_ttl_ms reg"] assms(2,3)
    by (auto simp: registration_renew_def registration_unregister_def registration_transition_def)
qed

theorem registration_lease_witness:
  "\<exists>t'. registration_register simple_runtime \<lparr>rg_key = ''rec:url'', rg_value = ''me'', rg_ttl_ms = 30000\<rparr>
       \<lparr>tk_shared = (sample_shared Map.empty :: (simple_world, nat) shared), tk_log = []\<rparr> = (Ready (Inr True), t') \<and>
     holds_until (simple_live (sh_now (tk_shared t')) (sw_db (sh_world (tk_shared t'))) ''rec:url'') ''me'' 30000000000"
proof -
  let ?t = "\<lparr>tk_shared = (sample_shared Map.empty :: (simple_world, nat) shared), tk_log = []\<rparr>"
  let ?reg = "\<lparr>rg_key = ''rec:url'', rg_value = ''me'', rg_ttl_ms = 30000\<rparr>"
  have "registration_register simple_runtime ?reg ?t = (Ready (Inr True), snd (registration_register simple_runtime ?reg ?t))"
    and late: "sh_now (tk_shared (snd (registration_register simple_runtime ?reg ?t))) < 30000000000"
    by (simp_all add: registration_register_def reserve_def command_def redis_call_def await_ok_def await_def
        simple_runtime_def simple_await_def sample_shared_def simple_exec_def simple_live_def reserve_args_def
        parse_show_nat reserve_reply_def)
  then obtain t' where run: "registration_register simple_runtime ?reg ?t = (Ready (Inr True), t')"
    and late': "sh_now (tk_shared t') < 30000000000" by (metis)
  have "holds_until (simple_live (sh_now (tk_shared t')) (sw_db (sh_world (tk_shared t'))) (rg_key ?reg)) (rg_value ?reg) 30000000000"
    using registration_lease [where live = simple_live and db = sw_db and reg = ?reg and t = ?t and t' = t',
        OF simple_token.token_link_axioms] run late'
    by (simp add: sample_shared_def from_millis_def)
  with run show ?thesis by auto
qed

end
