(* ===== verification/Redis_Admission.thy ===== *)
theory Redis_Admission
  imports Gateway Lease Registration
begin

text \<open>
  Model of \<open>src/redis_admission.rs\<close>: the Redis-backed admission provider. Its clones share the
  discovery state, the policy snapshot and the participation state, which are fields of
  \<open>shared\<close>; what distinguishes providers is the record \<open>redis_provider\<close>. The \<open>Lookup\<close> guard
  of an attempt is dropped on every way out of it, including cancellation; \<open>with_lookup\<close>
  models that scope.
\<close>

section \<open>Configuration\<close>

definition DEFAULT_RECORDING_TTL :: duration where
  "DEFAULT_RECORDING_TTL = from_secs 60"

datatype redis_admission_config_error =
    RecorderKeyConflict
  | EmptyPrefix
  | EmptyRecorderKey
  | InvalidTtl

record redis_provider =
  rp_key_prefix :: string
  rp_recorder_url_key :: string
  rp_ttl_ms :: nat
  rp_participation :: bool
  rp_policy :: policy_store

definition provider_with_ttl ::
  "string \<Rightarrow> string \<Rightarrow> duration \<Rightarrow> redis_admission_config_error + redis_provider" where
  "provider_with_ttl key_prefix recorder_url_key ttl =
     (if key_prefix = [] then Inl EmptyPrefix
      else if recorder_url_key = [] then Inl EmptyRecorderKey
      else if recorder_url_key = key_prefix @ '':api-policy'' \<or>
              recorder_url_key = key_prefix @ '':api-counts''
      then Inl RecorderKeyConflict
      else
        (let ms = as_millis ttl
         in if ms = 0 \<or> ms > i64_max \<or> subsec_nanos ttl mod 1000000 \<noteq> 0 then Inl InvalidTtl
            else Inr \<lparr>rp_key_prefix = key_prefix, rp_recorder_url_key = recorder_url_key,
                      rp_ttl_ms = ms, rp_participation = False,
                      rp_policy = policy_store_new key_prefix\<rparr>))"

definition provider_new ::
  "string \<Rightarrow> string \<Rightarrow> redis_admission_config_error + redis_provider" where
  "provider_new key_prefix recorder_url_key =
     provider_with_ttl key_prefix recorder_url_key DEFAULT_RECORDING_TTL"

definition provider_load_policy ::
  "('h, 'u) http_lib \<Rightarrow> 'i router_lib \<Rightarrow> (string \<Rightarrow> string + policy_config) \<Rightarrow>
     ('w, 'i) runtime \<Rightarrow> redis_provider \<Rightarrow> (('w, 'i) task, admission_error + unit) fut" where
  "provider_load_policy L R policy_json RT self = load_policy L R policy_json RT (rp_policy self)"

definition reservation_ttl :: "redis_provider \<Rightarrow> duration" where
  "reservation_ttl self = from_millis (rp_ttl_ms self)"

text \<open>
  The result of \<open>with_gateway_limit\<close> includes what the spawned background task runs with: the
  final lease configuration and the boot token.
\<close>

definition with_gateway_limit ::
  "('w, 'i) runtime \<Rightarrow> bool \<Rightarrow> redis_provider \<Rightarrow> gateway_lease_config \<Rightarrow>
     (('w, 'i) task, gateway_lease_config_error + redis_provider \<times> gateway_lease_config \<times> string) fut" where
  "with_gateway_limit RT has_runtime self config =
     (if rp_participation self then ret (Inl AlreadyConfigured)
      else if rp_recorder_url_key self = rp_key_prefix self @ '':max-gateways'' \<or>
              Option.bind (strip_prefix (rp_key_prefix self @ '':gateway:'') (rp_recorder_url_key self))
                parse_u64 \<noteq> None
      then ret (Inl LeaseRecorderKeyConflict)
      else await_ok (lease_start RT has_runtime config)
             (\<lambda>(config', token). ret (Inr (self\<lparr>rp_participation := True\<rparr>, config', token))))"

section \<open>Reservations\<close>

definition is_participating :: "redis_provider \<Rightarrow> ('w, 'i) shared \<Rightarrow> bool" where
  "is_participating self s \<longleftrightarrow> \<not> rp_participation self \<or> lease_is_valid s"

definition inflight_key :: "redis_provider \<Rightarrow> string \<Rightarrow> string" where
  "inflight_key self scope = rp_key_prefix self @ '':inflight:'' @ scope"

definition transition ::
  "('h, 'u) http_lib \<Rightarrow> ('w, 'i) runtime \<Rightarrow> redis_provider \<Rightarrow> lua_script \<Rightarrow> 'u admission_ticket \<Rightarrow>
     string list \<Rightarrow> (('w, 'i) task, admission_error + bool) fut" where
  "transition L RT self script ticket args =
     (case ticket_scope L ticket of
        None \<Rightarrow> panic
      | Some scope \<Rightarrow>
          eval_transition ''unexpected Redis admission transition response'' RT script
            (inflight_key self scope) args)"

definition complete ::
  "('h, 'u) http_lib \<Rightarrow> ('w, 'i) runtime \<Rightarrow> redis_provider \<Rightarrow> 'u admission_ticket \<Rightarrow>
     (('w, 'i) task, admission_error + bool) fut" where
  "complete L RT self ticket =
     (case ticket_token L ticket of
        None \<Rightarrow> panic
      | Some token \<Rightarrow> transition L RT self COMPLETE ticket [token])"

definition renew ::
  "('h, 'u) http_lib \<Rightarrow> ('w, 'i) runtime \<Rightarrow> redis_provider \<Rightarrow> 'u admission_ticket \<Rightarrow>
     (('w, 'i) task, admission_error + bool) fut" where
  "renew L RT self ticket =
     (case ticket_token L ticket of
        None \<Rightarrow> panic
      | Some token \<Rightarrow> transition L RT self RENEW ticket [token, show_nat (rp_ttl_ms self)])"

definition owns ::
  "('h, 'u) http_lib \<Rightarrow> ('w, 'i) runtime \<Rightarrow> redis_provider \<Rightarrow> 'u admission_ticket \<Rightarrow>
     (('w, 'i) task, admission_error + bool) fut" where
  "owns L RT self ticket =
     (case ticket_scope L ticket of
        None \<Rightarrow> panic
      | Some scope \<Rightarrow>
          await_ok (command RT [''GET'', inflight_key self scope])
            (\<lambda>result.
               case result of
                 NilReply \<Rightarrow> ret (Inr False)
               | BulkString v \<Rightarrow>
                   (case ticket_token L ticket of
                      None \<Rightarrow> panic
                    | Some token \<Rightarrow> ret (Inr (v = token)))
               | _ \<Rightarrow> ret (Inl (Backend ''unexpected Redis reservation response''))))"

section \<open>Acquisition\<close>

text \<open>
  The scope of a lookup guard: the body says, with a normal outcome, whether it consumed the
  guard with \<open>available\<close>; on every other way out the guard is dropped as it is.
\<close>

definition with_lookup ::
  "lookup \<Rightarrow> (('w, 'i) task, admission_error + bool \<times> 'a) fut \<Rightarrow>
     (('w, 'i) task, admission_error + 'a) fut" where
  "with_lookup guard body t =
     (let update = (\<lambda>t1 f. t1\<lparr>tk_shared := (tk_shared t1)
            \<lparr>sh_discovery := f (sh_now (tk_shared t1)) guard (sh_discovery (tk_shared t1))\<rparr>\<rparr>)
      in case body t of
           (Ready (Inr (available, x)), t1) \<Rightarrow>
             (Ready (Inr x), update t1 (if available then lookup_available else lookup_drop))
         | (Ready (Inl e), t1) \<Rightarrow> (Ready (Inl e), update t1 lookup_drop)
         | (Cancelled, t1) \<Rightarrow> (Cancelled, update t1 lookup_drop)
         | (Panicked, t1) \<Rightarrow> (Panicked, update t1 lookup_drop))"

definition invalid_count :: admission_error where
  "invalid_count = invalid ''API count must be a nonnegative integer''"

text \<open>Whether the quota, if any, leaves room for one more case.\<close>

definition check_quota ::
  "('w, 'i) runtime \<Rightarrow> redis_provider \<Rightarrow> (string \<times> nat) option \<Rightarrow>
     (('w, 'i) task, admission_error + bool) fut" where
  "check_quota RT self quota =
     (case quota of
        None \<Rightarrow> ret (Inr True)
      | Some (field, limit) \<Rightarrow>
          await_ok (command RT [''HGET'', ps_counts_key (rp_policy self), field])
            (\<lambda>v. ret (bind_ok (decimal_reply invalid_count v) (\<lambda>count. Inr (count < limit)))))"

definition count_case ::
  "('w, 'i) runtime \<Rightarrow> redis_provider \<Rightarrow> (string \<times> nat) option \<Rightarrow>
     (('w, 'i) task, admission_error + unit) fut" where
  "count_case RT self quota =
     (case quota of
        None \<Rightarrow> ret (Inr ())
      | Some (field, _) \<Rightarrow>
          await_ok (command RT [''HINCRBY'', ps_counts_key (rp_policy self), field, ''1''])
            (\<lambda>v. ret (case v of
                         IntReply count \<Rightarrow>
                           if count > 0 then Inr ()
                           else Inl (invalid ''unexpected API count increment response'')
                       | _ \<Rightarrow> Inl (invalid ''unexpected API count increment response''))))"

definition request_token :: "('w, 'i) runtime \<Rightarrow> (('w, 'i) task, string) fut" where
  "request_token RT = await (random_u128 RT) (\<lambda>a. await (random_u128 RT) (\<lambda>b. ret (hex32 a @ hex32 b)))"

definition reserve_slot ::
  "('h, 'u) http_lib \<Rightarrow> ('w, 'i) runtime \<Rightarrow> redis_provider \<Rightarrow> string \<Rightarrow> (string \<times> nat) option \<Rightarrow> 'u \<Rightarrow>
     (('w, 'i) task, admission_error + bool \<times> 'u acquire_outcome) fut" where
  "reserve_slot L RT self scope quota origin =
     await (request_token RT) (\<lambda>token.
       case bind_ok (ticket_new L scope token) (\<lambda>t. with_origin L t origin) of
         Inl e \<Rightarrow> ret (Inl e)
       | Inr ticket \<Rightarrow>
           (case ticket_token L ticket of
              None \<Rightarrow> panic
            | Some token' \<Rightarrow>
                await_ok (reserve RT (inflight_key self scope) token' (rp_ttl_ms self)) (\<lambda>reserved.
                  if \<not> reserved then ret (Inr (True, Busy))
                  else await_ok (count_case RT self quota) (\<lambda>_.
                         \<lambda>t. if \<not> is_participating self (tk_shared t)
                             then (Ready (Inl ParticipationLost), t)
                             else (Ready (Inr (True, Acquired ticket)), t)))))"

definition attempt ::
  "('h, 'u) http_lib \<Rightarrow> (string \<Rightarrow> address option) \<Rightarrow> ('w, 'i) runtime \<Rightarrow> redis_provider \<Rightarrow> string \<Rightarrow>
     (string \<times> nat) option \<Rightarrow> (('w, 'i) task, admission_error + bool \<times> 'u acquire_outcome) fut" where
  "attempt L address_json RT self scope quota =
     await_ok (command RT [''GET'', rp_recorder_url_key self]) (\<lambda>result.
       case result of
         NilReply \<Rightarrow> ret (Inr (False, NoRecorder))
       | BulkString bytes \<Rightarrow>
           (case recorder_origin L address_json bytes of
              Inl e \<Rightarrow> ret (Inl e)
            | Inr origin \<Rightarrow>
                await_ok (check_quota RT self quota) (\<lambda>room.
                  if \<not> room then ret (Inr (True, QuotaExhausted))
                  else reserve_slot L RT self scope quota origin))
       | _ \<Rightarrow> ret (Inl InvalidRecorderUrl))"

definition acquire ::
  "('h, 'u) http_lib \<Rightarrow> (string \<Rightarrow> address option) \<Rightarrow> ('w, 'i) runtime \<Rightarrow> redis_provider \<Rightarrow> string \<Rightarrow>
     (string \<times> nat) option \<Rightarrow> (('w, 'i) task, 'u) acquire_fut" where
  "acquire L address_json RT self scope quota t =
     (if \<not> is_participating self (tk_shared t) then (Ready (Inr NotParticipant), t)
      else if inflight_key self scope = rp_recorder_url_key self
      then (Ready (Inl (Backend ''recorder URL key conflicts with slot key'')), t)
      else
        (case try_lookup (sh_now (tk_shared t)) (sh_discovery (tk_shared t)) of
           (Inl CoolingDown, _) \<Rightarrow> (Ready (Inr NoRecorder), t)
         | (Inl InProgress, _) \<Rightarrow> (Ready (Inr Busy), t)
         | (Inr guard, state) \<Rightarrow>
             with_lookup guard (attempt L address_json RT self scope quota)
               (t\<lparr>tk_shared := (tk_shared t)\<lparr>sh_discovery := state\<rparr>\<rparr>)))"

definition acquire_request ::
  "('h, 'u) http_lib \<Rightarrow> 'i router_lib \<Rightarrow> (string \<Rightarrow> address option) \<Rightarrow> ('w, 'i) runtime \<Rightarrow> redis_provider \<Rightarrow>
     string \<Rightarrow> string \<Rightarrow> (('w, 'i) task, 'u) acquire_fut" where
  "acquire_request L R address_json RT self scope path t =
     (if \<not> is_participating self (tk_shared t) then (Ready (Inr NotParticipant), t)
      else
        (case sn_policy (sh_snapshot (tk_shared t)) of
           None \<Rightarrow> (Ready (Inr NotEligible), t)
         | Some policy \<Rightarrow>
             (case api R policy path of
                None \<Rightarrow> panic t
              | Some None \<Rightarrow> (Ready (Inr NotEligible), t)
              | Some (Some field) \<Rightarrow>
                  acquire L address_json RT self scope
                    (map_option (\<lambda>limit. (field, limit)) (cp_case_limit policy)) t)))"

text \<open>
  The provider as the gateway sees it. Its time budget is the timeout around the call, which
  shows as a cancelled await.
\<close>

definition redis_admission ::
  "('h, 'u) http_lib \<Rightarrow> 'i router_lib \<Rightarrow> (string \<Rightarrow> address option) \<Rightarrow> ('w, 'i) runtime \<Rightarrow> redis_provider \<Rightarrow>
     (('w, 'i) task, 'u) admission_provider" where
  "redis_admission L R address_json RT self =
     \<lparr>try_acquire = (\<lambda>_ scope. acquire L address_json RT self scope None),
      try_acquire_request = (\<lambda>_ scope path. acquire_request L R address_json RT self scope path)\<rparr>"

end
