(* ===== verification/Sample_Client.thy ===== *)
theory Sample_Client
  imports Replay
begin

text \<open>
  An HTTP client that can be evaluated: a world in which each authority answers every request
  with a fixed status, status 0 being a refused connection. The witnesses of the proxy and of
  the gateway run in it; no property depends on it.
\<close>

type_synonym sample_world = "string \<Rightarrow> nat"

definition sample_hyper :: "(sample_world, assoc_headers, simple_uri, string, bool) hyper_lib" where
  "sample_hyper =
     \<lparr>hy_request =
        (\<lambda>q w. (Ready (case su_authority (rq_uri q) of
                         None \<Rightarrow> Inl \<lparr>ce_is_connect = True\<rparr>
                       | Some a \<Rightarrow>
                           if w a = 0 then Inl \<lparr>ce_is_connect = True\<rparr>
                           else Inr \<lparr>rs_status = w a,
                                     rs_headers = [(''x-breeze-response-cors'', from_static ''skip'')],
                                     rs_cors = None, rs_body = a\<rparr>), w)),
      hy_collect = (\<lambda>b w. (Ready (Inr (b, None)), w)),
      hy_request_upgrade = (\<lambda>_. 1),
      hy_on_upgrade = (\<lambda>_. 2),
      hy_response_upgrade = (\<lambda>_. 3)\<rparr>"

definition sample_request :: "string \<Rightarrow> string \<Rightarrow> (assoc_headers, simple_uri, string) request" where
  "sample_request m p =
     \<lparr>rq_method = m, rq_uri = \<lparr>su_scheme = None, su_authority = None, su_path_query = p\<rparr>,
      rq_version = ''HTTP/1.1'',
      rq_headers = [(''host'', from_static ''app''), (''origin'', from_static ''https://app''),
                    (ADMISSION_TOKEN_HEADER, from_static ''forged'')],
      rq_ext = no_extensions, rq_body = ''payload''\<rparr>"

text \<open>Both origins are up, and both answer 200.\<close>

definition sample_net :: "(sample_world, assoc_headers, simple_uri, string) net" where
  "sample_net = \<lparr>nw_world = (\<lambda>_. 200), nw_log = []\<rparr>"

interpretation sample_client: http_client sample_hyper
  by unfold_locales (simp_all add: sample_hyper_def)

end
