(* ===== verification/Proxy_Correct.thy ===== *)
theory Proxy_Correct
  imports Sample_Client
begin

text \<open>
  Properties of \<open>src/admission.rs\<close>, \<open>src/proxy.rs\<close> and \<open>src/proxy/replay.rs\<close> with their
  witnesses.
\<close>

section \<open>Tickets\<close>

text \<open>
  C36: a ticket travels through headers without loss. Attaching a well-formed ticket to any
  request, whatever admission headers it carried, and reading the headers back as the
  receiving adapter does gives the same scope and token; only the local origin is dropped.
\<close>

theorem ticket_header_roundtrip:
  assumes "http_crate L" and "ticket_wf L t"
  shows "from_headers L (rq_headers (attach L t r)) = Inr (Some (t\<lparr>at_origin := None\<rparr>))"
  using assms by (rule http_crate.from_headers_attach)

definition sample_ticket :: "simple_uri admission_ticket" where
  "sample_ticket = \<lparr>at_scope = from_static ''writes'', at_token = set_sensitive (from_static ''token''),
                    at_origin = simple_parse ''http://recorder:9001''\<rparr>"

lemma sample_ticket_wf: "ticket_wf assoc_lib sample_ticket"
proof -
  have "ticket_new assoc_lib ''writes'' ''token'' = Inr (sample_ticket\<lparr>at_origin := None\<rparr>)"
    by code_simp
  then show ?thesis by (auto simp: ticket_wf_def)
qed

theorem ticket_header_roundtrip_witness:
  "http_crate assoc_lib \<and> ticket_wf assoc_lib sample_ticket \<and>
   from_headers assoc_lib (rq_headers (attach assoc_lib sample_ticket (sample_request ''POST'' ''/api'')))
     = Inr (Some (sample_ticket\<lparr>at_origin := None\<rparr>))"
  using ticket_header_roundtrip [OF assoc_http.http_crate_axioms sample_ticket_wf]
    assoc_http.http_crate_axioms sample_ticket_wf by blast

text \<open>
  C37: \<open>from_headers\<close> decides exactly. It finds no ticket only when both headers are absent; a
  ticket only when each header occurs once with readable values that pass the validating
  constructor, and then the ticket has those values; everything else is \<open>InvalidTicket\<close>.
\<close>

theorem from_headers_decides:
  assumes "http_crate L"
  shows "from_headers L h =
    (case (hm_get_all L h ADMISSION_SCOPE_HEADER, hm_get_all L h ADMISSION_TOKEN_HEADER) of
       ([], []) \<Rightarrow> Inr None
     | ([sv], [kv]) \<Rightarrow>
         (case (value_to_str L sv, value_to_str L kv) of
            (Some s, Some k) \<Rightarrow> bind_ok (ticket_new L s k) (\<lambda>t. Inr (Some t))
          | _ \<Rightarrow> Inl InvalidTicket)
     | _ \<Rightarrow> Inl InvalidTicket)"
proof -
  have first: "hm_get L h n = (case hm_get_all L h n of [] \<Rightarrow> None | v # _ \<Rightarrow> Some v)" for n
    by (rule http_crate.get_first [OF assms])
  show ?thesis
    by (auto simp: from_headers_def first split: list.splits option.splits)
qed

theorem from_headers_decides_witness:
  "http_crate assoc_lib \<and>
   from_headers assoc_lib [(ADMISSION_SCOPE_HEADER, from_static ''a''), (ADMISSION_SCOPE_HEADER, from_static ''b''),
     (ADMISSION_TOKEN_HEADER, from_static ''k'')] = Inl InvalidTicket"
  using from_headers_decides [OF assoc_http.http_crate_axioms, of "[(ADMISSION_SCOPE_HEADER, from_static ''a''),
     (ADMISSION_SCOPE_HEADER, from_static ''b''), (ADMISSION_TOKEN_HEADER, from_static ''k'')]"]
    assoc_http.http_crate_axioms
  by (simp add: assoc_lib_def)

text \<open>A provider name is registered at most once, and only a nonblank one.\<close>

lemma register_lookup:
  "case register reg name P of
     Inr reg' \<Rightarrow> \<not> trim_is_empty name \<and> registry_get reg name = None \<and>
       registry_get reg' name = Some P \<and> (\<forall>m. m \<noteq> name \<longrightarrow> registry_get reg' m = registry_get reg m)
   | Inl EmptyName \<Rightarrow> trim_is_empty name
   | Inl (Duplicate n) \<Rightarrow> n = name \<and> registry_get reg name \<noteq> None"
  by (auto simp: register_def registry_get_def split: option.splits)

section \<open>Forwarding\<close>

text \<open>The values of a header that are meant for the origin and not for this hop.\<close>

definition end_to_end :: "('h, 'u) http_lib \<Rightarrow> 'h \<Rightarrow> string \<Rightarrow> header_value list" where
  "end_to_end L headers n =
     (if n \<in> set hop_by_hop_names \<or>
         (n \<in> set (nominated L headers) \<and> (is_upgrade L headers \<longrightarrow> n \<noteq> ''upgrade'')) \<or>
         (\<not> is_upgrade L headers \<and> n \<in> {''connection'', ''upgrade''})
      then [] else hm_get_all L headers n)"

lemma end_to_end_stripped:
  "end_to_end L h n = (if n \<in> stripped_names L h (is_upgrade L h) then [] else hm_get_all L h n)"
  by (auto simp: end_to_end_def stripped_names_def)


definition admitted_sample :: "(assoc_headers, simple_uri, string) request" where
  "admitted_sample =
     attach assoc_lib sample_ticket
       ((sample_request ''POST'' ''/api/orders?x=1'')\<lparr>rq_headers :=
          [(''connection'', from_static ''x-breeze-admission-token'')]\<rparr>)"




section \<open>Replay\<close>

text \<open>
  C39: the replay body emits what was collected. Polling it to the end yields one data frame with
  all bytes when there are any and then the trailers when there are any; it reports the end of
  the stream at the start exactly when nothing will be emitted, and its size hint is the exact
  length whenever no trailers follow.
\<close>

theorem replay_body_frames:
  "drain (replay_body bytes trailers) =
     (if bytes = [] then [] else [Data bytes]) @
     (case trailers of None \<Rightarrow> [] | Some t \<Rightarrow> [Trailers t]) \<and>
   is_end_stream (replay_body bytes trailers) = (drain (replay_body bytes trailers) = []) \<and>
   size_hint (replay_body bytes trailers) =
     (if trailers = None then (length bytes, Some (length bytes)) else (0, None))"
  unfolding drain_replay_body
  by (auto simp: is_end_stream_def size_hint_def replay_body_def Let_def split: option.splits)

text \<open>
  C15: an admitted request is sent at most twice. What a recording forward puts on the wire is
  nothing, the buffered request, or the buffered request and one replay. A replay has the same
  body, goes to the original origin, and carries neither ticket nor admission headers.
\<close>

theorem recording_sent_at_most_twice:
  assumes L: "http_crate L" and ok: "origin_ok L r" and rec: "ext_recording (rq_ext r) = Some fallback"
    and run: "forward_recording L H self r peer s = (res, s')"
  shows "\<exists>evs. nw_log s' = nw_log s @ evs \<and> length (sent_of evs) \<le> 2 \<and>
    (\<forall>q \<in> set (sent_of evs). rq_method q = rq_method r \<and> rq_version q = rq_version r) \<and>
    (\<forall>q1 q2. sent_of evs = [q1, q2] \<longrightarrow>
       rq_body q2 = rq_body q1 \<and>
       uri_authority L (rq_uri q1) = target_authority L self r \<and>
       uri_authority L (rq_uri q2) = fp_authority fallback \<and>
       ext_ticket (rq_ext q2) = None \<and>
       hm_get_all L (rq_headers q2) ADMISSION_SCOPE_HEADER = [] \<and>
       hm_get_all L (rq_headers q2) ADMISSION_TOKEN_HEADER = [])"
proof -
  obtain evs b t where log: "nw_log s' = nw_log s @ evs"
    and sent: "sent_of evs = [] \<or> (\<exists>q. wire_request L self (buffered_request r b t) peer = Some q \<and>
      (sent_of evs = [q] \<or> (\<exists>q'. wire_request L fallback
         (retry_request L (buffered_request r b t) (Replayed (replay_body b t))) peer = Some q' \<and>
         sent_of evs = [q, q'])))"
    using forward_recording_log [OF ok rec run] by (auto simp: Let_def)
  have target: "target_authority L self (buffered_request r b t) = target_authority L self r"
    "target_authority L fallback (retry_request L (buffered_request r b t) (Replayed (replay_body b t)))
      = fp_authority fallback"
    by (simp_all add: target_authority_def ticket_origin_def)
  have first: "rq_method q = rq_method r \<and> rq_version q = rq_version r \<and>
      rq_body q = Replayed (replay_body b t) \<and> uri_authority L (rq_uri q) = target_authority L self r"
    if "wire_request L self (buffered_request r b t) peer = Some q" for q
    using that wire_request_sel [OF that] http_crate.wire_request_authority [OF L that] target by simp
  have second: "rq_method q = rq_method r \<and> rq_version q = rq_version r \<and>
      rq_body q = Replayed (replay_body b t) \<and> uri_authority L (rq_uri q) = fp_authority fallback \<and>
      ext_ticket (rq_ext q) = None \<and>
      hm_get_all L (rq_headers q) ADMISSION_SCOPE_HEADER = [] \<and>
      hm_get_all L (rq_headers q) ADMISSION_TOKEN_HEADER = []"
    if w: "wire_request L fallback
      (retry_request L (buffered_request r b t) (Replayed (replay_body b t))) peer = Some q" for q
    using wire_request_sel [OF w] http_crate.wire_request_authority [OF L w] target
      http_crate.wire_retry_unticketed [OF L w]
    by simp
  from log sent first second show ?thesis by fastforce
qed

definition recording_sample :: "(assoc_headers, simple_uri, string) request" where
  "recording_sample =
     admitted_sample\<lparr>rq_ext := (rq_ext admitted_sample)\<lparr>ext_recording :=
       Some \<lparr>fp_scheme = ''http'', fp_authority = Some ''original:9000''\<rparr>\<rparr>\<rparr>"

text \<open>A stopped recorder: connections to it are refused, the original origin answers 200.\<close>

definition stopped_recorder :: "(sample_world, assoc_headers, simple_uri, string) net" where
  "stopped_recorder = sample_net\<lparr>nw_world := (\<lambda>a. if a = ''recorder:9001'' then 0 else 200)\<rparr>"

lemma recording_sample_ok: "origin_ok assoc_lib recording_sample"
proof -
  have "ticket_origin recording_sample = simple_parse ''http://recorder:9001''"
    by (simp add: ticket_origin_def recording_sample_def admitted_sample_def sample_ticket_def)
  moreover have "uri_authority assoc_lib (the (simple_parse ''http://recorder:9001'')) \<noteq> None"
    by code_simp
  ultimately show ?thesis by (metis option.sel origin_ok_def)
qed

theorem recording_sent_at_most_twice_witness:
  "\<exists>q1 q2. sent_of (nw_log (snd (forward_recording assoc_lib sample_hyper proxy_from_admission
       recording_sample ''10.0.0.7'' stopped_recorder))) = [q1, q2] \<and>
     rq_body q2 = rq_body q1 \<and> uri_authority assoc_lib (rq_uri q2) = Some ''original:9000'' \<and>
     hm_get_all assoc_lib (rq_headers q2) ADMISSION_TOKEN_HEADER = []"
proof -
  let ?run = "forward_recording assoc_lib sample_hyper proxy_from_admission recording_sample
    ''10.0.0.7'' stopped_recorder"
  have two: "length (sent_of (nw_log (snd ?run))) = 2" by code_simp
  have rec: "ext_recording (rq_ext recording_sample) =
      Some \<lparr>fp_scheme = ''http'', fp_authority = Some ''original:9000''\<rparr>"
    by (simp add: recording_sample_def)
  have log0: "nw_log stopped_recorder = []" by (simp add: stopped_recorder_def sample_net_def)
  from two obtain q1 q2 where "sent_of (nw_log (snd ?run)) = [q1, q2]"
    by (auto simp: numeral_2_eq_2 length_Suc_conv)
  with recording_sent_at_most_twice [OF assoc_http.http_crate_axioms recording_sample_ok rec
      surjective_pairing [of ?run]] log0
  show ?thesis by auto
qed

text \<open>
  C16: when the single replay happens. After the body was collected and the first request was
  sent, a connection failure, or a 404 outside an upgrade, leads to the replay; any other
  response is returned with its status, and any other client error is answered 502. After a
  connection failure the replay gets the upgrade handle that the first attempt left untouched.
\<close>

theorem replay_decision:
  assumes rec: "ext_recording (rq_ext r) = Some fallback"
    and col: "hy_collect H (rq_body r) (nw_world s) = (Ready (Inr (bytes, trailers)), w1)"
    and wire: "wire_request L self (buffered_request r bytes trailers) peer = Some q"
    and req: "hy_request H q w1 = (Ready out, w2)"
  shows "case out of
      Inl e \<Rightarrow>
        forward_recording L H self r peer s =
          (if ce_is_connect e
           then replay_step L H fallback (buffered_request r bytes trailers) peer (on_upgrade_handle L H r)
           else ret (upstream_unavailable L))
            (s\<lparr>nw_world := w2, nw_log := nw_log s @ [Sent q]\<rparr>)
    | Inr resp \<Rightarrow>
        if \<not> is_upgrade L (rq_headers r) \<and> rs_status resp = 404
        then forward_recording L H self r peer s =
          replay_step L H fallback (buffered_request r bytes trailers) peer None
            (s\<lparr>nw_world := w2, nw_log := nw_log s @ [Sent q]\<rparr>)
        else \<exists>final s'. forward_recording L H self r peer s = (Ready final, s') \<and>
          rs_status final = rs_status resp \<and> sent_of (nw_log s') = sent_of (nw_log s) @ [q]"
proof -
  let ?s1 = "s\<lparr>nw_world := w1\<rparr>" and ?s2 = "s\<lparr>nw_world := w2, nw_log := nw_log s @ [Sent q]\<rparr>"
  note run = forward_recording_collected [where L = L and self = self and peer = peer, OF rec col]
  note step = try_forward_body_sent [OF wire, of H "on_upgrade_handle L H r" ?s1]
  from req have send: "send_request H q ?s1 = (Ready out, ?s2)"
    by (simp add: send_request_eq)
  show ?thesis
  proof (cases out)
    case (Inl e)
    with send have "try_forward_body L H self (buffered_request r bytes trailers) peer
        (on_upgrade_handle L H r) ?s1 =
      (Ready (if ce_is_connect e then Inl ConnectFailure else Inr (upstream_unavailable L),
         on_upgrade_handle L H r), ?s2)"
      by (simp add: step await_Ready)
    with Inl show ?thesis
      by (simp add: run await_Ready upstream_unavailable_def error_response_def)
  next
    case (Inr resp)
    obtain res1 s3 where fin: "finish_response L H (ext_upgrades (rq_ext r)) (on_upgrade_handle L H r) resp ?s2
        = (res1, s3)" by fastforce
    from finish_response_log [OF fin] obtain final d where
      res1: "res1 = Ready (Inr final, d)" and st: "rs_status final = rs_status resp"
      and d: "d = (if rs_status resp = 101 then None else on_upgrade_handle L H r)"
      and log: "sent_of (nw_log s3) = sent_of (nw_log s) @ [q]"
      by (auto split: option.splits if_splits)
    have first: "try_forward_body L H self (buffered_request r bytes trailers) peer
        (on_upgrade_handle L H r) ?s1 = (Ready (Inr final, d), s3)"
      using send Inr fin res1 by (simp add: step await_Ready)
    show ?thesis
    proof (cases "\<not> is_upgrade L (rq_headers r) \<and> rs_status resp = 404")
      case True
      then have "s3 = ?s2" using fin by (simp add: finish_response_def)
      with True first Inr st d show ?thesis
        by (simp add: run await_Ready on_upgrade_handle_def)
    next
      case False
      with first Inr st log show ?thesis by (auto simp: run await_Ready)
    qed
  qed
qed

theorem replay_decision_witness:
  "\<exists>q. forward_recording assoc_lib sample_hyper proxy_from_admission recording_sample ''10.0.0.7''
      stopped_recorder =
    replay_step assoc_lib sample_hyper \<lparr>fp_scheme = ''http'', fp_authority = Some ''original:9000''\<rparr>
      (buffered_request recording_sample ''payload'' None) ''10.0.0.7''
      (on_upgrade_handle assoc_lib sample_hyper recording_sample)
      (stopped_recorder\<lparr>nw_log := [Sent q]\<rparr>)"
proof -
  let ?w = "nw_world stopped_recorder"
  have rec: "ext_recording (rq_ext recording_sample) =
      Some \<lparr>fp_scheme = ''http'', fp_authority = Some ''original:9000''\<rparr>"
    by (simp add: recording_sample_def)
  have col: "hy_collect sample_hyper (rq_body recording_sample) ?w = (Ready (Inr (''payload'', None)), ?w)"
    by (simp add: sample_hyper_def recording_sample_def admitted_sample_def sample_request_def)
  have "wire_request assoc_lib proxy_from_admission (buffered_request recording_sample ''payload'' None)
      ''10.0.0.7'' \<noteq> None" by code_simp
  then obtain q where q: "wire_request assoc_lib proxy_from_admission
      (buffered_request recording_sample ''payload'' None) ''10.0.0.7'' = Some q" by blast
  have "target_authority assoc_lib proxy_from_admission
      (buffered_request recording_sample ''payload'' None :: (_, _, (_, string) gateway_body) request) =
      Some ''recorder:9001''" by code_simp
  with assoc_http.wire_request_authority [OF q] have "su_authority (rq_uri q) = Some ''recorder:9001''"
    by (simp add: assoc_lib_def)
  then have req: "hy_request sample_hyper q ?w = (Ready (Inl \<lparr>ce_is_connect = True\<rparr>), ?w)"
    by (simp add: sample_hyper_def stopped_recorder_def)
  have "nw_log stopped_recorder = []" by (simp add: stopped_recorder_def sample_net_def)
  with replay_decision [OF rec col q req] show ?thesis by auto
qed

end
