(* ===== verification/Gateway_Correct.thy ===== *)
theory Gateway_Correct
  imports Gateway Segment_Router Proxy_Correct
begin

text \<open>
  What \<open>Gateway::handle\<close> guarantees: where a request goes, what it carries when it leaves, what
  the client sees, and that a gateway built by the constructors never panics. The executable
  instance at the end evaluates the handler on concrete requests.
\<close>

section \<open>Where a request goes\<close>

lemma excluded_effective:
  assumes "is_excluded R (gw_routes g) (rq_method r) (uri_path L (rq_uri r))"
  shows "effective_rule L R g r = Some None"
    and "select R (gw_routes g) (rq_method r) (uri_path L (rq_uri r)) = None"
  using assms
  by (simp_all add: effective_rule_def global_rule_def select_def split: option.splits)

lemma handle_excluded:
  assumes "local_preflight L C g r = None"
    and "is_excluded R (gw_routes g) (rq_method r) (uri_path L (rq_uri r))"
  shows "handle L R C H g r peer = answer L C g r (forward L H (gw_fallback g) (sanitize L C r) peer)"
  using assms excluded_effective [of R g "sanitize L C r" L]
  by (auto simp: handle_cases dispatch_def)

lemma handle_admission:
  assumes pre: "local_preflight L C g r = None"
    and rule: "effective_rule L R g (sanitize L C r) = Some (Some rule)"
    and prov: "registry_get (gw_admission g) (ar_provider rule) = Some P"
    and contract: "provider_contract L P I" and world: "I (nw_world s)"
    and acq: "acquisition L P (global_rule L R g (sanitize L C r) \<noteq> None) rule (sanitize L C r)
                (nw_world s) = (out, w')"
  shows "handle L R C H g r peer s =
    (case admits L rule out of
       Some t \<Rightarrow> answer L C g r (gw_matched g (admitted_request L (gw_fallback g) t (sanitize L C r)) peer)
                 (s\<lparr>nw_world := w'\<rparr>)
     | None \<Rightarrow> answer L C g r (forward L H (gw_fallback g) (sanitize L C r) peer)
                 (s\<lparr>nw_world := w'\<rparr>))"
proof -
  have nopanic: "out \<noteq> Panicked"
    using acq provider_contract.acquisition_no_panic [OF contract world] by metis
  have readable: "ticket_scope L t \<noteq> None" if "out = Ready (Inr (Acquired t))" for t
  proof -
    from acq [unfolded that] have "ticket_wf L t"
      by (simp add: ticket_good_def provider_contract.acquisition_good [OF contract, unfolded ticket_good_def])
    then show ?thesis
      using contract by (auto simp: provider_contract_def elim: http_crate.ticket_wfE)
  qed
  have "admit L g (global_rule L R g (sanitize L C r) \<noteq> None) rule (sanitize L C r) s =
    (case admits L rule out of
       Some t \<Rightarrow> (Ready (True, admitted_request L (gw_fallback g) t (sanitize L C r)), s\<lparr>nw_world := w'\<rparr>)
     | None \<Rightarrow> (Ready (False, sanitize L C r), s\<lparr>nw_world := w'\<rparr>))"
    by (rule admit_cases [OF prov acq nopanic readable])
  then show ?thesis
    unfolding handle_cases [OF pre] rule
    by (simp add: await_def [of "admit _ _ _ _ _"] dispatch_def split: option.splits)
qed

lemma handle_unconditional:
  assumes "local_preflight L C g r = None" and "effective_rule L R g (sanitize L C r) = Some None"
  shows "handle L R C H g r peer =
    answer L C g r
      (if select R (gw_routes g) (rq_method r) (uri_path L (rq_uri r)) = None
       then forward L H (gw_fallback g) (sanitize L C r) peer
       else gw_matched g (sanitize L C r) peer)"
  using assms by (simp add: handle_cases dispatch_def)

lemma effective_rule_total:
  assumes "gateway_wf L R g"
  shows "effective_rule L R g r \<noteq> None"
  using assms
  by (auto simp: effective_rule_def gateway_wf_def table_wf_def split: option.splits)

lemma effective_rule_registered:
  assumes "gateway_wf L R g" and "effective_rule L R g r = Some (Some rule)"
  shows "registry_get (gw_admission g) (ar_provider rule) \<noteq> None"
  using assms
  by (auto simp: effective_rule_def global_rule_def gateway_wf_def
      split: option.splits if_splits) (metis nth_mem option.distinct(1))+

text \<open>Every registered provider keeps, in worlds that satisfy \<open>I\<close>, the contract of \<open>AdmissionProvider\<close>.\<close>

definition providers_ok ::
  "('h, 'u) http_lib \<Rightarrow> ('w \<Rightarrow> bool) \<Rightarrow> ('w, 'h, 'u, 'b, 'rc, 'i, 'c) gateway \<Rightarrow> bool" where
  "providers_ok L I g \<longleftrightarrow>
     (\<forall>name P. registry_get (gw_admission g) name = Some P \<longrightarrow> provider_contract L P I)"

lemma providers_okD:
  "providers_ok L I g \<Longrightarrow> registry_get (gw_admission g) name = Some P \<Longrightarrow> provider_contract L P I"
  by (simp add: providers_ok_def)

text \<open>
  The three ways a request can take, for a gateway built by the constructors whose providers
  keep their contract.
\<close>

lemma handle_exhaust:
  assumes wf: "gateway_wf L R g"
    and provs: "providers_ok L I g" and world: "I (nw_world s)"
  obtains
    (local) resp where "local_preflight L C g r = Some resp"
      and "handle L R C H g r peer s = (Ready resp, s)"
  | (fallback) w' where "local_preflight L C g r = None"
      and "handle L R C H g r peer s =
        answer L C g r (forward L H (gw_fallback g) (sanitize L C r) peer) (s\<lparr>nw_world := w'\<rparr>)"
  | (matched) "local_preflight L C g r = None" and "effective_rule L R g (sanitize L C r) = Some None"
      and "handle L R C H g r peer s = answer L C g r (gw_matched g (sanitize L C r) peer) s"
  | (admitted) rule P t w' where "local_preflight L C g r = None"
      and "effective_rule L R g (sanitize L C r) = Some (Some rule)"
      and "registry_get (gw_admission g) (ar_provider rule) = Some P"
      and "acquisition L P (global_rule L R g (sanitize L C r) \<noteq> None) rule (sanitize L C r)
             (nw_world s) = (Ready (Inr (Acquired t)), w')"
      and "ticket_scope L t = Some (ar_scope rule)"
      and "handle L R C H g r peer s =
        answer L C g r (gw_matched g (admitted_request L (gw_fallback g) t (sanitize L C r)) peer)
          (s\<lparr>nw_world := w'\<rparr>)"
proof (cases "local_preflight L C g r")
  case (Some resp)
  then show ?thesis by (rule local [OF _ handle_preflight [OF Some]])
next
  case pre: None
  from effective_rule_total [OF wf] obtain er where er: "effective_rule L R g (sanitize L C r) = Some er"
    by blast
  show ?thesis
  proof (cases er)
    case None
    with er have "effective_rule L R g (sanitize L C r) = Some None" by simp
    then show ?thesis
      using handle_unconditional [OF pre] matched [OF pre] fallback [OF pre, of "nw_world s"]
      by (cases "select R (gw_routes g) (rq_method r) (uri_path L (rq_uri r))") simp_all
  next
    case (Some rule)
    with er have eff: "effective_rule L R g (sanitize L C r) = Some (Some rule)" by simp
    from effective_rule_registered [OF wf eff] obtain P where
      P: "registry_get (gw_admission g) (ar_provider rule) = Some P" by blast
    obtain out w' where acq: "acquisition L P (global_rule L R g (sanitize L C r) \<noteq> None) rule
        (sanitize L C r) (nw_world s) = (out, w')" by fastforce
    note run = handle_admission [OF pre eff P providers_okD [OF provs P] world acq, of H peer]
    show ?thesis
    proof (cases "admits L rule out")
      case None
      with run fallback [OF pre, of w'] show ?thesis by simp
    next
      case (Some t)
      then have "out = Ready (Inr (Acquired t))" and "ticket_scope L t = Some (ar_scope rule)"
        by (auto elim!: admits.elims split: if_splits)
      with Some run admitted [OF pre eff P, of t w'] acq show ?thesis by simp
    qed
  qed
qed

lemma answer_state: "answer L C g r c s = (res, s') \<Longrightarrow> s' = snd (c s)"
  by (auto simp: answer_def await_def split: prod.splits async.splits)

lemma answer_Panicked: "fst (answer L C g r c s) = Panicked \<longleftrightarrow> fst (c s) = Panicked"
  by (auto simp: answer_def await_def split: prod.splits async.splits)

lemma answer_public:
  "answer L C g r c s = (Ready resp, s') \<Longrightarrow>
     \<exists>inner. c s = (Ready inner, s') \<and>
       resp = public_response C (gw_cors g) (request_origin L C g r) inner"
  by (auto simp: answer_def elim!: await_ReadyE)

section \<open>What leaves the gateway\<close>

lemma handle_sent:
  assumes cors: "cors_crate L C" and wf: "gateway_wf L R g"
    and svc: "service_contract L C (gw_matched g)"
    and provs: "providers_ok L I g" and world: "I (nw_world s)"
    and run: "handle L R C H g r peer s = (res, s')"
  shows "\<exists>evs. nw_log s' = nw_log s @ evs \<and> (\<forall>q \<in> set (sent_of evs).
      ticket_consistent L q \<and>
      hm_get_all L (rq_headers q) (response_cors_header C) = [] \<and>
      (\<forall>t. ext_ticket (rq_ext q) = Some t \<longrightarrow>
        (\<exists>rule P. effective_rule L R g (sanitize L C r) = Some (Some rule) \<and>
           registry_get (gw_admission g) (ar_provider rule) = Some P \<and>
           fst (acquisition L P (global_rule L R g (sanitize L C r) \<noteq> None) rule (sanitize L C r)
             (nw_world s)) = Ready (Inr (Acquired t)) \<and>
           ticket_scope L t = Some (ar_scope rule))))"
proof -
  note clean = cors_crate.clean_sanitize [OF cors, of r]
  from wf provs world show ?thesis
  proof (cases rule: handle_exhaust [where C = C and H = H and r = r and peer = peer and s = s])
    case (local resp)
    with run show ?thesis by auto
  next
    case (fallback w')
    with run obtain res1 where "forward L H (gw_fallback g) (sanitize L C r) peer (s\<lparr>nw_world := w'\<rparr>) = (res1, s')"
      by (metis answer_state prod.collapse)
    from cors_crate.forward_sends [OF cors clean this] show ?thesis
      by (auto simp: wire_clean_def)
  next
    case matched
    with run obtain res1 where "gw_matched g (sanitize L C r) peer s = (res1, s')"
      by (metis answer_state prod.collapse)
    from service_contract.sends_clean [OF svc clean this] show ?thesis
      by (auto simp: wire_clean_def)
  next
    case (admitted rule P t w')
    let ?q = "admitted_request L (gw_fallback g) t (sanitize L C r)"
    from admitted(4) have "ticket_good L t"
      by (rule provider_contract.acquisition_good [OF providers_okD [OF provs admitted(3)]])
    then have cq: "clean_request L C ?q" by (rule cors_crate.clean_admitted [OF cors clean])
    from admitted(6) run obtain res1 where "gw_matched g ?q peer (s\<lparr>nw_world := w'\<rparr>) = (res1, s')"
      by (metis answer_state prod.collapse)
    from service_contract.sends_clean [OF svc cq this] admitted show ?thesis
      by (fastforce simp: wire_clean_def admitted_request_def Let_def)
  qed
qed

lemma handle_no_panic:
  assumes cors: "cors_crate L C" and client: "http_client H" and wf: "gateway_wf L R g"
    and svc: "service_contract L C (gw_matched g)"
    and provs: "providers_ok L I g" and world: "I (nw_world s)"
  shows "fst (handle L R C H g r peer s) \<noteq> Panicked"
proof -
  note clean = cors_crate.clean_sanitize [OF cors, of r]
  then have ok: "origin_ok L (sanitize L C r)" by (simp add: clean_request_def)
  from wf provs world show ?thesis
  proof (cases rule: handle_exhaust [where C = C and H = H and r = r and peer = peer and s = s])
    case (local resp)
    then show ?thesis by simp
  next
    case (fallback w')
    then show ?thesis by (simp add: answer_Panicked http_client.forward_no_panic [OF client ok])
  next
    case matched
    then show ?thesis by (simp add: answer_Panicked service_contract.serves_no_panic [OF svc clean])
  next
    case (admitted rule P t w')
    from admitted(4) have "ticket_good L t"
      by (rule provider_contract.acquisition_good [OF providers_okD [OF provs admitted(3)]])
    then have "clean_request L C (admitted_request L (gw_fallback g) t (sanitize L C r))"
      by (rule cors_crate.clean_admitted [OF cors clean])
    with admitted(6) show ?thesis by (simp add: answer_Panicked service_contract.serves_no_panic [OF svc])
  qed
qed

section \<open>An executable gateway\<close>

text \<open>
  A CORS engine with one allowed origin and a provider that always grants a ticket for the
  recorder, beside the HTTP client of \<open>Sample_Client\<close>. The route table and the registry come
  from the model's own constructors.
\<close>

definition plain_cors :: "(string, assoc_headers, bool, string) cors_lib" where
  "plain_cors =
     \<lparr>cors_validate = (\<lambda>c. c \<noteq> []),
      cors_preflight =
        (\<lambda>c q. if pf_method q = ''OPTIONS'' \<and> pf_origin q \<noteq> None \<and> pf_request_method q \<noteq> None
               then Some \<lparr>pr_status = (if pf_origin q = Some c then 200 else 400), pr_headers = [],
                          pr_body = ''OK''\<rparr>
               else None),
      cors_apply_response =
        (\<lambda>c origin r. if rs_cors r = Some True \<or> origin \<noteq> Some c then r
                      else r\<lparr>rs_headers := (''access-control-allow-origin'', from_static c) # rs_headers r\<rparr>),
      take_from_headers =
        (\<lambda>h. (map hv_bytes (assoc_get_all h ''x-breeze-response-cors'') = [''skip''],
              assoc_remove h ''x-breeze-response-cors'')),
      response_cors_header = ''x-breeze-response-cors''\<rparr>"

definition static_provider :: "string \<Rightarrow> (sample_world, simple_uri) admission_provider" where
  "static_provider origin =
     lock_only_provider (\<lambda>budget scope w.
       (Ready (bind_ok (ticket_new assoc_lib scope ''token'')
          (\<lambda>t. case simple_parse origin of
                 None \<Rightarrow> Inr NoRecorder
               | Some u \<Rightarrow> bind_ok (with_origin assoc_lib t u) (\<lambda>t'. Inr (Acquired t')))), w))"

definition sample_routes :: routes_config where
  "sample_routes =
     \<lparr>rc_routes =
        [\<lparr>rr_methods = [''POST''], rr_path = ''/api/*rest'',
          rr_admission = Some \<lparr>ar_provider = ''recorder'', ar_scope = ''writes'',
                               ar_acquire_timeout_ms = default_admission_acquire_timeout_ms\<rparr>\<rparr>],
      rc_exclude = [\<lparr>er_methods = [''POST''], er_path = ''/api/events''\<rparr>]\<rparr>"

definition sample_table :: "indexed_rule list route_table" where
  "sample_table =
     (case compile_table assoc_lib segment_router sample_routes of
        Inr t \<Rightarrow> t | Inl _ \<Rightarrow> empty_table segment_router)"

definition sample_registry :: "(sample_world, simple_uri) admission_registry" where
  "sample_registry =
     (case register registry_new ''recorder'' (static_provider ''http://recorder:9001'') of
        Inr reg \<Rightarrow> reg | Inl _ \<Rightarrow> registry_new)"

definition sample_origin :: simple_uri where
  "sample_origin = \<lparr>su_scheme = Some ''http'', su_authority = Some ''original:9000'', su_path_query = ''/''\<rparr>"

type_synonym sample_gateway =
  "(sample_world, assoc_headers, simple_uri, string, bool, indexed_rule list, string) gateway"

definition sample_gateway :: sample_gateway where
  "sample_gateway =
     \<lparr>gw_routes = sample_table,
      gw_matched = origin_call assoc_lib plain_cors sample_hyper origin_from_admission,
      gw_fallback = \<lparr>fp_scheme = ''http'', fp_authority = Some ''original:9000''\<rparr>,
      gw_admission = sample_registry, gw_recording = None, gw_cors = Some ''https://app''\<rparr>"

interpretation plain: cors_crate assoc_lib plain_cors
  by unfold_locales
    (simp_all add: plain_cors_def assoc_lib_def ADMISSION_SCOPE_HEADER_def ADMISSION_TOKEN_HEADER_def
      X_FORWARDED_FOR_def X_FORWARDED_HOST_def X_FORWARDED_PROTO_def)

interpretation static: provider_contract assoc_lib "static_provider origin" "\<lambda>_. True" for origin
proof (unfold_locales, goal_cases)
  case (1 b sc w t w')
  then show ?case
    by (auto simp: static_provider_def lock_only_provider_def bind_ok_Inr_iff with_origin_Inr_iff
        ticket_good_def ticket_wf_def split: option.splits)
      (metis ticket_new_wf ticket_wf_def)+
next
  case (2 b sc p w t w')
  then show ?case
    by (auto simp: static_provider_def lock_only_provider_def bind_ok_Inr_iff with_origin_Inr_iff
        ticket_good_def ticket_wf_def split: option.splits)
      (metis ticket_new_wf ticket_wf_def)+
qed (simp_all add: static_provider_def lock_only_provider_def)

interpretation origin_dispatch: service_contract assoc_lib plain_cors
  "origin_call assoc_lib plain_cors sample_hyper svc" for svc
  by (rule plain.origin_service_contract) (rule sample_client.http_client_axioms)

interpretation reject_dispatch: service_contract assoc_lib plain_cors
  "reject_matched assoc_lib :: (sample_world, assoc_headers, simple_uri, string, bool) service"
  by (rule plain.reject_service_contract)

lemma sample_table_compiled: "compile_table assoc_lib segment_router sample_routes = Inr sample_table"
  by code_simp

lemma sample_registry_eq: "sample_registry = [''recorder'' \<mapsto> static_provider ''http://recorder:9001'']"
proof -
  have "\<not> trim_is_empty ''recorder''" by code_simp
  then show ?thesis by (simp add: sample_registry_def register_def registry_new_def)
qed

lemma sample_gateway_wf: "gateway_wf assoc_lib segment_router sample_gateway"
proof -
  have "table_wf assoc_lib segment_router sample_table"
    by (rule segment_routes.compiled_table_wf [OF sample_table_compiled])
  moreover have "rt_admissions sample_table = map rr_admission (rc_routes sample_routes)"
    by code_simp
  ultimately show ?thesis
    by (auto simp: gateway_wf_def sample_gateway_def sample_registry_eq registry_get_def sample_routes_def)
qed

lemma sample_providers: "providers_ok assoc_lib (\<lambda>_. True) sample_gateway"
  by (auto simp: providers_ok_def sample_gateway_def sample_registry_eq registry_get_def static.provider_contract_axioms
      split: if_splits)

lemma sample_service: "service_contract assoc_lib plain_cors (gw_matched sample_gateway)"
  by (simp add: sample_gateway_def origin_dispatch.service_contract_axioms)

section \<open>Built gateways\<close>

text \<open>The gateways that the public constructors can produce from a route configuration.\<close>

inductive gateway_built ::
  "('h, 'u) http_lib \<Rightarrow> 'i router_lib \<Rightarrow> ('c, 'h, 'rc, 'b) cors_lib \<Rightarrow>
     ('w, 'h, 'u, 'b, 'rc, 'i, 'c) gateway \<Rightarrow> bool"
  for L R C where
  new: "compile_table L R config = Inr routes \<Longrightarrow> gateway_with_admission L routes matched u reg = Inr g \<Longrightarrow>
    gateway_built L R C g"
| recording: "gateway_built L R C g \<Longrightarrow> with_recording_admission L g rule = Inr g' \<Longrightarrow> gateway_built L R C g'"
| cors: "gateway_built L R C g \<Longrightarrow> with_cors C g cors = Inr g' \<Longrightarrow> gateway_built L R C g'"

context routing
begin

lemma gateway_built_wf: "gateway_built L R C g \<Longrightarrow> gateway_wf L R g"
  by (induction rule: gateway_built.induct)
    (blast intro: gateway_with_admission_wf compiled_table_wf with_recording_admission_wf with_cors_wf)+

end

lemma sample_gateway_built: "gateway_built assoc_lib segment_router plain_cors sample_gateway"
proof -
  let ?g = "sample_gateway\<lparr>gw_cors := None\<rparr>"
  have "rt_admissions sample_table = map rr_admission (rc_routes sample_routes)" by code_simp
  then have "missing_provider sample_registry 0 (rt_admissions sample_table) = None"
    by (auto simp: missing_provider_None_iff sample_registry_eq registry_get_def sample_routes_def)
  moreover have "proxy_new assoc_lib sample_origin = Inr (gw_fallback sample_gateway)" by code_simp
  ultimately have "gateway_with_admission assoc_lib sample_table (gw_matched sample_gateway) sample_origin sample_registry = Inr ?g"
    by (simp add: gateway_with_admission_def sample_gateway_def map_err_def)
  from gateway_built.new [OF sample_table_compiled this] have "gateway_built assoc_lib segment_router plain_cors ?g" .
  moreover have "with_cors plain_cors ?g ''https://app'' = Inr sample_gateway"
    by (simp add: with_cors_def plain_cors_def sample_gateway_def)
  ultimately show ?thesis by (rule gateway_built.cors)
qed

section \<open>Properties\<close>

definition sample_preflight :: "(assoc_headers, simple_uri, string) request" where
  "sample_preflight =
     (sample_request ''OPTIONS'' ''/api/orders'')\<lparr>rq_headers :=
        [(''origin'', from_static ''https://app''),
         (''access-control-request-method'', from_static ''POST'')]\<rparr>"

text \<open>
  C28: the order of the decisions. A preflight that the CORS policy answers never leaves the
  gateway: its answer is returned and nothing else happens, whatever the route table says. After
  that exclusions win over routes and over recording admission: an excluded request goes to the
  fallback origin, with neither provider nor matched service called. Without a recording rule, a
  request that no route selects goes to the fallback too, and one whose route has no admission
  rule goes straight to the matched service. What is passed on is always the sanitized request.
\<close>

theorem routing_precedence:
  assumes "gateway_wf L R g"
  shows "case Option.bind (gw_cors g) (\<lambda>cors. preflight L C cors (sanitize L C r)) of
      Some resp \<Rightarrow> handle L R C H g r peer s = (Ready resp, s)
    | None \<Rightarrow>
        if is_excluded R (gw_routes g) (rq_method r) (uri_path L (rq_uri r))
        then handle L R C H g r peer s = answer L C g r (forward L H (gw_fallback g) (sanitize L C r) peer) s
        else gw_recording g = None \<longrightarrow>
          (case select R (gw_routes g) (rq_method r) (uri_path L (rq_uri r)) of
             None \<Rightarrow> handle L R C H g r peer s = answer L C g r (forward L H (gw_fallback g) (sanitize L C r) peer) s
           | Some route \<Rightarrow> route < length (rt_admissions (gw_routes g)) \<and>
               (rt_admissions (gw_routes g) ! route = None \<longrightarrow>
                handle L R C H g r peer s = answer L C g r (gw_matched g (sanitize L C r) peer) s))"
proof (cases "local_preflight L C g r")
  case (Some resp)
  then show ?thesis using handle_preflight [OF Some] by (simp add: local_preflight_def)
next
  case None
  have rule: "gw_recording g = None \<Longrightarrow> effective_rule L R g (sanitize L C r) =
      (case select R (gw_routes g) (rq_method r) (uri_path L (rq_uri r)) of
         None \<Rightarrow> Some None | Some route \<Rightarrow> Some (rt_admissions (gw_routes g) ! route))"
    using effective_rule_total [OF assms, of "sanitize L C r"]
    by (auto simp: effective_rule_def global_rule_def split: option.splits if_splits)
  have range: "select R (gw_routes g) (rq_method r) (uri_path L (rq_uri r)) = Some route \<Longrightarrow>
      route < length (rt_admissions (gw_routes g))" for route
    using assms by (auto simp: gateway_wf_def table_wf_def)
  show ?thesis
    using None handle_excluded [OF None] handle_unconditional [OF None] rule range
    by (auto simp: local_preflight_def split: option.splits)
qed

theorem routing_precedence_witness:
  "(\<exists>resp. handle assoc_lib segment_router plain_cors sample_hyper sample_gateway sample_preflight ''10.0.0.7'' sample_net
       = (Ready resp, sample_net)) \<and>
   handle assoc_lib segment_router plain_cors sample_hyper sample_gateway
      (sample_request ''POST'' ''/api/events'') ''10.0.0.7'' sample_net =
    answer assoc_lib plain_cors sample_gateway (sample_request ''POST'' ''/api/events'')
      (forward assoc_lib sample_hyper (gw_fallback sample_gateway)
        (sanitize assoc_lib plain_cors (sample_request ''POST'' ''/api/events'')) ''10.0.0.7'') sample_net"
proof -
  let ?pre = "\<lambda>r :: (assoc_headers, simple_uri, string) request.
    Option.bind (gw_cors sample_gateway) (\<lambda>cors. preflight assoc_lib plain_cors cors (sanitize assoc_lib plain_cors r))"
  have answered: "?pre sample_preflight \<noteq> None" and pre: "?pre (sample_request ''POST'' ''/api/events'') = None"
    by code_simp+
  have ex: "is_excluded segment_router (gw_routes sample_gateway)
      (rq_method (sample_request ''POST'' ''/api/events''))
      (uri_path assoc_lib (rq_uri (sample_request ''POST'' ''/api/events'')))"
    by code_simp
  from routing_precedence [OF sample_gateway_wf, where C = plain_cors and H = sample_hyper and peer = "''10.0.0.7''"
      and s = sample_net and r = sample_preflight] answered
  have "\<exists>resp. handle assoc_lib segment_router plain_cors sample_hyper sample_gateway sample_preflight ''10.0.0.7'' sample_net
       = (Ready resp, sample_net)" by (auto split: option.splits)
  with routing_precedence [OF sample_gateway_wf, where C = plain_cors and H = sample_hyper and peer = "''10.0.0.7''"
      and s = sample_net and r = "sample_request ''POST'' ''/api/events''"] pre ex
  show ?thesis by simp
qed

text \<open>
  C12: the admission gate. When an admission rule applies, one acquisition decides: the request
  enters the matched service, with the acquired ticket attached and the fallback as replay
  target, exactly when the provider acquired a ticket for the rule's own scope. Every other
  outcome, including errors, a ticket of another scope and an attempt dropped by the timeout,
  forwards the sanitized request to the fallback origin.
\<close>

theorem admission_gate:
  assumes "local_preflight L C g r = None"
    and "effective_rule L R g (sanitize L C r) = Some (Some rule)"
    and "registry_get (gw_admission g) (ar_provider rule) = Some P"
    and "provider_contract L P I" and "I (nw_world s)"
    and "acquisition L P (global_rule L R g (sanitize L C r) \<noteq> None) rule (sanitize L C r)
           (nw_world s) = (out, w')"
  shows "handle L R C H g r peer s =
    (case admits L rule out of
       Some t \<Rightarrow> answer L C g r (gw_matched g (admitted_request L (gw_fallback g) t (sanitize L C r)) peer)
                 (s\<lparr>nw_world := w'\<rparr>)
     | None \<Rightarrow> answer L C g r (forward L H (gw_fallback g) (sanitize L C r) peer)
                 (s\<lparr>nw_world := w'\<rparr>))"
  by (rule handle_admission [OF assms])

abbreviation (input) order_request :: "(assoc_headers, simple_uri, string) request" where
  "order_request \<equiv> sample_request ''POST'' ''/api/orders''"

definition order_rule :: admission_rule where
  "order_rule = \<lparr>ar_provider = ''recorder'', ar_scope = ''writes'',
                 ar_acquire_timeout_ms = default_admission_acquire_timeout_ms\<rparr>"

lemma order_facts:
  "local_preflight assoc_lib plain_cors sample_gateway order_request = None"
  "effective_rule assoc_lib segment_router sample_gateway (sanitize assoc_lib plain_cors order_request)
     = Some (Some order_rule)"
  "admits assoc_lib order_rule (Ready (Inr (Acquired sample_ticket))) = Some sample_ticket"
  by code_simp+

lemma order_acquisition:
  "acquisition assoc_lib (static_provider ''http://recorder:9001'') global order_rule q w =
     (Ready (Inr (Acquired sample_ticket)), w)"
proof -
  have "bind_ok (ticket_new assoc_lib (ar_scope order_rule) ''token'')
      (\<lambda>t. case simple_parse ''http://recorder:9001'' of
             None \<Rightarrow> Inr NoRecorder
           | Some u \<Rightarrow> bind_ok (with_origin assoc_lib t u) (\<lambda>t'. Inr (Acquired t')))
      = Inr (Acquired sample_ticket)"
    by code_simp
  then show ?thesis
    by (simp add: acquisition_def static_provider_def lock_only_provider_def)
qed

lemma order_provider:
  "registry_get (gw_admission sample_gateway) (ar_provider order_rule) =
     Some (static_provider ''http://recorder:9001'')"
  by (simp add: order_rule_def sample_gateway_def sample_registry_eq registry_get_def)

theorem admission_gate_witness:
  "handle assoc_lib segment_router plain_cors sample_hyper sample_gateway order_request ''10.0.0.7'' sample_net =
     answer assoc_lib plain_cors sample_gateway order_request
       (gw_matched sample_gateway
         (admitted_request assoc_lib (gw_fallback sample_gateway) sample_ticket
           (sanitize assoc_lib plain_cors order_request)) ''10.0.0.7'') sample_net"
  using admission_gate [OF order_facts(1,2) order_provider static.provider_contract_axioms TrueI order_acquisition,
      of sample_hyper "''10.0.0.7''" sample_net] order_facts(3)
  by simp

text \<open>
  C13: nothing forged leaves the gateway. Every request that a call of the handler puts on the
  wire carries admission headers exactly when it carries a ticket, with the ticket's values; a
  ticket on the wire was acquired by this very call under the applicable rule and for its
  scope; and the reserved CORS control header is gone. Client-supplied values never survive.
\<close>

theorem handle_sends_only_own_tickets:
  assumes cors: "cors_crate L C" and wf: "gateway_wf L R g"
    and svc: "service_contract L C (gw_matched g)"
    and provs: "providers_ok L I g" and world: "I (nw_world s)"
    and run: "handle L R C H g r peer s = (res, s')"
  shows "\<exists>evs. nw_log s' = nw_log s @ evs \<and> (\<forall>q \<in> set (sent_of evs).
      ticket_consistent L q \<and>
      hm_get_all L (rq_headers q) (response_cors_header C) = [] \<and>
      (\<forall>t. ext_ticket (rq_ext q) = Some t \<longrightarrow>
        (\<exists>rule P. effective_rule L R g (sanitize L C r) = Some (Some rule) \<and>
           registry_get (gw_admission g) (ar_provider rule) = Some P \<and>
           fst (acquisition L P (global_rule L R g (sanitize L C r) \<noteq> None) rule (sanitize L C r)
             (nw_world s)) = Ready (Inr (Acquired t)) \<and>
           ticket_scope L t = Some (ar_scope rule))))"
  by (rule handle_sent [OF assms])

theorem handle_sends_only_own_tickets_witness:
  "\<exists>q. sent_of (nw_log (snd (handle assoc_lib segment_router plain_cors sample_hyper sample_gateway
        order_request ''10.0.0.7'' sample_net))) = [q] \<and>
     ticket_consistent assoc_lib q \<and> ext_ticket (rq_ext q) \<noteq> None"
proof -
  let ?run = "handle assoc_lib segment_router plain_cors sample_hyper sample_gateway
    order_request ''10.0.0.7'' sample_net"
  have one: "map (\<lambda>q. ext_ticket (rq_ext q)) (sent_of (nw_log (snd ?run))) = [Some sample_ticket]"
    by code_simp
  then obtain q where q: "sent_of (nw_log (snd ?run)) = [q]" and "ext_ticket (rq_ext q) = Some sample_ticket"
    by auto
  moreover have "nw_log sample_net = []" by (simp add: sample_net_def)
  ultimately show ?thesis
    using handle_sends_only_own_tickets [OF plain.cors_crate_axioms sample_gateway_wf sample_service
        sample_providers TrueI surjective_pairing [of ?run]]
    by auto
qed





end
