(* ===== verification/Lease_Correct.thy ===== *)
theory Lease_Correct
  imports Lease
begin

text \<open>
  Safety of gateway participation. \<open>lease_inv\<close> ties the local deadline to the Redis lease;
  the locale \<open>lease_link\<close> says what a gateway relies on while it awaits: its local state is its
  own, the clock does not run backwards, and nobody but itself takes its token off a slot
  before the deadline; \<open>Redis_Group\<close> shows that other clients of this program satisfy the last
  condition.
\<close>

section \<open>The invariant\<close>

definition lease_inv ::
  "'db live_view \<Rightarrow> ('w \<Rightarrow> 'db) \<Rightarrow> string \<Rightarrow> string \<Rightarrow> duration \<Rightarrow> ('w, 'i) shared \<Rightarrow> bool" where
  "lease_inv live db prefix token ttl s \<longleftrightarrow>
     (\<forall>d. sh_valid_until s = Some d \<longrightarrow>
        d \<le> sh_now s + ttl \<and>
        (sh_now s < d \<longrightarrow>
          (\<exists>slot. sh_owned_slot s = Some slot \<and>
             holds_until (live (sh_now s) (db (sh_world s)) (slot_key prefix slot)) token d)))"

lemma lease_inv_None: "sh_valid_until s = None \<Longrightarrow> lease_inv live db prefix token ttl s"
  by (simp add: lease_inv_def)

lemma slot_key_inj: "slot_key prefix i = slot_key prefix j \<longleftrightarrow> i = j"
  by (simp add: slot_key_def show_nat_inj)

lemma lease_validate_ok:
  assumes "lease_validate config = Inr u"
  shows "0 < as_millis (lc_lease_ttl config)" and "as_millis (lc_lease_ttl config) \<le> i64_max"
    and "from_millis (as_millis (lc_lease_ttl config)) = lc_lease_ttl config"
    and "3 * lc_refresh_interval config \<le> lc_lease_ttl config" and "0 < lc_refresh_interval config"
proof -
  from assms have ok: "0 < as_millis (lc_lease_ttl config)" "as_millis (lc_lease_ttl config) \<le> i64_max"
    "subsec_nanos (lc_lease_ttl config) mod 1000000 = 0" "0 < as_millis (lc_refresh_interval config)"
    "lc_refresh_interval config \<le> lc_lease_ttl config div 3"
    by (simp_all add: lease_validate_def split: if_splits)
  show "0 < as_millis (lc_lease_ttl config)" and "as_millis (lc_lease_ttl config) \<le> i64_max"
    by (fact ok)+
  show "from_millis (as_millis (lc_lease_ttl config)) = lc_lease_ttl config"
    by (rule whole_millis_roundtrip) (fact ok(3))
  show "3 * lc_refresh_interval config \<le> lc_lease_ttl config" using ok(5) by simp
  show "0 < lc_refresh_interval config" using ok(4) by (simp add: as_millis_def div_greater_zero_iff)
qed

locale lease_link = redis_link exec live RT db set_db rely
  for exec :: "'db redis_exec" and live :: "'db live_view" and RT :: "('w, 'i) runtime"
    and db :: "'w \<Rightarrow> 'db" and set_db :: "'db \<Rightarrow> 'w \<Rightarrow> 'w" and rely +
  fixes prefix :: string and token :: string
  assumes rely_now: "rely s s' \<Longrightarrow> sh_now s \<le> sh_now s'"
    and rely_local: "rely s s' \<Longrightarrow>
      sh_valid_until s' = sh_valid_until s \<and> sh_owned_slot s' = sh_owned_slot s"
    and rely_token: "rely s s' \<Longrightarrow>
      holds_until (live (sh_now s) (db (sh_world s)) (slot_key prefix slot)) token d \<Longrightarrow> sh_now s' < d \<Longrightarrow>
      holds_until (live (sh_now s') (db (sh_world s')) (slot_key prefix slot)) token d"
begin

abbreviation (input) inv :: "duration \<Rightarrow> ('w, 'i) shared \<Rightarrow> bool" where
  "inv ttl s \<equiv> lease_inv live db prefix token ttl s"

lemma inv_rely:
  assumes "inv ttl s" and "rely s s'"
  shows "inv ttl s'"
  using assms rely_now [OF assms(2)] rely_local [OF assms(2)] rely_token [OF assms(2)]
  unfolding lease_inv_def by (metis add_le_mono1 le_trans order.strict_trans1)

lemma call_owned:
  assumes "rt_redis RT req s = (out, s')"
  shows "sh_owned_slot s' = sh_owned_slot s"
  using assms
proof (cases rule: servedE)
  case (lost s1)
  with rely_local [OF lost(1)] rely_local [OF lost(2)] show ?thesis by simp
next
  case (executed s1 r d)
  with rely_local [OF executed(1)] rely_local [OF executed(3)] show ?thesis by simp
qed

text \<open>Requests that take the token off no slot before a deadline within the lease time.\<close>

definition keeps :: "duration \<Rightarrow> redis_request \<Rightarrow> bool" where
  "keeps ttl req \<longleftrightarrow>
     (\<forall>now d0 k d. holds_until (live now d0 k) token d \<longrightarrow> d \<le> now + ttl \<longrightarrow>
        holds_until (live now (snd (run_request exec now req d0)) k) token d)"

lemma request_step:
  assumes "rt_redis RT req s = (out, s')" and "inv ttl s" and "keeps ttl req \<or> sh_valid_until s = None"
  shows "inv ttl s'" and "sh_now s \<le> sh_now s'" and "sh_valid_until s' = sh_valid_until s"
    and "sh_owned_slot s' = sh_owned_slot s"
proof -
  have "inv ttl s' \<and> sh_now s \<le> sh_now s' \<and> sh_valid_until s' = sh_valid_until s \<and>
      sh_owned_slot s' = sh_owned_slot s"
    using assms(1)
  proof (cases rule: servedE)
    case (lost s1)
    with assms(2) have "inv ttl s'" by (blast intro: inv_rely)
    then show ?thesis
      using rely_now [OF lost(1)] rely_now [OF lost(2)] rely_local [OF lost(1)] rely_local [OF lost(2)]
      by simp
  next
    case (executed s1 r d)
    let ?s2 = "s1\<lparr>sh_world := set_db d (sh_world s1)\<rparr>"
    from executed(1) have s1: "inv ttl s1" "sh_now s \<le> sh_now s1"
      "sh_valid_until s1 = sh_valid_until s" "sh_owned_slot s1 = sh_owned_slot s"
      using inv_rely assms(2) rely_now rely_local by auto
    have "d = snd (run_request exec (sh_now s1) req (db (sh_world s1)))"
      using executed(2) by simp
    with s1 assms(3) have "inv ttl ?s2"
      unfolding lease_inv_def keeps_def by (auto simp: db_set_db)
    with s1 executed(3) show ?thesis
      using inv_rely rely_now [OF executed(3)] rely_local [OF executed(3)] by auto
  qed
  then show "inv ttl s'" and "sh_now s \<le> sh_now s'" and "sh_valid_until s' = sh_valid_until s"
    and "sh_owned_slot s' = sh_owned_slot s"
    by simp_all
qed

lemma keeps_get: "keeps ttl (Command [''GET'', key])"
  by (simp add: keeps_def get_keeps)

lemma keeps_reserve: "keeps ttl (Command (reserve_args key v ms))"
  unfolding keeps_def
proof (intro allI impI)
  fix now d0 k d
  assume hold: "holds_until (live now d0 k) token d"
  from set_nx [of now key v ms d0]
  show "holds_until (live now (snd (run_request exec now (Command (reserve_args key v ms)) d0)) k) token d"
  proof (elim disjE conjE)
    assume "live now d0 key = None"
      and upd: "live now (snd (exec now (reserve_args key v ms) d0)) =
        (live now d0)(key \<mapsto> (v, Some (now + from_millis ms)))"
    with hold have "k \<noteq> key" by (auto simp: holds_until_def)
    with upd hold show ?thesis by simp
  qed (use hold in simp)
qed

lemma keeps_renew:
  assumes "0 < ms" and "ms \<le> i64_max" and "from_millis ms = ttl"
  shows "keeps ttl (Eval RENEW [key] [token, show_nat ms])"
  unfolding keeps_def
proof (intro allI impI)
  fix now d0 k d
  assume hold: "holds_until (live now d0 k) token d" and d: "d \<le> now + ttl"
  show "holds_until (live now (snd (run_request exec now (Eval RENEW [key] [token, show_nat ms]) d0)) k) token d"
  proof (cases "\<exists>e. live now d0 key = Some (token, e)")
    case True
    then obtain e where "live now d0 key = Some (token, e)" by blast
    from renew_owner(2) [OF this assms(1,2)] hold d assms(3) show ?thesis
      by (simp add: holds_until_def)
  next
    case False
    then have "live now (snd (run_script exec now RENEW [key] [token, show_nat ms] d0)) = live now d0"
      by (intro script_not_owner(2)) simp
    with hold show ?thesis by (simp only: run_request.simps)
  qed
qed

end

sublocale lease_link \<subseteq> slot: token_link exec live RT db set_db rely "slot_key prefix slot" token for slot
  by unfold_locales (fact rely_now, fact rely_token)

context lease_link
begin

section \<open>Refreshing keeps the invariant\<close>

lemma inv_idle:
  "inv ttl s \<Longrightarrow> \<not> lease_is_valid s \<Longrightarrow> inv ttl (s\<lparr>sh_owned_slot := x\<rparr>)"
  by (auto simp: lease_inv_def lease_is_valid_def)

lemma idle_later:
  "\<not> lease_is_valid s \<Longrightarrow> sh_now s \<le> sh_now s' \<Longrightarrow> sh_valid_until s' = sh_valid_until s \<Longrightarrow>
     \<not> lease_is_valid s'"
  by (auto simp: lease_is_valid_def split: option.splits)

lemma inv_no_owner: "inv ttl s \<Longrightarrow> sh_owned_slot s = None \<Longrightarrow> \<not> lease_is_valid s"
  by (auto simp: lease_inv_def lease_is_valid_def split: option.splits)

lemma reserve_step:
  assumes "reserve RT (slot_key prefix slot) token (as_millis ttl) t = (out, t')"
    and "inv ttl (tk_shared t)" and "from_millis (as_millis ttl) = ttl"
  shows "inv ttl (tk_shared t')" and "sh_now (tk_shared t) \<le> sh_now (tk_shared t')"
    and "sh_valid_until (tk_shared t') = sh_valid_until (tk_shared t)"
    and "sh_owned_slot (tk_shared t') = sh_owned_slot (tk_shared t)"
    and "out = Ready (Inr True) \<Longrightarrow> sh_owned_slot (tk_shared t) = Some slot \<Longrightarrow>
      inv ttl ((tk_shared t')\<lparr>sh_valid_until := Some (sh_now (tk_shared t) + ttl)\<rparr>)"
proof -
  from reserve_shared [OF assms(1)] obtain r where
    r: "rt_redis RT (Command (reserve_args (slot_key prefix slot) token (as_millis ttl))) (tk_shared t)
        = (r, tk_shared t')"
    and ok: "\<forall>x. out = Ready (Inr x) \<longrightarrow> (\<exists>v. r = Ready (Inr v) \<and> reserve_reply v = Inr x)"
    by (elim exE conjE)
  note step = request_step [OF r assms(2) disjI1 [OF keeps_reserve]]
  show "inv ttl (tk_shared t')" and "sh_now (tk_shared t) \<le> sh_now (tk_shared t')"
    and "sh_valid_until (tk_shared t') = sh_valid_until (tk_shared t)"
    and "sh_owned_slot (tk_shared t') = sh_owned_slot (tk_shared t)" by (fact step)+
  assume "out = Ready (Inr True)" and own: "sh_owned_slot (tk_shared t) = Some slot"
  then have won: "reserve RT (slot_key prefix slot) token (as_millis ttl) t = (Ready (Inr True), t')"
    using assms(1) by simp
  note hold = slot.reserve_holds [OF won, unfolded assms(3)]
  show "inv ttl ((tk_shared t')\<lparr>sh_valid_until := Some (sh_now (tk_shared t) + ttl)\<rparr>)"
    using step(2,4) own hold by (simp add: lease_inv_def)
qed

lemma renew_step:
  assumes "lease_renew RT (slot_key prefix slot) token (as_millis ttl) t = (out, t')"
    and "inv ttl (tk_shared t)" and "from_millis (as_millis ttl) = ttl"
    and "0 < as_millis ttl" and "as_millis ttl \<le> i64_max"
  shows "inv ttl (tk_shared t')"
    and "out = Ready (Inr True) \<Longrightarrow> sh_owned_slot (tk_shared t) = Some slot \<Longrightarrow>
      inv ttl ((tk_shared t')\<lparr>sh_valid_until := Some (sh_now (tk_shared t) + ttl)\<rparr>)"
proof -
  from eval_transition_shared [OF assms(1) [unfolded lease_renew_def lease_transition_def]] obtain r where
    r: "rt_redis RT (Eval RENEW [slot_key prefix slot] [token, show_nat (as_millis ttl)]) (tk_shared t)
        = (r, tk_shared t')"
    and ok: "\<forall>x. out = Ready (Inr x) \<longrightarrow> (\<exists>v. r = Ready (Inr v) \<and>
      transition_reply ''unexpected Redis participation transition response'' v = Inr x)"
    by (elim exE conjE)
  note step = request_step [OF r assms(2) disjI1 [OF keeps_renew [OF assms(4,5,3)]]]
  show "inv ttl (tk_shared t')" by (fact step)
  assume "out = Ready (Inr True)" and own: "sh_owned_slot (tk_shared t) = Some slot"
  then have won: "eval_transition ''unexpected Redis participation transition response'' RT RENEW
      (slot_key prefix slot) [token, show_nat (as_millis ttl)] t = (Ready (Inr True), t')"
    using assms(1) by (simp add: lease_renew_def lease_transition_def)
  note hold = slot.renew_holds [OF won assms(4,5), unfolded assms(3)]
  show "inv ttl ((tk_shared t')\<lparr>sh_valid_until := Some (sh_now (tk_shared t) + ttl)\<rparr>)"
    using step(2,4) own hold by (simp add: lease_inv_def)
qed

lemma try_slots_inv:
  assumes "from_millis (as_millis ttl) = ttl"
  shows "try_slots RT prefix token ttl slots t = (out, t') \<Longrightarrow> inv ttl (tk_shared t) \<Longrightarrow>
    \<not> lease_is_valid (tk_shared t) \<Longrightarrow> inv ttl (tk_shared t')"
proof (induction slots arbitrary: t)
  case Nil
  then show ?case by simp
next
  case (Cons slot slots)
  define t1 where "t1 = t\<lparr>tk_shared := (tk_shared t)\<lparr>sh_owned_slot := Some slot\<rparr>\<rparr>"
  obtain o2 t2 where r: "reserve RT (slot_key prefix slot) token (as_millis ttl) t1 = (o2, t2)"
    by fastforce
  have inv1: "inv ttl (tk_shared t1)"
    using inv_idle [OF Cons.prems(2,3)] by (simp add: t1_def)
  note step = reserve_step [OF r inv1 assms]
  have unfold: "try_slots RT prefix token ttl (slot # slots) t =
    (case o2 of
       Ready (Inr True) \<Rightarrow> (Ready (Inr ()), t2\<lparr>tk_shared := (tk_shared t2)\<lparr>sh_valid_until := Some (sh_now (tk_shared t) + ttl)\<rparr>\<rparr>)
     | Ready (Inr False) \<Rightarrow> try_slots RT prefix token ttl slots (t2\<lparr>tk_shared := (tk_shared t2)\<lparr>sh_owned_slot := None\<rparr>\<rparr>)
     | Ready (Inl e) \<Rightarrow> (Ready (Inl e), t2) | Cancelled \<Rightarrow> (Cancelled, t2) | Panicked \<Rightarrow> (Panicked, t2))"
    using r
    by (auto simp: instant_now_def set_owned_slot_def modify_def publish_def await_def await_ok_def
        t1_def [symmetric] split: async.splits sum.splits)
  have idle: "\<not> lease_is_valid (tk_shared t2)"
    using idle_later [OF Cons.prems(3), of "tk_shared t2"] step(2,3) by (simp add: t1_def)
  consider (won) "o2 = Ready (Inr True)" | (busy) "o2 = Ready (Inr False)"
    | (other) "t' = t2"
    using Cons.prems(1) unfold by (auto split: async.splits sum.splits bool.splits)
  then show ?case
  proof cases
    case won
    with Cons.prems(1) unfold step(5) show ?thesis by (auto simp: t1_def)
  next
    case busy
    let ?t3 = "t2\<lparr>tk_shared := (tk_shared t2)\<lparr>sh_owned_slot := None\<rparr>\<rparr>"
    from busy Cons.prems(1) unfold have "try_slots RT prefix token ttl slots ?t3 = (out, t')" by simp
    moreover have "inv ttl (tk_shared ?t3)" using inv_idle [OF step(1) idle] by simp
    moreover have "\<not> lease_is_valid (tk_shared ?t3)" using idle by (auto simp: lease_is_valid_def split: option.splits)
    ultimately show ?thesis by (rule Cons.IH)
  next
    case other
    with step(1) show ?thesis by simp
  qed
qed

lemma complete_step:
  assumes "lease_transition RT COMPLETE key [token] t = (out, t')"
    and "sh_valid_until (tk_shared t) = None"
  shows "sh_valid_until (tk_shared t') = None"
proof -
  from eval_transition_shared [OF assms(1) [unfolded lease_transition_def]] obtain r where
    "rt_redis RT (Eval COMPLETE [key] [token]) (tk_shared t) = (r, tk_shared t')"
    by (elim exE conjE)
  from request_step(3) [OF this lease_inv_None [OF assms(2)] disjI2 [OF assms(2)]] assms(2)
  show ?thesis by simp
qed

lemma release_excess_inv:
  assumes "release_excess RT prefix token limit t = (out, t')" and "inv ttl (tk_shared t)"
  shows "inv ttl (tk_shared t')"
proof (cases "\<exists>slot. sh_owned_slot (tk_shared t) = Some slot \<and> slot \<ge> limit")
  case False
  with assms show ?thesis
    by (auto simp: release_excess_def await_def owned_slot_def split: option.splits)
next
  case True
  then obtain slot where slot: "sh_owned_slot (tk_shared t) = Some slot" "slot \<ge> limit" by blast
  define t1 where "t1 = t\<lparr>tk_shared := (tk_shared t)\<lparr>sh_valid_until := None\<rparr>\<rparr>"
  obtain o2 t2 where r: "lease_transition RT COMPLETE (slot_key prefix slot) [token] t1 = (o2, t2)"
    by fastforce
  have t2: "sh_valid_until (tk_shared t2) = None"
    by (rule complete_step [OF r]) (simp add: t1_def)
  have "sh_valid_until (tk_shared t') = None"
    using assms(1) slot r t2
    by (auto simp: release_excess_def await_def await_ok_def owned_slot_def clear_def modify_def
        set_owned_slot_def t1_def [symmetric] split: async.splits sum.splits)
  then show ?thesis by (rule lease_inv_None)
qed

lemma random_usize_step:
  assumes "random_usize RT t = (out, t')" and "inv ttl (tk_shared t)"
  shows "inv ttl (tk_shared t')" and "sh_owned_slot (tk_shared t') = sh_owned_slot (tk_shared t)"
  using assms random_usize_db [of "sh_world (tk_shared t)"]
  by (auto simp: random_usize_def lease_inv_def split: prod.splits)

lemma renew_or_elect_inv:
  assumes "renew_or_elect RT prefix token config limit t = (out, t')"
    and inv: "inv (lc_lease_ttl config) (tk_shared t)" and valid: "lease_validate config = Inr u"
  shows "inv (lc_lease_ttl config) (tk_shared t')"
proof (cases "sh_owned_slot (tk_shared t)")
  case (Some slot)
  let ?ttl = "lc_lease_ttl config"
  obtain o2 t2 where r: "lease_renew RT (slot_key prefix slot) token (as_millis ?ttl) t = (o2, t2)"
    by fastforce
  note step = renew_step [OF r inv lease_validate_ok(3) [OF valid] lease_validate_ok(1) [OF valid]
    lease_validate_ok(2) [OF valid]]
  consider (renewed) "o2 = Ready (Inr True)" | (gone) "sh_valid_until (tk_shared t') = None" | (other) "t' = t2"
    using assms(1) Some r
    by (cases o2) (auto simp: renew_or_elect_def await_def await_ok_def owned_slot_def instant_now_def clear_def
        modify_def set_owned_slot_def split: sum.splits if_splits)
  then show ?thesis
  proof cases
    case renewed
    with assms(1) Some r step(2) [OF renewed Some] show ?thesis
      by (auto simp: renew_or_elect_def await_def await_ok_def owned_slot_def instant_now_def publish_def modify_def)
  next
    case gone
    then show ?thesis by (rule lease_inv_None)
  next
    case other
    with step(1) show ?thesis by simp
  qed
next
  case None
  obtain r t1 where t1: "random_usize RT t = (Ready r, t1)"
    by (cases "rt_random_usize RT (sh_world (tk_shared t))") (auto simp: random_usize_def)
  note step = random_usize_step [OF t1 inv]
  with None have idle: "\<not> lease_is_valid (tk_shared t1)" by (intro inv_no_owner) simp_all
  from assms(1) None t1 have
    "try_slots RT prefix token (lc_lease_ttl config) ([r mod limit..<limit] @ [0..<r mod limit]) t1 = (out, t')"
    by (simp add: renew_or_elect_def await_def owned_slot_def Let_def)
  from try_slots_inv [OF lease_validate_ok(3) [OF valid] this step(1) idle] show ?thesis .
qed

lemma read_limit_inv:
  assumes "read_limit RT key t = (out, t')" and "inv ttl (tk_shared t)"
  shows "inv ttl (tk_shared t')"
proof -
  from await_call_shared [OF assms(1) [unfolded read_limit_def command_def]] obtain r where
    "rt_redis RT (Command [''GET'', key]) (tk_shared t) = (r, tk_shared t')"
    by (elim exE conjE)
  from request_step(1) [OF this assms(2) disjI1 [OF keeps_get]] show ?thesis .
qed

lemma refresh_inv:
  assumes run: "refresh RT prefix token config t = (out, t')"
    and inv: "inv (lc_lease_ttl config) (tk_shared t)" and valid: "lease_validate config = Inr u"
  shows "inv (lc_lease_ttl config) (tk_shared t')"
proof -
  let ?I = "\<lambda>out t. inv (lc_lease_ttl config) (tk_shared t)"
  have "runs (?I ()) (refresh RT prefix token config) ?I"
    unfolding refresh_def
  proof (rule runs_await_ok [where R = ?I])
    show "runs (?I ()) (read_limit RT (limit_key prefix)) ?I"
      by (rule runsI) (metis prod.collapse read_limit_inv)
    fix limit
    show "runs (?I (Ready (Inr limit))) (await_ok (release_excess RT prefix token limit)
        (\<lambda>_. if limit = 0 then await clear (\<lambda>_. ret (Inr ())) else renew_or_elect RT prefix token config limit)) ?I"
    proof (rule runs_await_ok [where R = ?I])
      show "runs (?I (Ready (Inr limit))) (release_excess RT prefix token limit) ?I"
        by (rule runsI) (metis prod.collapse release_excess_inv)
      fix x
      show "runs (?I (Ready (Inr x))) (if limit = 0 then await clear (\<lambda>_. ret (Inr ()))
          else renew_or_elect RT prefix token config limit) ?I"
      proof (rule runs_if)
        show "runs (?I (Ready (Inr x))) (await clear (\<lambda>_. ret (Inr ()))) ?I"
          by (rule runsI) (simp add: clear_def modify_def await_def lease_inv_None)
        show "runs (?I (Ready (Inr x))) (renew_or_elect RT prefix token config limit) ?I"
          by (rule runsI) (metis prod.collapse renew_or_elect_inv valid)
      qed
    qed simp_all
  qed simp_all
  with run inv show ?thesis by (auto dest: runsD)
qed

text \<open>
  The background task keeps whatever the surroundings, a policy load, a random draw, a withdrawal
  of eligibility and a refresh keep.
\<close>

lemma background_keeps:
  assumes rely: "\<And>s s'. P s \<Longrightarrow> rely s s' \<Longrightarrow> P s'"
    and get: "\<And>s out s'. P s \<Longrightarrow> rt_redis RT (Command [''GET'', ps_key store]) s = (out, s') \<Longrightarrow> P s'"
    and snap: "\<And>s x. P s \<Longrightarrow> P (s\<lparr>sh_snapshot := x\<rparr>)"
    and world: "\<And>s w. P s \<Longrightarrow> db w = db (sh_world s) \<Longrightarrow> P (s\<lparr>sh_world := w\<rparr>)"
  shows "runs (\<lambda>t. P (tk_shared t)) (refresh_policy L R from_json RT store config) (\<lambda>_ t. P (tk_shared t))"
    and "runs (\<lambda>t. P (tk_shared t)) (jittered RT band interval) (\<lambda>_ t. P (tk_shared t))"
    and "runs (\<lambda>t. P (tk_shared t)) (lift_shared (rt_sleep RT d)) (\<lambda>_ t. P (tk_shared t))"
    and "(\<And>s. P s \<Longrightarrow> P (s\<lparr>sh_valid_until := None\<rparr>)) \<Longrightarrow>
      (\<And>t. P (tk_shared t) \<Longrightarrow> P (tk_shared (snd (refresh RT prefix token config t)))) \<Longrightarrow>
      runs (\<lambda>t. P (tk_shared t)) (cycles L R from_json RT store prefix token config n) (\<lambda>_ t. P (tk_shared t))"
proof -
  let ?P = "\<lambda>_ (t :: ('w, 'i) task). P (tk_shared t)"
  show policy: "runs (?P ()) (refresh_policy L R from_json RT store config) ?P"
    unfolding refresh_policy_def
  proof (rule runs_await [where R = ?P])
    show "runs (?P ()) (tokio_timeout (lc_refresh_interval config div 4) (load_policy L R from_json RT store)) ?P"
      using load_policy_keeps [where P = P, OF rely get snap] by (simp add: runs_def)
  qed (simp_all add: runs_ret)
  show jitter: "runs (?P ()) (jittered RT band interval) ?P" for band interval
  proof (rule runsI)
    fix t :: "('w, 'i) task"
    assume "P (tk_shared t)"
    from world [OF this jitter_db [of band interval]]
    show "P (tk_shared (snd (jittered RT band interval t)))" by (simp add: jittered_def case_prod_unfold)
  qed
  show sleep: "runs (?P ()) (lift_shared (rt_sleep RT d)) ?P" for d
    by (rule runsI) (simp add: rely [OF _ sleep_rely])
  assume clear: "\<And>s. P s \<Longrightarrow> P (s\<lparr>sh_valid_until := None\<rparr>)"
    and refresh: "\<And>t. P (tk_shared t) \<Longrightarrow> P (tk_shared (snd (refresh RT prefix token config t)))"
  have "runs (?P ()) (cycle L R from_json RT store prefix token config) ?P"
    unfolding cycle_def
  proof (intro runs_await [where R = ?P] policy jitter sleep, goal_cases)
    case 1
    show ?case by (rule runsI) (simp add: refresh)
  next
    case (2 result)
    show ?case by (rule runsI) (auto simp: clear_def modify_def clear split: sum.split)
  next
    case (3 result x y)
    show ?case by (rule runsI) (simp add: valid_now_def)
  qed simp_all
  then show "runs (?P ()) (cycles L R from_json RT store prefix token config n) ?P"
    by (induction n) (auto simp only: cycles.simps intro!: runs_ret runs_await [where R = ?P])
qed

lemma inv_frame:
  "inv ttl s \<Longrightarrow> inv ttl (s\<lparr>sh_snapshot := x\<rparr>)"
  "inv ttl s \<Longrightarrow> db w = db (sh_world s) \<Longrightarrow> inv ttl (s\<lparr>sh_world := w\<rparr>)"
  by (simp_all add: lease_inv_def)

lemma run_inv:
  assumes "lease_validate config = Inr u"
  shows "runs (\<lambda>t. sh_valid_until (tk_shared t) = None) (run L R from_json RT store prefix token config n)
    (\<lambda>_ t. inv (lc_lease_ttl config) (tk_shared t))"
proof -
  let ?N = "\<lambda>_ (t :: ('w, 'i) task). sh_valid_until (tk_shared t) = None"
  let ?I = "\<lambda>_ (t :: ('w, 'i) task). inv (lc_lease_ttl config) (tk_shared t)"
  have cycles: "runs (?I ()) (cycles L R from_json RT store prefix token config n) ?I"
  proof (rule background_keeps(4) [where P = "inv (lc_lease_ttl config)"], goal_cases)
    case (2 s out s')
    from request_step(1) [OF 2(2,1) disjI1 [OF keeps_get]] show ?case .
  next
    case (6 t)
    from refresh_inv [OF surjective_pairing 6 assms] show ?case .
  qed (simp_all add: inv_frame lease_inv_None inv_rely)
  have idle: "sh_valid_until s' = None" if "sh_valid_until s = None" "rt_redis RT (Command [''GET'', k]) s = (out, s')" for s out s' k
    using request_step(3) [OF that(2) lease_inv_None [OF that(1)] disjI2 [OF that(1)]] that(1) by simp
  note start = background_keeps [where P = "\<lambda>s :: ('w, 'i) shared. sh_valid_until s = None", OF _ idle]
  show ?thesis
    unfolding run_def
  proof (intro runs_await [where R = ?N], goal_cases)
    case 1
    show ?case by (rule start(1)) (simp_all add: rely_local)
  next
    case (2 x)
    show ?case by (rule start(2)) (simp_all add: rely_local)
  next
    case (3 x d)
    show ?case by (rule start(3)) (simp_all add: rely_local)
  next
    case (4 x d y)
    show ?case by (rule runsI) (simp add: set_owned_slot_def modify_def)
  next
    case (5 x d y z)
    show ?case by (rule runs_weaken [OF cycles]) (simp_all add: lease_inv_None)
  qed (simp_all add: lease_inv_None)
qed

end


section \<open>What a gateway sends\<close>

text \<open>The requests of a gateway's lease task: the limit, and its own token on slot keys.\<close>

definition own_request :: "string \<Rightarrow> string \<Rightarrow> nat \<Rightarrow> redis_request \<Rightarrow> bool" where
  "own_request prefix token ms req \<longleftrightarrow>
     req = Command [''GET'', limit_key prefix] \<or>
     (\<exists>slot. req = Command (reserve_args (slot_key prefix slot) token ms) \<or>
        req = Eval COMPLETE [slot_key prefix slot] [token] \<or>
        req = Eval RENEW [slot_key prefix slot] [token, show_nat ms])"

lemma own_request_intros:
  "own_request prefix token ms (Command [''GET'', limit_key prefix])"
  "own_request prefix token ms (Command (reserve_args (slot_key prefix slot) token ms))"
  "own_request prefix token ms (Eval COMPLETE [slot_key prefix slot] [token])"
  "own_request prefix token ms (Eval RENEW [slot_key prefix slot] [token, show_nat ms])"
  by (auto simp: own_request_def)

lemma sends_try_slots:
  "sends (own_request prefix token (as_millis ttl)) (try_slots RT prefix token ttl slots)"
proof (induction slots)
  case Nil
  show ?case unfolding try_slots.simps by (rule sends_ret)
next
  case (Cons slot slots)
  then show ?case
    unfolding try_slots.simps set_owned_slot_def publish_def
    by (intro sends_intros own_request_intros) (auto intro!: sends_intros)
qed

lemma sends_owned_slot [sends_intros]: "sends P owned_slot"
  by (rule sends_quietI) (simp add: owned_slot_def)

lemma sends_clear [sends_intros]: "sends P clear"
  unfolding clear_def by (rule sends_modify)

lemma sends_refresh:
  "sends (own_request prefix token (as_millis (lc_lease_ttl config))) (refresh RT prefix token config)"
proof -
  let ?P = "own_request prefix token (as_millis (lc_lease_ttl config))"
  have "sends ?P (release_excess RT prefix token limit)" for limit
    unfolding release_excess_def set_owned_slot_def lease_transition_def
    by (intro sends_intros) (auto intro!: sends_intros own_request_intros split: option.split)
  moreover have "sends ?P (renew_or_elect RT prefix token config limit)" for limit
    unfolding renew_or_elect_def lease_renew_def lease_transition_def publish_def set_owned_slot_def Let_def
    by (intro sends_intros) (auto intro!: sends_intros own_request_intros sends_try_slots split: option.split)
  ultimately show ?thesis
    unfolding refresh_def read_limit_def command_def
    by (intro sends_intros own_request_intros) (auto intro: sends_intros)
qed

section \<open>Limits\<close>

context lease_link
begin

lemma try_slots_owned:
  "try_slots RT prefix token ttl slots t = (Ready (Inr ()), t') \<Longrightarrow>
     from_millis (as_millis ttl) = ttl \<Longrightarrow> inv ttl (tk_shared t) \<Longrightarrow> \<not> lease_is_valid (tk_shared t) \<Longrightarrow>
     sh_owned_slot (tk_shared t) = None \<Longrightarrow>
     (\<forall>slot. sh_owned_slot (tk_shared t') = Some slot \<longrightarrow> slot \<in> set slots)"
proof (induction slots arbitrary: t)
  case Nil
  then show ?case by simp
next
  case (Cons slot slots)
  define t1 where "t1 = t\<lparr>tk_shared := (tk_shared t)\<lparr>sh_owned_slot := Some slot\<rparr>\<rparr>"
  obtain o2 t2 where r: "reserve RT (slot_key prefix slot) token (as_millis ttl) t1 = (o2, t2)"
    by fastforce
  have inv1: "inv ttl (tk_shared t1)"
    using inv_idle [OF Cons.prems(3,4)] by (simp add: t1_def)
  note step = reserve_step [OF r inv1 Cons.prems(2)]
  have idle: "\<not> lease_is_valid (tk_shared t2)"
    using idle_later [OF Cons.prems(4), of "tk_shared t2"] step(2,3) by (simp add: t1_def)
  let ?t3 = "t2\<lparr>tk_shared := (tk_shared t2)\<lparr>sh_owned_slot := None\<rparr>\<rparr>"
  consider (won) "t' = t2\<lparr>tk_shared := (tk_shared t2)\<lparr>sh_valid_until := Some (sh_now (tk_shared t) + ttl)\<rparr>\<rparr>"
    | (busy) "try_slots RT prefix token ttl slots ?t3 = (Ready (Inr ()), t')"
    using Cons.prems(1) r
    by (cases o2) (auto simp: instant_now_def set_owned_slot_def modify_def publish_def await_def await_ok_def
        t1_def [symmetric] split: sum.splits if_splits)
  then show ?case
  proof cases
    case won
    with step(4) show ?thesis by (simp add: t1_def)
  next
    case busy
    have "\<not> lease_is_valid (tk_shared ?t3)" using idle by (auto simp: lease_is_valid_def split: option.splits)
    with Cons.IH [OF busy Cons.prems(2)] inv_idle [OF step(1) idle] show ?thesis by simp
  qed
qed

lemma release_excess_owned:
  assumes "release_excess RT prefix token limit t = (Ready (Inr ()), t')"
  shows "\<forall>slot. sh_owned_slot (tk_shared t') = Some slot \<longrightarrow> slot < limit"
  using assms
  by (auto simp: release_excess_def await_def await_ok_def owned_slot_def clear_def modify_def
      set_owned_slot_def split: option.splits if_splits prod.splits async.splits sum.splits)

lemma renew_owned:
  assumes "lease_renew RT key token ms t = (out, t')"
  shows "sh_owned_slot (tk_shared t') = sh_owned_slot (tk_shared t)"
  using eval_transition_shared [OF assms [unfolded lease_renew_def lease_transition_def]] by (auto dest: call_owned)

lemma renew_or_elect_owned:
  assumes run: "renew_or_elect RT prefix token config limit t = (Ready (Inr ()), t')"
    and inv: "inv (lc_lease_ttl config) (tk_shared t)" and valid: "lease_validate config = Inr u"
    and pos: "0 < limit"
    and below: "\<forall>slot. sh_owned_slot (tk_shared t) = Some slot \<longrightarrow> slot < limit"
  shows "\<forall>slot. sh_owned_slot (tk_shared t') = Some slot \<longrightarrow> slot < limit"
proof (cases "sh_owned_slot (tk_shared t)")
  case (Some slot)
  let ?ttl = "lc_lease_ttl config"
  obtain o2 t2 where r: "lease_renew RT (slot_key prefix slot) token (as_millis ?ttl) t = (o2, t2)"
    by fastforce
  have "sh_owned_slot (tk_shared t2) = sh_owned_slot (tk_shared t)"
    by (rule renew_owned [OF r])
  with run Some below r show ?thesis
    by (cases o2) (auto simp: renew_or_elect_def await_def await_ok_def owned_slot_def instant_now_def clear_def
        publish_def modify_def set_owned_slot_def split: sum.splits if_splits)
next
  case None
  obtain r t1 where t1: "random_usize RT t = (Ready r, t1)"
    by (cases "rt_random_usize RT (sh_world (tk_shared t))") (auto simp: random_usize_def)
  note step = random_usize_step [OF t1 inv]
  with None have idle: "\<not> lease_is_valid (tk_shared t1)" by (intro inv_no_owner) simp_all
  from run None t1 have elect:
    "try_slots RT prefix token (lc_lease_ttl config) ([r mod limit..<limit] @ [0..<r mod limit]) t1
       = (Ready (Inr ()), t')"
    by (simp add: renew_or_elect_def await_def owned_slot_def Let_def)
  from step(2) None have "sh_owned_slot (tk_shared t1) = None" by simp
  from try_slots_owned [OF elect lease_validate_ok(3) [OF valid] step(1) idle this] show ?thesis
    using mod_less_divisor [OF pos, of r] by auto
qed

lemma refresh_within_limit:
  assumes run: "refresh RT prefix token config t = (Ready (Inr ()), t')"
    and limit: "read_limit RT (limit_key prefix) t = (Ready (Inr limit), t1)"
    and inv: "inv (lc_lease_ttl config) (tk_shared t)" and valid: "lease_validate config = Inr u"
    and elig: "lease_is_valid (tk_shared t')"
  shows "\<exists>slot < limit. sh_owned_slot (tk_shared t') = Some slot"
proof -
  note inv1 = read_limit_inv [OF limit inv]
  from run limit obtain t2 where
    rel: "release_excess RT prefix token limit t1 = (Ready (Inr ()), t2)"
    and rest: "(if limit = 0 then await clear (\<lambda>_. ret (Inr ()))
        else renew_or_elect RT prefix token config limit) t2 = (Ready (Inr ()), t')"
    unfolding refresh_def await_ok_Inr [where c = "read_limit RT (limit_key prefix)", OF limit]
    by (auto elim!: await_ok_InrE)
  note inv2 = release_excess_inv [OF rel inv1]
  have pos: "0 < limit"
    using rest elig by (auto simp: clear_def modify_def await_def lease_is_valid_def split: if_splits)
  with rest have run2: "renew_or_elect RT prefix token config limit t2 = (Ready (Inr ()), t')" by simp
  from renew_or_elect_owned [OF run2 inv2 valid pos release_excess_owned [OF rel]]
    inv_no_owner [OF renew_or_elect_inv [OF run2 inv2 valid]] elig
  show ?thesis by (cases "sh_owned_slot (tk_shared t')") auto
qed

end


section \<open>An executable gateway\<close>

definition sample_prefix :: string where
  "sample_prefix = ''rec''"

definition sample_token :: string where
  "sample_token = ''gw-1:boot''"

interpretation simple_lease: lease_link simple_exec simple_live
  "simple_runtime :: (simple_world, 'i) runtime" sw_db "\<lambda>d w. w\<lparr>sw_db := d\<rparr>" quiet prefix token for prefix token
proof (unfold_locales, goal_cases)
  case (3 s s' slot d)
  then show ?case
    using simple_server.holds_until_later [of "sh_now s" "sw_db (sh_world s)" "slot_key prefix slot" token d "sh_now s'"]
    by (simp add: quiet_def)
qed (auto simp: quiet_def)

definition one_slot :: "string \<rightharpoonup> string \<times> instant option" where
  "one_slot = [limit_key sample_prefix \<mapsto> (''1'', None)]"

text \<open>A state of the sample gateway, by clock, deadline, slot, snapshot, keys and log.\<close>

definition lease_at ::
  "instant \<Rightarrow> instant option \<Rightarrow> nat option \<Rightarrow> indexed_rule list snapshot \<Rightarrow>
     (string \<rightharpoonup> string \<times> instant option) \<Rightarrow> redis_request list \<Rightarrow> (simple_world, indexed_rule list) task" where
  "lease_at now valid slot snap strings log =
     \<lparr>tk_shared = (sample_shared strings)\<lparr>sh_now := now, sh_valid_until := valid, sh_owned_slot := slot,
        sh_snapshot := snap\<rparr>, tk_log = log\<rparr>"

lemma redis_at:
  assumes "run_request simple_exec (now + 500000) req \<lparr>sd_strings = strings, sd_hashes = (\<lambda>_. Map.empty)\<rparr> =
    (r, \<lparr>sd_strings = strings', sd_hashes = (\<lambda>_. Map.empty)\<rparr>)"
  shows "rt_redis simple_runtime req (tk_shared (lease_at now valid slot snap strings log)) =
    (Ready r, tk_shared (lease_at (now + 1000000) valid slot snap strings' log'))"
  using assms
  by (simp add: simple_runtime_def simple_await_def lease_at_def sample_shared_def)

lemma call_at:
  assumes "run_request simple_exec (now + 500000) req \<lparr>sd_strings = strings, sd_hashes = (\<lambda>_. Map.empty)\<rparr> =
    (r, \<lparr>sd_strings = strings', sd_hashes = (\<lambda>_. Map.empty)\<rparr>)"
  shows "redis_call simple_runtime req (lease_at now valid slot snap strings log) =
    (Ready (map_err Backend r), lease_at (now + 1000000) valid slot snap strings' (log @ [req]))"
  using assms
  by (simp add: redis_call_def simple_runtime_def simple_await_def lease_at_def sample_shared_def)

lemma show_nat_01: "show_nat 0 = ''0''" "show_nat 1 = ''1''"
  by code_simp+

lemma sample_keys: "limit_key sample_prefix = ''rec:max-gateways''" "slot_key sample_prefix 0 = ''rec:gateway:0''"
    "ps_key sample_store = ''rec:api-policy''"
  by (simp_all add: limit_key_def slot_key_def sample_prefix_def show_nat_01
     sample_store_def policy_store_new_def)

lemma sample_limit: "decimal_reply invalid_limit (BulkString ''1'') = Inr 1"
  using decimal_reply_show [of 1 invalid_limit] by (simp add: show_nat_01 [simplified])

lemma sample_ttl: "as_millis (lc_lease_ttl (lease_config_new ''gw-1'')) = 30000"
   "as_millis 30000000000 = 30000" "lc_lease_ttl (lease_config_new ''gw-1'') = 30000000000"
  by (simp_all add: lease_config_new_def as_millis_def from_secs_def)

lemma sample_read_limit:
  "read_limit simple_runtime (limit_key sample_prefix) (lease_at now valid slot snap one_slot log) =
    (Ready (Inr 1), lease_at (now + 1000000) valid slot snap one_slot (log @ [Command [''GET'', limit_key sample_prefix]]))"
proof -
  have "run_request simple_exec (now + 500000) (Command [''GET'', limit_key sample_prefix])
     \<lparr>sd_strings = one_slot, sd_hashes = (\<lambda>_. Map.empty)\<rparr> = (Inr (BulkString ''1''), \<lparr>sd_strings = one_slot, sd_hashes = (\<lambda>_. Map.empty)\<rparr>)"
    by (simp add: simple_exec_def simple_live_def one_slot_def)
  from call_at [OF this] show ?thesis
    by (simp add: read_limit_def command_def await_ok_def await_def sample_limit)
qed

lemma sample_reserve:
  "reserve simple_runtime (slot_key sample_prefix 0) sample_token 30000 (lease_at now valid slot snap one_slot log) =
    (Ready (Inr True), lease_at (now + 1000000) valid slot snap
      (one_slot(slot_key sample_prefix 0 \<mapsto> (sample_token, Some (now + 500000 + from_millis 30000))))
      (log @ [Command (reserve_args (slot_key sample_prefix 0) sample_token 30000)]))"
proof -
  have "one_slot (slot_key sample_prefix 0) = None"
    by (simp add: one_slot_def sample_keys)
  then have "run_request simple_exec (now + 500000) (Command (reserve_args (slot_key sample_prefix 0) sample_token 30000))
     \<lparr>sd_strings = one_slot, sd_hashes = (\<lambda>_. Map.empty)\<rparr> = (Inr Okay, \<lparr>sd_strings =
      (one_slot(slot_key sample_prefix 0 \<mapsto> (sample_token, Some (now + 500000 + from_millis 30000)))), sd_hashes = (\<lambda>_. Map.empty)\<rparr>)"
    by (simp add: simple_exec_def simple_live_def reserve_args_def parse_show_nat simple_set_def)
  from call_at [OF this] show ?thesis
    by (simp add: reserve_def command_def await_ok_def await_def reserve_reply_def)
qed


lemma sample_policy_load:
  assumes "strings (ps_key sample_store) = None"
  shows "\<exists>snap'. refresh_policy assoc_lib segment_router (\<lambda>_. Inl ''json'') simple_runtime sample_store config
      (lease_at now valid slot snap strings log) =
    (Ready (), lease_at (now + 1000000) valid slot snap' strings (log @ [Command [''GET'', ps_key sample_store]]))"
proof -
  let ?t = "lease_at now valid slot snap strings log"
  let ?t1 = "lease_at (now + 1000000) valid slot snap strings (log @ [Command [''GET'', ps_key sample_store]])"
  have lock: "rt_lock simple_runtime (tk_shared ?t) = (Ready (), tk_shared ?t)"
    by (simp add: simple_runtime_def)
  have "run_request simple_exec (now + 500000) (Command [''GET'', ps_key sample_store])
      \<lparr>sd_strings = strings, sd_hashes = (\<lambda>_. Map.empty)\<rparr> =
      (Inr NilReply, \<lparr>sd_strings = strings, sd_hashes = (\<lambda>_. Map.empty)\<rparr>)"
    using assms by (simp add: simple_exec_def simple_live_def)
  from redis_at [OF this, of valid slot snap log]
  have get: "rt_redis simple_runtime (Command [''GET'', ps_key sample_store]) (tk_shared ?t) =
      (Ready (Inr NilReply), tk_shared ?t1)"
    by blast
  have log: "\<lparr>tk_shared = tk_shared ?t1, tk_log = tk_log ?t @ [Command [''GET'', ps_key sample_store]]\<rparr> = ?t1"
    by (simp add: lease_at_def)
  obtain res snap' where "publish_policy assoc_lib segment_router (\<lambda>_. Inl ''json'') None ?t1 =
      (Ready res, ?t1\<lparr>tk_shared := (tk_shared ?t1)\<lparr>sh_snapshot := snap'\<rparr>\<rparr>)"
    using publish_policy_cases by blast
  moreover have "?t1\<lparr>tk_shared := (tk_shared ?t1)\<lparr>sh_snapshot := snap'\<rparr>\<rparr> =
      lease_at (now + 1000000) valid slot snap' strings (log @ [Command [''GET'', ps_key sample_store]])"
    by (simp add: lease_at_def)
  ultimately show ?thesis
    using load_policy_reply [OF lock get, of assoc_lib segment_router "\<lambda>_. Inl ''json''"]
    unfolding log
    by (auto simp: refresh_policy_def await_def tokio_timeout_def)
qed

text \<open>One refresh wins the only slot.\<close>

definition won_slot :: "instant \<Rightarrow> string \<rightharpoonup> string \<times> instant option" where
  "won_slot now = one_slot(slot_key sample_prefix 0 \<mapsto> (sample_token, Some (now + 30001500000)))"

lemma sample_refresh:
  "refresh simple_runtime sample_prefix sample_token (lease_config_new ''gw-1'')
     (lease_at now None None snap one_slot log) =
   (Ready (Inr ()), lease_at (now + 2000000) (Some (now + 30001000000)) (Some 0) snap (won_slot now)
      (log @ [Command [''GET'', limit_key sample_prefix],
              Command (reserve_args (slot_key sample_prefix 0) sample_token 30000)]))"
proof -
  let ?t1 = "lease_at (now + 1000000) None None snap one_slot (log @ [Command [''GET'', limit_key sample_prefix]])"
  have rel: "release_excess simple_runtime sample_prefix sample_token 1 ?t1 = (Ready (Inr ()), ?t1)"
    by (simp add: release_excess_def await_def owned_slot_def lease_at_def)
  have own: "sh_owned_slot (tk_shared ?t1) = None" by (simp add: lease_at_def)
  have rnd: "random_usize simple_runtime ?t1 = (Ready 7, ?t1)"
    by (simp add: random_usize_def simple_runtime_def draw_def lease_at_def sample_shared_def)
  have slot: "?t1\<lparr>tk_shared := (tk_shared ?t1)\<lparr>sh_owned_slot := Some 0\<rparr>\<rparr> =
      lease_at (now + 1000000) None (Some 0) snap one_slot (log @ [Command [''GET'', limit_key sample_prefix]])"
    by (simp add: lease_at_def)
  have now: "sh_now (tk_shared ?t1) = now + 1000000" by (simp add: lease_at_def)
  have pub: "(lease_at t v sl sn st l)\<lparr>tk_shared := (tk_shared (lease_at t v sl sn st l))\<lparr>sh_valid_until := x\<rparr>\<rparr>
      = lease_at t x sl sn st l" for t v sl sn st l x
    by (simp add: lease_at_def)
  have elect: "renew_or_elect simple_runtime sample_prefix sample_token (lease_config_new ''gw-1'') 1 ?t1 =
    (Ready (Inr ()), lease_at (now + 2000000) (Some (now + 30001000000)) (Some 0) snap (won_slot now)
      (log @ [Command [''GET'', limit_key sample_prefix],
              Command (reserve_args (slot_key sample_prefix 0) sample_token 30000)]))"
    using rnd own slot now sample_reserve [of "now + 1000000" None "Some 0" snap "log @ [Command [''GET'', limit_key sample_prefix]]"]
    by (simp add: renew_or_elect_def await_def await_ok_def owned_slot_def instant_now_def set_owned_slot_def
        modify_def publish_def pub sample_ttl won_slot_def from_millis_def add.commute)
  show ?thesis
    using sample_read_limit [of now None None snap log] rel elect
    by (simp add: refresh_def await_ok_def await_def)
qed


lemma sample_run:
  "\<exists>snap log. run assoc_lib segment_router (\<lambda>_. Inl ''json'') simple_runtime sample_store sample_prefix sample_token
      (lease_config_new ''gw-1'') 1 (lease_at 0 None None snapshot_new one_slot []) =
    (Ready (), lease_at 20004000000 (Some 40002000000) (Some 0) snap (won_slot 10001000000) log)"
proof -
  let ?policy = "refresh_policy assoc_lib segment_router (\<lambda>_. Inl ''json'') simple_runtime sample_store (lease_config_new ''gw-1'')"
  have sleep: "lift_shared (rt_sleep simple_runtime d) (lease_at now valid slot snap strings log) =
      (Ready (), lease_at (now + d) valid slot snap strings log)" for d now valid slot snap strings log
    by (simp add: lift_shared_def simple_runtime_def lease_at_def)
  have jitter: "jittered simple_runtime band interval (lease_at now valid slot snap strings log) =
      (Ready interval, lease_at now valid slot snap strings log)" for band interval now valid slot snap strings log
    by (simp add: jittered_def simple_runtime_def lease_at_def sample_shared_def)
  have none: "set_owned_slot None (lease_at now valid None snap strings log) =
      (Ready (), lease_at now valid None snap strings log)" for now valid snap strings log
    by (simp add: set_owned_slot_def modify_def lease_at_def sample_shared_def)
  have ten: "lc_refresh_interval (lease_config_new ''gw-1'') = 10000000000"
    by (simp add: lease_config_new_def from_secs_def)
  have absent: "one_slot (ps_key sample_store) = None" "won_slot now (ps_key sample_store) = None" for now
    by (simp_all add: one_slot_def won_slot_def sample_keys)
  obtain snap1 where p1: "?policy (lease_at 0 None None snapshot_new one_slot []) =
      (Ready (), lease_at 1000000 None None snap1 one_slot [Command [''GET'', ps_key sample_store]])"
    using sample_policy_load [where strings = one_slot and now = 0 and log = "[]", OF absent(1)] by fastforce
  let ?log = "[Command [''GET'', ps_key sample_store]] @ [Command [''GET'', limit_key sample_prefix],
     Command (reserve_args (slot_key sample_prefix 0) sample_token 30000)]"
  obtain snap2 where p2: "?policy (lease_at 10003000000 (Some 40002000000) (Some 0) snap1 (won_slot 10001000000) ?log) =
      (Ready (), lease_at 10004000000 (Some 40002000000) (Some 0) snap2 (won_slot 10001000000)
        (?log @ [Command [''GET'', ps_key sample_store]]))"
    using sample_policy_load [where strings = "won_slot 10001000000" and now = 10003000000 and log = ?log, OF absent(2)] by fastforce
  have "run assoc_lib segment_router (\<lambda>_. Inl ''json'') simple_runtime sample_store sample_prefix sample_token
      (lease_config_new ''gw-1'') 1 (lease_at 0 None None snapshot_new one_slot []) =
    (Ready (), lease_at 20004000000 (Some 40002000000) (Some 0) snap2 (won_slot 10001000000)
      (?log @ [Command [''GET'', ps_key sample_store]]))"
    using p1 p2 sample_refresh [of 10001000000 snap1 "[Command [''GET'', ps_key sample_store]]"]
    by (simp add: run_def cycle_def await_def sleep jitter none ten valid_now_def tokio_timeout_def)
  then show ?thesis by blast
qed

text \<open>
  Boot tokens identify a start: a valid configuration yields the instance id, generated when it is
  blank, followed by 32 random digits, so that restarting an instance does not reuse its token.
\<close>

lemma lease_start_token:
  assumes "lease_validate config = Inr u" and "lease_start RT True config t = (out, t')"
  shows "(\<exists>config' r. out = Ready (Inr (config', lc_instance_id config' @ '':'' @ hex32 r)) \<and>
      sh_valid_until (tk_shared t') = None \<and>
      config' = config\<lparr>lc_instance_id := lc_instance_id config'\<rparr> \<and>
      (if trim_is_empty (lc_instance_id config)
       then \<exists>r'. lc_instance_id config' = ''gw-'' @ hex32 r'
       else lc_instance_id config' = lc_instance_id config)) \<and>
    (\<forall>id1 id2 r1 r2. id1 @ '':'' @ hex32 r1 = id2 @ '':'' @ hex32 r2 \<longleftrightarrow> id1 = id2 \<and> r1 = r2)"
proof
  show "\<exists>config' r. out = Ready (Inr (config', lc_instance_id config' @ '':'' @ hex32 r)) \<and>
      sh_valid_until (tk_shared t') = None \<and>
      config' = config\<lparr>lc_instance_id := lc_instance_id config'\<rparr> \<and>
      (if trim_is_empty (lc_instance_id config)
       then \<exists>r'. lc_instance_id config' = ''gw-'' @ hex32 r'
       else lc_instance_id config' = lc_instance_id config)"
    using assms
    by (auto simp: lease_start_def await_def random_u128_def clear_def set_owned_slot_def modify_def
        hex32_inj split: prod.splits if_splits)
  show "\<forall>id1 id2 r1 r2. id1 @ '':'' @ hex32 r1 = id2 @ '':'' @ hex32 r2 \<longleftrightarrow> id1 = id2 \<and> r1 = r2"
    by (auto simp: append_eq_append_conv hex32_inj)
qed

section \<open>Properties\<close>

text \<open>
  C4: a gateway is eligible only while Redis says so. Started with no local eligibility, the
  background task keeps this at every point where it can be observed or cancelled, after any
  number of cycles, with lost replies, timeouts and any interference of the other clients: if
  the gateway is locally eligible, Redis holds its boot token on the slot it owns at least
  until the local deadline, and the deadline is at most one lease time away.
\<close>

theorem participation_is_leased:
  assumes "lease_link exec live RT db set_db rely prefix token" and "lease_validate config = Inr u"
    and "sh_valid_until (tk_shared t) = None"
    and "run L R from_json RT store prefix token config n t = (out, t')"
    and "lease_is_valid (tk_shared t')"
  shows "\<exists>d slot. sh_valid_until (tk_shared t') = Some d \<and> sh_owned_slot (tk_shared t') = Some slot \<and>
    d \<le> sh_now (tk_shared t') + lc_lease_ttl config \<and>
    holds_until (live (sh_now (tk_shared t')) (db (sh_world (tk_shared t'))) (slot_key prefix slot)) token d"
proof -
  have "lease_inv live db prefix token (lc_lease_ttl config) (tk_shared t')"
    using runsD [OF lease_link.run_inv [OF assms(1,2)] _ assms(4)] assms(3) by blast
  with assms(5) show ?thesis
    by (auto simp: lease_inv_def lease_is_valid_def split: option.splits)
qed

text \<open>After one cycle against a Redis with one slot the sample gateway is eligible.\<close>

theorem participation_is_leased_witness:
  "\<exists>t'. run assoc_lib segment_router (\<lambda>_. Inl ''json'') simple_runtime sample_store sample_prefix sample_token
       (lease_config_new ''gw-1'') 1 (lease_at 0 None None snapshot_new one_slot []) = (Ready (), t') \<and>
     lease_is_valid (tk_shared t') \<and>
     (\<exists>d slot. sh_owned_slot (tk_shared t') = Some slot \<and>
        holds_until (simple_live (sh_now (tk_shared t')) (sw_db (sh_world (tk_shared t')))
          (slot_key sample_prefix slot)) sample_token d)"
proof -
  obtain snap log where run: "run assoc_lib segment_router (\<lambda>_. Inl ''json'') simple_runtime sample_store
      sample_prefix sample_token (lease_config_new ''gw-1'') 1 (lease_at 0 None None snapshot_new one_slot []) =
    (Ready (), lease_at 20004000000 (Some 40002000000) (Some 0) snap (won_slot 10001000000) log)"
    using sample_run by blast
  have config: "lease_validate (lease_config_new ''gw-1'') = Inr ()"
    by (simp add: lease_validate_def lease_config_new_def as_millis_def subsec_nanos_def from_secs_def)
  have start: "sh_valid_until (tk_shared (lease_at 0 None None snapshot_new one_slot [])) = None"
    and valid: "lease_is_valid (tk_shared (lease_at 20004000000 (Some 40002000000) (Some 0) snap (won_slot 10001000000) log))"
    by (simp_all add: lease_at_def lease_is_valid_def)
  from participation_is_leased [OF simple_lease.lease_link_axioms config start run valid] run valid
  show ?thesis by blast
qed


definition member :: "nat \<Rightarrow> (simple_world, indexed_rule list) shared" where
  "member g =
     (sample_shared
       [slot_key ''rec'' 0 \<mapsto> (''gw-0'', Some 9), slot_key ''rec'' 1 \<mapsto> (''gw-1'', Some 9)])
       \<lparr>sh_valid_until := Some 5, sh_owned_slot := Some g\<rparr>"


text \<open>
  C25: a successful refresh respects the limit it read. After a refresh that returns normally, an
  eligible gateway owns a slot whose index is below the value of the limit key that this very
  refresh read: a slot beyond a lowered limit is given up, a limit of zero or a missing key
  ends eligibility, and an election only tries slots below the limit.
\<close>

theorem refresh_respects_limit:
  assumes "lease_link exec live RT db set_db rely prefix token" and "lease_validate config = Inr u"
    and "lease_inv live db prefix token (lc_lease_ttl config) (tk_shared t)"
    and "read_limit RT (limit_key prefix) t = (Ready (Inr limit), t1)"
    and "refresh RT prefix token config t = (Ready (Inr ()), t')"
    and "lease_is_valid (tk_shared t')"
  shows "\<exists>slot < limit. sh_owned_slot (tk_shared t') = Some slot"
  by (rule lease_link.refresh_within_limit [OF assms(1,5,4,3,2,6)])

theorem refresh_respects_limit_witness:
  "\<exists>t' slot. refresh simple_runtime sample_prefix sample_token (lease_config_new ''gw-1'')
       (lease_at 0 None None snapshot_new one_slot []) = (Ready (Inr ()), t') \<and>
     slot < 1 \<and> sh_owned_slot (tk_shared t') = Some slot"
proof -
  have config: "lease_validate (lease_config_new ''gw-1'') = Inr ()"
    by (simp add: lease_validate_def lease_config_new_def as_millis_def subsec_nanos_def from_secs_def)
  note run = sample_refresh [of 0 snapshot_new "[]"]
  have inv: "lease_inv simple_live sw_db sample_prefix sample_token (lc_lease_ttl (lease_config_new ''gw-1''))
      (tk_shared (lease_at 0 None None snapshot_new one_slot []))"
    by (simp add: lease_inv_def lease_at_def)
  have valid: "lease_is_valid (tk_shared (lease_at (0 + 2000000) (Some (0 + 30001000000)) (Some 0) snapshot_new
      (won_slot 0) ([] @ [Command [''GET'', limit_key sample_prefix],
        Command (reserve_args (slot_key sample_prefix 0) sample_token 30000)])))"
    by (simp add: lease_at_def lease_is_valid_def)
  from refresh_respects_limit [OF simple_lease.lease_link_axioms config inv sample_read_limit run valid] run
  show ?thesis by blast
qed

end
