(* ===== verification/Redis_Admission_Correct.thy ===== *)
theory Redis_Admission_Correct
  imports Redis_Admission Gateway_Correct Lease_Correct
begin

text \<open>
  What the Redis provider guarantees: which commands an attempt sends with which outcome, what
  an attempt leaves in the discovery state, that an acquired ticket is backed by a reservation,
  that tickets only release and extend their own reservation, and that the provider keeps the
  contract the gateway relies on.
\<close>

section \<open>The requests of an attempt\<close>

abbreviation (input) get_url :: "redis_provider \<Rightarrow> redis_request" where
  "get_url self \<equiv> Command [''GET'', rp_recorder_url_key self]"

definition hget :: "redis_provider \<Rightarrow> (string \<times> nat) option \<Rightarrow> redis_request list" where
  "hget self quota =
     (case quota of None \<Rightarrow> [] | Some (f, _) \<Rightarrow> [Command [''HGET'', ps_counts_key (rp_policy self), f]])"

definition set_nx :: "redis_provider \<Rightarrow> string \<Rightarrow> string \<Rightarrow> redis_request" where
  "set_nx self scope token = Command (reserve_args (inflight_key self scope) token (rp_ttl_ms self))"

definition hincrby :: "redis_provider \<Rightarrow> (string \<times> nat) option \<Rightarrow> redis_request list" where
  "hincrby self quota =
     (case quota of
        None \<Rightarrow> [] | Some (f, _) \<Rightarrow> [Command [''HINCRBY'', ps_counts_key (rp_policy self), f, ''1'']])"

text \<open>All requests of an attempt, in order; \<open>prefix_of\<close> for one that ended early.\<close>

definition full_attempt ::
  "redis_provider \<Rightarrow> string \<Rightarrow> (string \<times> nat) option \<Rightarrow> string \<Rightarrow> redis_request list" where
  "full_attempt self scope quota token =
     [get_url self] @ hget self quota @ [set_nx self scope token] @ hincrby self quota"

definition prefix_of :: "'a list \<Rightarrow> 'a list \<Rightarrow> bool" where
  "prefix_of xs ys \<longleftrightarrow> (\<exists>zs. ys = xs @ zs)"

lemma prefix_ofI: "ys = xs @ zs \<Longrightarrow> prefix_of xs ys"
  by (auto simp: prefix_of_def)

text \<open>What the outcome of an attempt says about the requests it sent.\<close>

fun outcome_sent ::
  "('h, 'u) http_lib \<Rightarrow> redis_provider \<Rightarrow> string \<Rightarrow> (string \<times> nat) option \<Rightarrow> string \<Rightarrow>
     redis_request list \<Rightarrow> (admission_error + 'u acquire_outcome) async \<Rightarrow> bool" where
  "outcome_sent L self scope quota token sent (Ready (Inr NotParticipant)) \<longleftrightarrow> sent = []"
| "outcome_sent L self scope quota token sent (Ready (Inr NotEligible)) \<longleftrightarrow> sent = []"
| "outcome_sent L self scope quota token sent (Ready (Inr NoRecorder)) \<longleftrightarrow> sent = [] \<or> sent = [get_url self]"
| "outcome_sent L self scope quota token sent (Ready (Inr QuotaExhausted)) \<longleftrightarrow>
     quota \<noteq> None \<and> sent = [get_url self] @ hget self quota"
| "outcome_sent L self scope quota token sent (Ready (Inr Busy)) \<longleftrightarrow>
     sent = [] \<or> sent = [get_url self] @ hget self quota @ [set_nx self scope token]"
| "outcome_sent L self scope quota token sent (Ready (Inr (Acquired ticket))) \<longleftrightarrow>
     sent = full_attempt self scope quota token \<and> length token = 64 \<and>
     ticket_scope L ticket = Some scope \<and> ticket_token L ticket = Some token \<and> ticket_good L ticket"
| "outcome_sent L self scope quota token sent _ \<longleftrightarrow> prefix_of sent (full_attempt self scope quota token)"

text \<open>The outcomes after which discovery stays available.\<close>

fun keeps_available :: "(admission_error + 'u acquire_outcome) async \<Rightarrow> bool" where
  "keeps_available (Ready (Inr QuotaExhausted)) = True"
| "keeps_available (Ready (Inr Busy)) = True"
| "keeps_available (Ready (Inr (Acquired _))) = True"
| "keeps_available _ = False"

text \<open>An attempt's result without the flag for the guard.\<close>

definition drop_flag :: "(admission_error + bool \<times> 'a) async \<Rightarrow> (admission_error + 'a) async" where
  "drop_flag = map_async (map_sum id snd)"

text \<open>The log so far, as a postcondition.\<close>

abbreviation (input) at_log :: "redis_request list \<Rightarrow> 'a async \<Rightarrow> ('w, 'i) task \<Rightarrow> bool" where
  "at_log l out t \<equiv> tk_log t = l"

lemma runs_command: "runs (\<lambda>t. tk_log t = l) (command RT args) (at_log (l @ [Command args]))"
  by (rule runsI) (simp add: command_def redis_call_log)

lemma runs_reserve:
  "runs (\<lambda>t. tk_log t = l) (reserve RT key token ms) (at_log (l @ [Command (reserve_args key token ms)]))"
  by (rule runsI) (simp add: reserve_log)

lemma runs_request_token:
  "runs (\<lambda>t. tk_log t = l) (request_token RT)
     (\<lambda>out t. tk_log t = l \<and> (\<exists>a b. out = Ready (hex32 a @ hex32 b)))"
  by (rule runsI) (auto simp: request_token_def await_def random_u128_def split: prod.splits)

lemma runs_check_quota:
  "runs (\<lambda>t. tk_log t = l) (check_quota RT self quota)
     (\<lambda>out t. tk_log t = l @ hget self quota \<and> (out = Ready (Inr False) \<longrightarrow> quota \<noteq> None))"
proof (cases quota)
  case None
  then show ?thesis by (auto simp: check_quota_def hget_def runs_def)
next
  case (Some q)
  then show ?thesis
    by (auto simp: check_quota_def hget_def runs_def command_def await_call_log split: prod.splits)
qed

lemma runs_count_case:
  "runs (\<lambda>t. tk_log t = l) (count_case RT self quota) (at_log (l @ hincrby self quota))"
  by (auto simp: count_case_def hincrby_def runs_def command_def await_call_log split: prod.splits option.splits)

definition attempt_post ::
  "('h, 'u) http_lib \<Rightarrow> redis_provider \<Rightarrow> string \<Rightarrow> (string \<times> nat) option \<Rightarrow> redis_request list \<Rightarrow>
     (admission_error + bool \<times> 'u acquire_outcome) async \<Rightarrow> ('w, 'i) task \<Rightarrow> bool" where
  "attempt_post L self scope quota l out t \<longleftrightarrow>
     (\<exists>token sent. tk_log t = l @ sent \<and> outcome_sent L self scope quota token sent (drop_flag out)) \<and>
     (\<forall>available outcome. out = Ready (Inr (available, outcome)) \<longrightarrow>
        available = keeps_available (Ready (Inr outcome)))"

lemma attempt_postI:
  assumes "tk_log t = l @ sent" and "outcome_sent L self scope quota token sent (drop_flag out)"
    and "\<And>available outcome. out = Ready (Inr (available, outcome)) \<Longrightarrow>
      available = keeps_available (Ready (Inr outcome))"
  shows "attempt_post L self scope quota l out t"
  using assms unfolding attempt_post_def by blast

lemma drop_flag_simps [simp]:
  "drop_flag (Ready (Inr (b, x))) = Ready (Inr x)"
  "drop_flag (Ready (Inl e)) = Ready (Inl e)"
  "drop_flag Cancelled = Cancelled"
  "drop_flag Panicked = Panicked"
  by (simp_all add: drop_flag_def)

lemma drop_flag_ReadyE:
  assumes "drop_flag r = Ready (Inr x)"
  obtains b where "r = Ready (Inr (b, x))"
proof (cases r)
  case (Ready y)
  with assms obtain p where "y = Inr p" and "snd p = x" by (cases y) (auto simp: drop_flag_def)
  with Ready show thesis by (intro that [of "fst p"]) auto
qed (use assms in auto)

lemma keeps_available_early: "\<nexists>p. r = Ready (Inr p) \<Longrightarrow> \<not> keeps_available (drop_flag r)"
proof (cases r)
  case (Ready x)
  assume "\<nexists>p. r = Ready (Inr p)"
  with Ready show ?thesis by (cases x) auto
qed auto

text \<open>Ending early: an error, a cancellation or a panic after some of the requests.\<close>

lemma attempt_post_early:
  assumes "tk_log t = l @ sent" and "prefix_of sent (full_attempt self scope quota token)"
    and "out = Cancelled \<or> out = Panicked \<or> (\<exists>e. out = Ready (Inl e))"
  shows "attempt_post L self scope quota l out t"
  using assms by (intro attempt_postI [of t l sent L self scope quota token]) auto

context http_crate
begin

lemma ticket_for_token:
  assumes "bind_ok (ticket_new L scope token) (\<lambda>t. with_origin L t origin) = Inr ticket"
  shows "ticket_scope L ticket = Some scope" and "ticket_token L ticket = Some token" and "ticket_good L ticket"
proof -
  from assms obtain t0 where new: "ticket_new L scope token = Inr t0" and "with_origin L t0 origin = Inr ticket"
    by (auto simp: bind_ok_Inr_iff)
  then have eq: "ticket = t0\<lparr>at_origin := Some origin\<rparr>" and auth: "uri_authority L origin \<noteq> None"
    by (auto simp: with_origin_Inr_iff)
  from ticket_new_accessors [OF new] show "ticket_scope L ticket = Some scope" and "ticket_token L ticket = Some token"
    by (simp_all add: eq ticket_scope_def ticket_token_def)
  from new have "t0\<lparr>at_origin := None\<rparr> = t0" by (auto simp: ticket_new_Inr_iff)
  with new auth show "ticket_good L ticket" by (auto simp: ticket_good_def ticket_wf_def eq)
qed

lemma ticket_made:
  assumes scope: "\<not> trim_is_empty scope" "graphic scope" and origin: "is_origin L origin"
  shows "\<exists>ticket. bind_ok (ticket_new L scope (hex32 a @ hex32 b)) (\<lambda>t. with_origin L t origin) = Inr ticket"
proof -
  have hex: "graphic (hex32 a @ hex32 b)"
    using hex32_graphic [of _ a] hex32_graphic [of _ b] by (fastforce simp: graphic_def list_all_iff)
  obtain c s where cs: "hex32 a = c # s"
    by (metis length_hex32 length_0_conv neq_Nil_conv zero_neq_numeral)
  with hex32_graphic [of c a] trim_is_empty_graphic [of c "s @ hex32 b"] have "\<not> trim_is_empty (hex32 a @ hex32 b)"
    by simp
  moreover have "is_ascii scope" using scope(2) by (auto simp: graphic_def is_ascii_def list_all_iff)
  ultimately have "\<exists>t. ticket_new L scope (hex32 a @ hex32 b) = Inr t"
    using scope value_graphic [OF scope(2)] value_graphic [OF hex]
    by (auto simp: ticket_new_Inr_iff hex32_ascii)
  with origin show ?thesis by (auto simp: with_origin_def is_origin_def)
qed

lemma runs_reserve_slot:
  "runs (\<lambda>t. tk_log t = l @ [get_url self] @ hget self quota)
     (reserve_slot L RT self scope quota origin) (attempt_post L self scope quota l)"
proof -
  let ?Q = "attempt_post L self scope quota l"
  let ?l1 = "l @ [get_url self] @ hget self quota"
  show ?thesis
    unfolding reserve_slot_def
  proof (rule runs_await [OF runs_request_token [of ?l1]])
    fix token
    let ?made = "bind_ok (ticket_new L scope token) (\<lambda>t. with_origin L t origin)"
    show "runs (\<lambda>t. tk_log t = ?l1 \<and> (\<exists>a b. Ready token = Ready (hex32 a @ hex32 b)))
      (case ?made of Inl e \<Rightarrow> ret (Inl e)
       | Inr ticket \<Rightarrow>
           (case ticket_token L ticket of
              None \<Rightarrow> panic
            | Some token' \<Rightarrow>
                await_ok (reserve RT (inflight_key self scope) token' (rp_ttl_ms self)) (\<lambda>reserved.
                  if \<not> reserved then ret (Inr (True, Busy))
                  else await_ok (count_case RT self quota) (\<lambda>_.
                         \<lambda>t. if \<not> is_participating self (tk_shared t)
                             then (Ready (Inl ParticipationLost), t)
                             else (Ready (Inr (True, Acquired ticket)), t))))) ?Q"
    proof (cases ?made)
      case (Inl e)
      then show ?thesis
        by (auto intro!: runs_ret attempt_post_early [where sent = "[get_url self] @ hget self quota" and token = token]
            simp: prefix_of_def full_attempt_def)
    next
      case (Inr ticket)
      note tk = ticket_for_token [OF Inr]
      show ?thesis
      proof (cases "length token = 64")
        case False
        then show ?thesis by (auto simp: runs_def)
      next
        case len: True
        let ?l2 = "?l1 @ [set_nx self scope token]"
        let ?l3 = "?l2 @ hincrby self quota"
        have set: "runs (\<lambda>t. tk_log t = ?l1) (reserve RT (inflight_key self scope) token (rp_ttl_ms self))
            (at_log ?l2)"
          using runs_reserve [of ?l1] by (simp add: set_nx_def)
        have "runs (\<lambda>t. tk_log t = ?l1)
          (await_ok (reserve RT (inflight_key self scope) token (rp_ttl_ms self)) (\<lambda>reserved.
             if \<not> reserved then ret (Inr (True, Busy))
             else await_ok (count_case RT self quota) (\<lambda>_.
                    \<lambda>t. if \<not> is_participating self (tk_shared t)
                        then (Ready (Inl ParticipationLost), t)
                        else (Ready (Inr (True, Acquired ticket)), t)))) ?Q"
        proof (rule runs_await_ok [OF set], goal_cases)
          case (1 reserved)
          show ?case
          proof (rule runs_if)
            show "runs (\<lambda>t. tk_log t = ?l2) (ret (Inr (True, Busy))) ?Q"
              by (auto intro!: runs_ret attempt_postI [where token = token
                    and sent = "[get_url self] @ hget self quota @ [set_nx self scope token]"])
            show "runs (\<lambda>t. tk_log t = ?l2) (await_ok (count_case RT self quota) (\<lambda>_.
                    \<lambda>t. if \<not> is_participating self (tk_shared t)
                        then (Ready (Inl ParticipationLost), t)
                        else (Ready (Inr (True, Acquired ticket)), t))) ?Q"
            proof (rule runs_await_ok [OF runs_count_case [of ?l2]], goal_cases)
              case 1
              show ?case
                by (rule runsI) (use tk len in \<open>auto intro!: attempt_postI [where token = token
                    and sent = "full_attempt self scope quota token"] simp: full_attempt_def prefix_of_def\<close>)
            qed (auto intro!: attempt_post_early [where token = token and sent = "full_attempt self scope quota token"]
                simp: full_attempt_def prefix_of_def)
          qed
        qed (auto intro!: attempt_post_early [where token = token
              and sent = "[get_url self] @ hget self quota @ [set_nx self scope token]"]
            simp: full_attempt_def prefix_of_def)
        with Inr tk(2) show ?thesis by (auto intro: runs_weaken)
      qed
    qed
  qed auto
qed

lemma runs_attempt:
  "runs (\<lambda>t. tk_log t = l) (attempt L address_json RT self scope quota) (attempt_post L self scope quota l)"
proof -
  let ?Q = "attempt_post L self scope quota l"
  let ?l0 = "l @ [get_url self]"
  let ?l1 = "l @ [get_url self] @ hget self quota"
  have url: "?Q out t" if "tk_log t = ?l0" "out = Cancelled \<or> out = Panicked \<or> (\<exists>e. out = Ready (Inl e))" for out t
    using that by (intro attempt_post_early [where sent = "[get_url self]" and token = "[]"])
      (auto simp: prefix_of_def full_attempt_def)
  have quota: "?Q out t" if "tk_log t = ?l1" "out = Cancelled \<or> out = Panicked \<or> (\<exists>e. out = Ready (Inl e))" for out t
    using that by (intro attempt_post_early [where sent = "[get_url self] @ hget self quota" and token = "[]"])
      (auto simp: prefix_of_def full_attempt_def)
  have found: "runs (\<lambda>t. tk_log t = ?l0) (await_ok (check_quota RT self quota) (\<lambda>room.
      if \<not> room then ret (Inr (True, QuotaExhausted))
      else reserve_slot L RT self scope quota origin)) ?Q" for origin
  proof (rule runs_await_ok [OF runs_check_quota], goal_cases)
    case (1 room)
    show ?case
    proof (cases room)
      case False
      then show ?thesis
        by (auto intro!: runs_ret attempt_postI [where token = "[]" and sent = "[get_url self] @ hget self quota"])
    next
      case True
      have "runs (\<lambda>t. tk_log t = ?l0 @ hget self quota \<and> (Ready (Inr room) = Ready (Inr False) \<longrightarrow> quota \<noteq> None))
        (reserve_slot L RT self scope quota origin) ?Q"
        by (rule runs_weaken [OF runs_reserve_slot [of l]]) auto
      with True show ?thesis by simp
    qed
  qed (auto intro!: quota)
  show ?thesis
    unfolding attempt_def
  proof (rule runs_await_ok [OF runs_command], goal_cases)
    case (1 result)
    have none: "runs (\<lambda>t. tk_log t = ?l0) (ret (Inr (False, NoRecorder))) ?Q"
      by (auto intro!: runs_ret attempt_postI [where token = "[]" and sent = "[get_url self]"])
    have bad: "runs (\<lambda>t. tk_log t = ?l0) (ret (Inl e)) ?Q" for e
      by (auto intro!: runs_ret url)
    show ?case
      using none bad found by (cases result) (auto split: sum.split)
  qed (auto intro!: url)
qed

end

section \<open>The whole acquisition\<close>

lemma with_lookup_run:
  assumes "body t = (r, t1)"
  shows "with_lookup guard body t =
    (drop_flag r,
     t1\<lparr>tk_shared := (tk_shared t1)\<lparr>sh_discovery :=
       (if \<exists>x. r = Ready (Inr (True, x)) then lookup_available else lookup_drop)
         (sh_now (tk_shared t1)) guard (sh_discovery (tk_shared t1))\<rparr>\<rparr>)"
  using assms
  by (auto simp: with_lookup_def Let_def split: async.splits sum.splits)

lemma acquire_started:
  assumes "is_participating self (tk_shared t)" and "inflight_key self scope \<noteq> rp_recorder_url_key self"
    and "try_lookup (sh_now (tk_shared t)) (sh_discovery (tk_shared t)) = (Inr guard, state)"
  shows "acquire L J RT self scope quota t =
    with_lookup guard (attempt L J RT self scope quota) (t\<lparr>tk_shared := (tk_shared t)\<lparr>sh_discovery := state\<rparr>\<rparr>)"
  using assms by (simp add: acquire_def)

text \<open>The ways an acquisition ends without an attempt.\<close>

lemma acquire_cases:
  obtains (local) r where "acquire L J RT self scope quota t = (Ready r, t)"
      and "r \<in> {Inr NotParticipant, Inr NoRecorder, Inr Busy, Inl (Backend ''recorder URL key conflicts with slot key'')}"
  | (started) guard state where "is_participating self (tk_shared t)"
      and "inflight_key self scope \<noteq> rp_recorder_url_key self"
      and "try_lookup (sh_now (tk_shared t)) (sh_discovery (tk_shared t)) = (Inr guard, state)"
      and "acquire L J RT self scope quota t =
        with_lookup guard (attempt L J RT self scope quota) (t\<lparr>tk_shared := (tk_shared t)\<lparr>sh_discovery := state\<rparr>\<rparr>)"
proof (cases "is_participating self (tk_shared t) \<and> inflight_key self scope \<noteq> rp_recorder_url_key self")
  case False
  show ?thesis
  proof (rule local)
    show "acquire L J RT self scope quota t =
        (Ready (if \<not> is_participating self (tk_shared t) then Inr NotParticipant
          else Inl (Backend ''recorder URL key conflicts with slot key'')), t)"
      using False by (simp add: acquire_def)
  qed simp
next
  case True
  obtain r state where look: "try_lookup (sh_now (tk_shared t)) (sh_discovery (tk_shared t)) = (r, state)"
    by fastforce
  show ?thesis
  proof (cases r)
    case (Inl why)
    with True look show ?thesis
      by (intro local [of "Inr (case why of CoolingDown \<Rightarrow> NoRecorder | InProgress \<Rightarrow> Busy)"])
        (auto simp: acquire_def split: lookup_unavailable.splits)
  next
    case (Inr guard)
    with True look show ?thesis by (intro started acquire_started) auto
  qed
qed

context http_crate
begin

lemma acquire_outcome_sent:
  assumes "acquire L J RT self scope quota t = (out, t')"
  shows "\<exists>token sent. tk_log t' = tk_log t @ sent \<and> outcome_sent L self scope quota token sent out"
proof (rule acquire_cases [of L J RT self scope quota t])
  fix r
  assume "acquire L J RT self scope quota t = (Ready r, t)"
    and "r \<in> {Inr NotParticipant, Inr NoRecorder, Inr Busy, Inl (Backend ''recorder URL key conflicts with slot key'')}"
  with assms show ?thesis by (intro exI [of _ "[]"]) (auto simp: prefix_of_def)
next
  fix guard state
  let ?t0 = "t\<lparr>tk_shared := (tk_shared t)\<lparr>sh_discovery := state\<rparr>\<rparr>"
  assume run: "acquire L J RT self scope quota t = with_lookup guard (attempt L J RT self scope quota) ?t0"
  obtain r t1 where att: "attempt L J RT self scope quota ?t0 = (r, t1)" by fastforce
  have "attempt_post L self scope quota (tk_log t) r t1"
    by (rule runsD [OF runs_attempt _ att]) simp
  then show ?thesis
    using assms run with_lookup_run [where body = "attempt L J RT self scope quota" and guard = guard, OF att] by (auto simp: attempt_post_def)
qed

lemma acquire_discovery_after:
  assumes "is_participating self (tk_shared t)" and "inflight_key self scope \<noteq> rp_recorder_url_key self"
    and "try_lookup (sh_now (tk_shared t)) (sh_discovery (tk_shared t)) = (Inr guard, state)"
    and "acquire L J RT self scope quota t = (out, t')"
  shows "sh_discovery (tk_shared t') =
    \<lparr>ds_retry_after = (if keeps_available out then None else Some (sh_now (tk_shared t') + from_secs 10)),
     ds_checking = False\<rparr>"
proof -
  let ?t0 = "t\<lparr>tk_shared := (tk_shared t)\<lparr>sh_discovery := state\<rparr>\<rparr>"
  obtain r t1 where att: "attempt L J RT self scope quota ?t0 = (r, t1)" by fastforce
  have post: "attempt_post L self scope quota (tk_log t) r t1"
    by (rule runsD [OF runs_attempt _ att]) simp
  have guard: "\<not> lk_available guard" using assms(3) by (auto simp: try_lookup_cases)
  have run: "(out, t') = with_lookup guard (attempt L J RT self scope quota) ?t0"
    using assms(4) acquire_started [OF assms(1-3), of L J RT quota] by simp
  have flag: "(\<exists>x. r = Ready (Inr (True, x))) \<longleftrightarrow> keeps_available (drop_flag r)"
  proof (cases "\<exists>p. r = Ready (Inr p)")
    case True
    then obtain av x where "r = Ready (Inr (av, x))" by auto
    with post show ?thesis by (simp add: attempt_post_def)
  next
    case False
    then show ?thesis using keeps_available_early [OF False] by auto
  qed
  show ?thesis
    using run guard flag unfolding with_lookup_run [where body = "attempt L J RT self scope quota" and guard = guard, OF att]
    by (auto simp: lookup_available_def lookup_drop_def RECORDER_RETRY_INTERVAL_def)
qed

end

section \<open>Acquired means reserved\<close>

lemma attempt_acquiredE:
  assumes "attempt L J RT self scope quota t0 = (Ready (Inr (av, Acquired ticket)), t1)"
  obtains v origin ta tb where "command RT [''GET'', rp_recorder_url_key self] t0 = (Ready (Inr (BulkString v)), ta)"
    and "recorder_origin L J v = Inr origin"
    and "check_quota RT self quota ta = (Ready (Inr True), tb)"
    and "reserve_slot L RT self scope quota origin tb = (Ready (Inr (av, Acquired ticket)), t1)"
proof -
  from assms obtain r ta where get: "command RT [''GET'', rp_recorder_url_key self] t0 = (Ready (Inr r), ta)"
    and rest: "(case r of
         NilReply \<Rightarrow> ret (Inr (False, NoRecorder))
       | BulkString bytes \<Rightarrow>
           (case recorder_origin L J bytes of
              Inl e \<Rightarrow> ret (Inl e)
            | Inr origin \<Rightarrow>
                await_ok (check_quota RT self quota) (\<lambda>room.
                  if \<not> room then ret (Inr (True, QuotaExhausted))
                  else reserve_slot L RT self scope quota origin))
       | _ \<Rightarrow> ret (Inl InvalidRecorderUrl)) ta = (Ready (Inr (av, Acquired ticket)), t1)"
    unfolding attempt_def by (elim await_ok_InrE)
  from rest obtain v origin where r: "r = BulkString v" and o: "recorder_origin L J v = Inr origin"
    by (cases r) (auto split: sum.splits)
  from rest r o obtain room tb where q: "check_quota RT self quota ta = (Ready (Inr room), tb)"
    and rest2: "(if \<not> room then ret (Inr (True, QuotaExhausted))
        else reserve_slot L RT self scope quota origin) tb = (Ready (Inr (av, Acquired ticket)), t1)"
    by (auto elim: await_ok_InrE)
  from rest2 have room by (cases room) auto
  with get r o q rest2 that show thesis by simp
qed

lemma reserve_slot_acquiredE:
  assumes "reserve_slot L RT self scope quota origin tb = (Ready (Inr (av, Acquired ticket)), t1)"
  obtains a token tc td where "request_token RT tb = (Ready a, tc)"
    and "ticket_token L ticket = Some token"
    and "bind_ok (ticket_new L scope a) (\<lambda>t. with_origin L t origin) = Inr ticket"
    and "reserve RT (inflight_key self scope) token (rp_ttl_ms self) tc = (Ready (Inr True), td)"
    and "count_case RT self quota td = (Ready (Inr ()), t1)"
    and "is_participating self (tk_shared t1)"
proof -
  let ?final = "\<lambda>ticket t. if \<not> is_participating self (tk_shared t) then (Ready (Inl ParticipationLost), t)
    else (Ready (Inr (True, Acquired ticket)), t)"
  from assms obtain a tc where tok: "request_token RT tb = (Ready a, tc)"
    and rest: "(case bind_ok (ticket_new L scope a) (\<lambda>t. with_origin L t origin) of
         Inl e \<Rightarrow> ret (Inl e)
       | Inr ticket \<Rightarrow>
           (case ticket_token L ticket of
              None \<Rightarrow> panic
            | Some token' \<Rightarrow>
                await_ok (reserve RT (inflight_key self scope) token' (rp_ttl_ms self)) (\<lambda>reserved.
                  if \<not> reserved then ret (Inr (True, Busy))
                  else await_ok (count_case RT self quota) (\<lambda>_. ?final ticket)))) tc =
      (Ready (Inr (av, Acquired ticket)), t1)"
    unfolding reserve_slot_def by (elim await_ReadyE)
  from rest obtain tk where tk: "bind_ok (ticket_new L scope a) (\<lambda>t. with_origin L t origin) = Inr tk"
    by (auto split: sum.splits)
  with rest obtain token where token: "ticket_token L tk = Some token"
    by (auto simp: panic_def split: option.splits)
  from rest tk token obtain res td where set: "reserve RT (inflight_key self scope) token (rp_ttl_ms self) tc = (Ready (Inr res), td)"
    and rest2: "(if \<not> res then ret (Inr (True, Busy)) else await_ok (count_case RT self quota) (\<lambda>_. ?final tk)) td =
      (Ready (Inr (av, Acquired ticket)), t1)"
    by (auto elim: await_ok_InrE)
  from rest2 have res by (cases res) auto
  with rest2 have cont: "await_ok (count_case RT self quota) (\<lambda>_. ?final tk) td = (Ready (Inr (av, Acquired ticket)), t1)"
    by simp
  then obtain u te where count: "count_case RT self quota td = (Ready (Inr u), te)"
    and fin: "?final tk te = (Ready (Inr (av, Acquired ticket)), t1)"
    by (elim await_ok_InrE)
  from fin have "t1 = te" "ticket = tk" "is_participating self (tk_shared t1)" by (auto split: if_splits)
  with that tok tk token set count \<open>res\<close> show thesis by simp
qed

text \<open>With a quota, an acquired ticket was preceded by a count below the limit and followed by an increment.\<close>

lemma check_quota_room:
  assumes "check_quota RT self (Some (field, limit)) t = (Ready (Inr True), t')"
  shows "\<exists>v n. rt_redis RT (Command [''HGET'', ps_counts_key (rp_policy self), field]) (tk_shared t) =
      (Ready (Inr v), tk_shared t') \<and> decimal_reply invalid_count v = Inr n \<and> n < limit"
  using assms await_call_shared unfolding check_quota_def command_def by (fastforce simp: bind_ok_Inr_iff)

lemma count_case_done:
  assumes "count_case RT self (Some (field, limit)) t = (Ready (Inr ()), t')"
  shows "\<exists>c. rt_redis RT (Command [''HINCRBY'', ps_counts_key (rp_policy self), field, ''1'']) (tk_shared t) =
      (Ready (Inr (IntReply c)), tk_shared t') \<and> c > 0"
proof -
  let ?f = "\<lambda>v. case v of
      IntReply count \<Rightarrow> if count > 0 then Inr () else Inl (invalid ''unexpected API count increment response'')
    | _ \<Rightarrow> Inl (invalid ''unexpected API count increment response'')"
  from assms have "await_ok (redis_call RT (Command [''HINCRBY'', ps_counts_key (rp_policy self), field, ''1'']))
      (\<lambda>v. ret (?f v)) t = (Ready (Inr ()), t')"
    by (simp add: count_case_def command_def)
  from await_call_shared [where f = ?f, OF this] obtain v where
    "rt_redis RT (Command [''HINCRBY'', ps_counts_key (rp_policy self), field, ''1'']) (tk_shared t) =
      (Ready (Inr v), tk_shared t')" and "?f v = Inr ()"
    by auto
  then show ?thesis by (auto split: redis_value.splits if_splits)
qed

lemma acquire_acquiredE:
  assumes "acquire L J RT self scope quota t = (Ready (Inr (Acquired ticket)), t')"
  obtains ta tb td t1 where "check_quota RT self quota ta = (Ready (Inr True), tb)"
    and "count_case RT self quota td = (Ready (Inr ()), t1)"
proof (cases rule: acquire_cases [of L J RT self scope quota t])
  case (local r)
  with assms that show thesis by auto
next
  case (started guard state)
  let ?t0 = "t\<lparr>tk_shared := (tk_shared t)\<lparr>sh_discovery := state\<rparr>\<rparr>"
  obtain r t1 where att: "attempt L J RT self scope quota ?t0 = (r, t1)" by fastforce
  from assms started(4) with_lookup_run [where body = "attempt L J RT self scope quota" and guard = guard, OF att]
  have "drop_flag r = Ready (Inr (Acquired ticket))" by simp
  then obtain av where r: "r = Ready (Inr (av, Acquired ticket))" by (elim drop_flag_ReadyE)
  from att [unfolded r] show thesis
    by (elim attempt_acquiredE reserve_slot_acquiredE) (rule that)
qed

context token_link
begin

lemma command_clock: "command RT args t = (out, t') \<Longrightarrow> sh_now (tk_shared t) \<le> sh_now (tk_shared t')"
  by (drule command_shared) (auto dest: call_clock)

lemma check_quota_clock:
  assumes "check_quota RT self quota t = (out, t')"
  shows "sh_now (tk_shared t) \<le> sh_now (tk_shared t')"
proof (cases quota)
  case None
  with assms show ?thesis by (auto simp: check_quota_def)
next
  case (Some q)
  obtain f l where "q = (f, l)" by fastforce
  with assms Some await_call_shared show ?thesis
    unfolding check_quota_def command_def by (fastforce dest: await_call_shared call_clock)
qed

lemma request_token_shared:
  assumes "request_token RT t = (out, t')"
  shows "sh_now (tk_shared t') = sh_now (tk_shared t)"
  using assms by (auto simp: request_token_def await_def random_u128_def split: prod.splits)

lemma count_case_held:
  assumes "count_case RT self quota t = (out, t')"
    and "holds_until (live (sh_now (tk_shared t)) (db (sh_world (tk_shared t))) key) token d"
    and "sh_now (tk_shared t') < d"
  shows "holds_until (live (sh_now (tk_shared t')) (db (sh_world (tk_shared t'))) key) token d"
proof (cases quota)
  case None
  with assms show ?thesis by (auto simp: count_case_def)
next
  case (Some q)
  obtain f l where q: "q = (f, l)" by fastforce
  from assms(1) Some q await_call_shared obtain r where
    "rt_redis RT (Command [''HINCRBY'', ps_counts_key (rp_policy self), f, ''1'']) (tk_shared t) = (r, tk_shared t')"
    unfolding count_case_def command_def by fastforce
  from held_over_call [OF this _ assms(2,3)] show ?thesis by (simp add: hash_keeps)
qed

lemma count_case_clock:
  assumes "count_case RT self quota t = (out, t')"
  shows "sh_now (tk_shared t) \<le> sh_now (tk_shared t')"
proof (cases quota)
  case None
  with assms show ?thesis by (auto simp: count_case_def)
next
  case (Some q)
  obtain f l where "q = (f, l)" by fastforce
  with assms Some show ?thesis
    unfolding count_case_def command_def by (fastforce dest: await_call_shared call_clock)
qed

lemma acquired_held:
  assumes run: "acquire L J RT self scope quota t = (Ready (Inr (Acquired ticket)), t')"
    and tok: "ticket_token L ticket = Some token" and key: "inflight_key self scope = key"
    and d: "d \<le> sh_now (tk_shared t) + from_millis (rp_ttl_ms self)" "sh_now (tk_shared t') < d"
  shows "holds_until (live (sh_now (tk_shared t')) (db (sh_world (tk_shared t'))) key) token d"
proof (rule acquire_cases [of L J RT self scope quota t])
  fix r
  assume "acquire L J RT self scope quota t = (Ready r, t)"
    and "r \<in> {Inr NotParticipant, Inr NoRecorder, Inr Busy, Inl (Backend ''recorder URL key conflicts with slot key'')}"
  with run show ?thesis by auto
next
  fix guard state
  let ?t0 = "t\<lparr>tk_shared := (tk_shared t)\<lparr>sh_discovery := state\<rparr>\<rparr>"
  assume look: "acquire L J RT self scope quota t = with_lookup guard (attempt L J RT self scope quota) ?t0"
  obtain r t1 where att: "attempt L J RT self scope quota ?t0 = (r, t1)" by fastforce
  note wl = with_lookup_run [where body = "attempt L J RT self scope quota" and guard = guard, OF att]
  from run look wl have "drop_flag r = Ready (Inr (Acquired ticket))"
    and now: "sh_now (tk_shared t') = sh_now (tk_shared t1)" "sh_world (tk_shared t') = sh_world (tk_shared t1)"
    by auto
  then obtain av where r: "r = Ready (Inr (av, Acquired ticket))"
    by (elim drop_flag_ReadyE)
  show ?thesis
  proof (rule attempt_acquiredE [OF att [unfolded r]])
    fix v origin ta tb
    assume get: "command RT [''GET'', rp_recorder_url_key self] ?t0 = (Ready (Inr (BulkString v)), ta)"
      and q: "check_quota RT self quota ta = (Ready (Inr True), tb)"
      and slot: "reserve_slot L RT self scope quota origin tb = (Ready (Inr (av, Acquired ticket)), t1)"
    show ?thesis
    proof (rule reserve_slot_acquiredE [OF slot])
      fix a token' tc td
      assume rt: "request_token RT tb = (Ready a, tc)" and tok': "ticket_token L ticket = Some token'"
        and set: "reserve RT (inflight_key self scope) token' (rp_ttl_ms self) tc = (Ready (Inr True), td)"
        and count: "count_case RT self quota td = (Ready (Inr ()), t1)"
      have "sh_now (tk_shared t) \<le> sh_now (tk_shared tc)"
        using command_clock [OF get] check_quota_clock [OF q] request_token_shared [OF rt] by simp
      moreover have "sh_now (tk_shared td) < d"
        using count_case_clock [OF count] d(2) now by simp
      ultimately have "holds_until (live (sh_now (tk_shared td)) (db (sh_world (tk_shared td))) key) token d"
        using reserve_holds [of "rp_ttl_ms self" tc td d] set tok tok' key d(1) by simp
      from count_case_held [OF count this] d(2) now show ?thesis by simp
    qed
  qed
qed

text \<open>The slot of somebody else's live token cannot be acquired.\<close>

abbreviation (input) held :: "instant \<Rightarrow> ('w, 'i) task \<Rightarrow> bool" where
  "held d t \<equiv> holds_until (live (sh_now (tk_shared t)) (db (sh_world (tk_shared t))) key) token d"

lemma reserve_occupied:
  assumes "reserve RT key token' ms t = (Ready (Inr b), t')" and "0 < ms" and "ms \<le> i64_max"
    and held: "held d t" and late: "sh_now (tk_shared t') < d"
  shows "\<not> b"
proof -
  from reserve_shared [OF assms(1)] obtain v where
    r: "rt_redis RT (Command (reserve_args key token' ms)) (tk_shared t) = (Ready (Inr v), tk_shared t')"
    and v: "reserve_reply v = Inr b" by auto
  show ?thesis
  proof (rule served_ok [OF r])
    fix s1 d1
    assume s1: "rely (tk_shared t) s1"
      and run: "run_request exec (sh_now s1) (Command (reserve_args key token' ms)) (db (sh_world s1)) = (Inr v, d1)"
      and s2: "rely (s1\<lparr>sh_world := set_db d1 (sh_world s1)\<rparr>) (tk_shared t')"
    from clock [OF s2] late have "sh_now s1 < d" by simp
    with keeps_token [OF s1 held] have "live (sh_now s1) (db (sh_world s1)) key \<noteq> None"
      by (auto simp: holds_until_def split: option.splits)
    from set_nx_held [OF this assms(2,3), of token'] run have "v = NilReply" by simp
    with v show "\<not> b" by (simp add: reserve_reply_def)
  qed
qed

lemma get_held:
  assumes "command RT [''GET'', k] t = (out, t')" and "held d t" and "sh_now (tk_shared t') < d"
  shows "held d t'"
proof -
  from command_shared [OF assms(1)] obtain r where
    "rt_redis RT (Command [''GET'', k]) (tk_shared t) = (r, tk_shared t')" by blast
  from held_over_call [OF this _ assms(2,3)] show ?thesis by (simp add: get_keeps)
qed

lemma check_quota_held:
  assumes "check_quota RT self quota t = (out, t')" and "held d t" and "sh_now (tk_shared t') < d"
  shows "held d t'"
proof (cases quota)
  case None
  with assms show ?thesis by (auto simp: check_quota_def)
next
  case (Some q)
  obtain f l where q: "q = (f, l)" by fastforce
  from assms(1) Some q await_call_shared obtain r where
    "rt_redis RT (Command [''HGET'', ps_counts_key (rp_policy self), f]) (tk_shared t) = (r, tk_shared t')"
    unfolding check_quota_def command_def by fastforce
  from held_over_call [OF this _ assms(2,3)] show ?thesis by (simp add: hash_keeps)
qed

lemma request_token_held:
  assumes "request_token RT t = (out, t')"
  shows "held d t' \<longleftrightarrow> held d t"
proof -
  from assms have "db (sh_world (tk_shared t')) = db (sh_world (tk_shared t))"
    by (auto simp: request_token_def await_def random_u128_def split: prod.splits)
      (metis random_u128_db snd_conv)
  with request_token_shared [OF assms] show ?thesis by simp
qed

lemma occupied_not_acquired:
  assumes run: "acquire L J RT self scope quota t = (out, t')" and key: "inflight_key self scope = key"
    and ttl: "0 < rp_ttl_ms self" "rp_ttl_ms self \<le> i64_max"
    and held: "held d t" and late: "sh_now (tk_shared t') < d"
  shows "out \<noteq> Ready (Inr (Acquired ticket))"
proof
  assume acq: "out = Ready (Inr (Acquired ticket))"
  show False
  proof (cases rule: acquire_cases [of L J RT self scope quota t])
    case (local r)
    with run acq show False by auto
  next
    case (started guard state)
    let ?t0 = "t\<lparr>tk_shared := (tk_shared t)\<lparr>sh_discovery := state\<rparr>\<rparr>"
    obtain r t1 where att: "attempt L J RT self scope quota ?t0 = (r, t1)" by fastforce
    note wl = with_lookup_run [where body = "attempt L J RT self scope quota" and guard = guard, OF att]
    from run acq started(4) wl have "drop_flag r = Ready (Inr (Acquired ticket))"
      and now: "sh_now (tk_shared t') = sh_now (tk_shared t1)" by auto
    then obtain av where r: "r = Ready (Inr (av, Acquired ticket))" by (elim drop_flag_ReadyE)
    from held have held0: "held d ?t0" by simp
    show False
    proof (rule attempt_acquiredE [OF att [unfolded r]])
      fix v origin ta tb
      assume get: "command RT [''GET'', rp_recorder_url_key self] ?t0 = (Ready (Inr (BulkString v)), ta)"
        and q: "check_quota RT self quota ta = (Ready (Inr True), tb)"
        and slot: "reserve_slot L RT self scope quota origin tb = (Ready (Inr (av, Acquired ticket)), t1)"
      show False
      proof (rule reserve_slot_acquiredE [OF slot])
        fix a token' tc td
        assume rt: "request_token RT tb = (Ready a, tc)"
          and set: "reserve RT (inflight_key self scope) token' (rp_ttl_ms self) tc = (Ready (Inr True), td)"
          and count: "count_case RT self quota td = (Ready (Inr ()), t1)"
        have d4: "sh_now (tk_shared td) < d" using count_case_clock [OF count] late now by simp
        have "sh_now (tk_shared tc) \<le> sh_now (tk_shared td)"
          using reserve_shared [OF set] by (auto dest: call_clock)
        with d4 request_token_shared [OF rt] have d2: "sh_now (tk_shared tb) < d" by simp
        with check_quota_clock [OF q] have d1: "sh_now (tk_shared ta) < d" by simp
        from get_held [OF get held0 d1] have "held d ta" .
        from check_quota_held [OF q this d2] have "held d tc" using request_token_held [OF rt] by blast
        from reserve_occupied [OF set [unfolded key] ttl this d4] show False by simp
      qed
    qed
  qed
qed

end

end
