(* ===== verification/Redis_Provider.thy ===== *)
theory Redis_Provider
  imports Redis_Admission_Correct
begin

text \<open>
  The Redis provider as a provider of the gateway. The locale \<open>redis_backend\<close> collects what the
  provider needs of its libraries: the HTTP types, the route index of its policy, and a Redis
  client that reports failures as errors instead of panicking. Under it the provider keeps the
  contract \<open>provider_contract\<close> of \<open>Gateway\<close>, with the well-formedness of the published policy
  as its invariant. The rest of the theory states the properties of the provider and runs it
  against the executable server.
\<close>

section \<open>The provider keeps its contract\<close>

locale redis_backend = http_crate L + router_crate R tm
  for L :: "('h, 'u) http_lib" and R :: "'i router_lib" and tm :: "string \<Rightarrow> string \<Rightarrow> bool" +
  fixes RT :: "('w, 'i) runtime"
  assumes call_no_panic: "fst (rt_redis RT req s) \<noteq> Panicked"
begin

abbreviation (input) calm :: "'a async \<Rightarrow> ('w, 'i) task \<Rightarrow> bool" where
  "calm out t \<equiv> out \<noteq> Panicked"

lemma calm_command: "runs (\<lambda>_. True) (command RT args) calm"
proof (rule runsI)
  fix t
  show "fst (command RT args t) \<noteq> Panicked"
    using call_no_panic [of "Command args" "tk_shared t"]
    by (cases "fst (rt_redis RT (Command args) (tk_shared t))")
      (auto simp: command_def redis_call_def split: prod.splits)
qed

lemma calm_await_ok:
  assumes "runs (\<lambda>_. True) c calm" and "\<And>x. runs (\<lambda>_. True) (k x) calm"
  shows "runs (\<lambda>_. True) (await_ok c k) calm"
  by (rule runs_await_ok [OF assms(1)]) (auto intro: runs_weaken [OF assms(2)])

lemma calm_ret: "runs (\<lambda>_. True) (ret x) calm"
  by (rule runs_ret) simp

lemma calm_check_quota: "runs (\<lambda>_. True) (check_quota RT self quota) calm"
  by (cases quota) (auto simp: check_quota_def intro!: calm_await_ok calm_command calm_ret)

lemma calm_count_case: "runs (\<lambda>_. True) (count_case RT self quota) calm"
  by (cases quota) (auto simp: count_case_def intro!: calm_await_ok calm_command calm_ret)

lemma calm_reserve: "runs (\<lambda>_. True) (reserve RT key token ms) calm"
  unfolding reserve_def by (intro calm_await_ok calm_command calm_ret)

lemma calm_reserve_slot: "runs (\<lambda>_. True) (reserve_slot L RT self scope quota origin) calm"
  unfolding reserve_slot_def
proof (rule runs_await [where R = "\<lambda>out t. \<exists>token. out = Ready token"], goal_cases)
  case 1
  show ?case
    by (rule runsI) (auto simp: request_token_def await_def random_u128_def split: prod.splits)
next
  case (2 token)
  let ?made = "bind_ok (ticket_new L scope token) (\<lambda>t. with_origin L t origin)"
  have final: "runs (\<lambda>_. True) (\<lambda>t. if \<not> is_participating self (tk_shared t)
      then (Ready (Inl ParticipationLost), t) else (Ready (Inr (True, Acquired ticket)), t)) calm" for ticket
    by (rule runsI) simp
  have "runs (\<lambda>_. True) (case ?made of
       Inl e \<Rightarrow> ret (Inl e)
     | Inr ticket \<Rightarrow>
         (case ticket_token L ticket of
            None \<Rightarrow> panic
          | Some token' \<Rightarrow>
              await_ok (reserve RT (inflight_key self scope) token' (rp_ttl_ms self)) (\<lambda>reserved.
                if \<not> reserved then ret (Inr (True, Busy))
                else await_ok (count_case RT self quota) (\<lambda>_.
                       \<lambda>t. if \<not> is_participating self (tk_shared t)
                           then (Ready (Inl ParticipationLost), t)
                           else (Ready (Inr (True, Acquired ticket)), t))))) calm"
  proof (cases ?made)
    case (Inl e)
    then show ?thesis by (simp add: calm_ret)
  next
    case (Inr ticket)
    with ticket_for_token(2) [OF Inr] show ?thesis
      by (auto intro!: calm_await_ok calm_reserve calm_count_case calm_ret final)
  qed
  then show ?case by (rule runs_weaken) auto
qed auto

lemma calm_attempt: "runs (\<lambda>_. True) (attempt L J RT self scope quota) calm"
  unfolding attempt_def
proof (intro calm_await_ok calm_command, goal_cases)
  case (1 result)
  show ?case
    by (cases result)
      (auto intro!: calm_await_ok calm_ret calm_check_quota calm_reserve_slot split: sum.split)
qed

lemma acquire_calm: "fst (acquire L J RT self scope quota t) \<noteq> Panicked"
proof (cases rule: acquire_cases [of L J RT self scope quota t])
  case (local r)
  then show ?thesis by simp
next
  case (started guard state)
  let ?t0 = "t\<lparr>tk_shared := (tk_shared t)\<lparr>sh_discovery := state\<rparr>\<rparr>"
  obtain r t1 where att: "attempt L J RT self scope quota ?t0 = (r, t1)" by fastforce
  have "r \<noteq> Panicked" using runsD [OF calm_attempt _ att] by simp
  then show ?thesis
    unfolding started(4) with_lookup_run [where body = "attempt L J RT self scope quota" and guard = guard, OF att]
    by (cases r) (auto simp: drop_flag_def)
qed

lemma acquire_request_calm:
  assumes "snapshot_wf L R policy_json (sh_snapshot (tk_shared t))"
  shows "fst (acquire_request L R J RT self scope path t) \<noteq> Panicked"
proof (cases "sn_policy (sh_snapshot (tk_shared t))")
  case None
  then show ?thesis by (simp add: acquire_request_def)
next
  case (Some policy)
  with assms obtain config where "compile_policy L R config = Inr policy"
    by (auto simp: snapshot_wf_def)
  from api_total [OF this, of path] Some acquire_calm show ?thesis
    by (auto simp: acquire_request_def split: option.split)
qed

lemma acquired_good:
  assumes "acquire L J RT self scope quota t = (Ready (Inr (Acquired ticket)), t')"
  shows "ticket_good L ticket"
  using acquire_outcome_sent [OF assms] by auto

lemma acquire_request_Acquired:
  assumes "acquire_request L R J RT self scope path t = (Ready (Inr (Acquired ticket)), t')"
  obtains quota where "acquire L J RT self scope quota t = (Ready (Inr (Acquired ticket)), t')"
  using assms by (auto simp: acquire_request_def panic_def split: if_splits option.splits)

end

sublocale redis_backend \<subseteq> provider: provider_contract L "redis_admission L R J RT self"
  "\<lambda>t. snapshot_wf L R policy_json (sh_snapshot (tk_shared t))" for J self policy_json
proof (unfold_locales, goal_cases)
  case (1 budget scope t ticket t')
  then show ?case by (auto simp: redis_admission_def intro: acquired_good)
next
  case (2 budget scope path t ticket t')
  then show ?case by (auto simp: redis_admission_def elim!: acquire_request_Acquired intro: acquired_good)
next
  case (3 t budget scope)
  then show ?case by (simp add: redis_admission_def acquire_calm)
next
  case (4 t budget scope path)
  then show ?case by (simp add: redis_admission_def acquire_request_calm)
qed

context redis_backend
begin

lemma keeps_contract:
  "provider_contract L (redis_admission L R J RT self)
     (\<lambda>t. snapshot_wf L R policy_json (sh_snapshot (tk_shared t)))"
  by (rule provider.provider_contract_axioms)

end

interpretation simple_backend: redis_backend assoc_lib segment_router template_match
  "simple_runtime :: (simple_world, indexed_rule list) runtime"
  by unfold_locales
    (auto simp: simple_runtime_def simple_await_def Let_def split: prod.split list.split)

section \<open>Tickets and their reservation\<close>

context redis_link
begin

lemma owns_reads:
  assumes "owns L RT self ticket t = (Ready (Inr b), t')"
    and "ticket_scope L ticket = Some scope" and "ticket_token L ticket = Some token"
  shows "\<exists>s1 d'. rely (tk_shared t) s1 \<and> rely (s1\<lparr>sh_world := set_db d' (sh_world s1)\<rparr>) (tk_shared t') \<and>
    (b \<longleftrightarrow> (\<exists>e. live (sh_now s1) (db (sh_world s1)) (inflight_key self scope) = Some (token, e))) \<and>
    live (sh_now s1) d' = live (sh_now s1) (db (sh_world s1))"
proof -
  let ?k = "inflight_key self scope"
  from assms obtain v t1 where get: "command RT [''GET'', ?k] t = (Ready (Inr v), t1)"
    and res: "v = NilReply \<and> \<not> b \<or> (\<exists>w. v = BulkString w \<and> b = (w = token))" and "t' = t1"
    by (auto simp: owns_def elim!: await_ok_InrE split: redis_value.splits)
  from command_shared [OF get] \<open>t' = t1\<close> obtain r where
    call: "rt_redis RT (Command [''GET'', ?k]) (tk_shared t) = (r, tk_shared t')"
    and map: "Ready (Inr v) = map_async (map_err Backend) r" by auto
  from map have "r = Ready (Inr v)"
    by (cases r) (auto simp: map_err_def map_sum_def split: sum.splits)
  with call have "rt_redis RT (Command [''GET'', ?k]) (tk_shared t) = (Ready (Inr v), tk_shared t')" by simp
  then show ?thesis
  proof (rule served_ok)
    fix s1 d'
    assume s1: "rely (tk_shared t) s1" and s2: "rely (s1\<lparr>sh_world := set_db d' (sh_world s1)\<rparr>) (tk_shared t')"
      and run: "run_request exec (sh_now s1) (Command [''GET'', ?k]) (db (sh_world s1)) = (Inr v, d')"
    have "live (sh_now s1) d' = live (sh_now s1) (db (sh_world s1))"
      using get_keeps [of "sh_now s1" ?k "db (sh_world s1)"] run by simp
    moreover have "b \<longleftrightarrow> (\<exists>e. live (sh_now s1) (db (sh_world s1)) ?k = Some (token, e))"
      using get_reply [where now = "sh_now s1" and db = "db (sh_world s1)" and k = ?k] run res
      by (auto split: option.splits)
    ultimately show ?thesis using s1 s2 by blast
  qed
qed

lemma ticket_acted:
  assumes "ticket_scope L ticket = Some scope" and "ticket_token L ticket = Some token"
    and "0 < rp_ttl_ms self" and "rp_ttl_ms self \<le> i64_max"
    and "script = COMPLETE \<and> complete L RT self ticket t = (Ready (Inr b), t') \<or>
         script = RENEW \<and> renew L RT self ticket t = (Ready (Inr b), t')"
  shows "\<exists>s1 d'. rely (tk_shared t) s1 \<and> rely (s1\<lparr>sh_world := set_db d' (sh_world s1)\<rparr>) (tk_shared t') \<and>
    acted live script (inflight_key self scope) token (rp_ttl_ms self) b (sh_now s1) (db (sh_world s1)) d'"
  using assms(5)
proof
  assume "script = COMPLETE \<and> complete L RT self ticket t = (Ready (Inr b), t')"
  then show ?thesis
    using transition_acted [of _ COMPLETE "inflight_key self scope" token "[]" t b t' "rp_ttl_ms self"] assms(1,2)
    by (auto simp: complete_def transition_def)
next
  assume "script = RENEW \<and> renew L RT self ticket t = (Ready (Inr b), t')"
  then show ?thesis
    using transition_acted [of _ RENEW "inflight_key self scope" token "[show_nat (rp_ttl_ms self)]" t b t' "rp_ttl_ms self"]
      assms(1-4)
    by (auto simp: renew_def transition_def)
qed

end

section \<open>An executable provider\<close>

definition sample_provider :: redis_provider where
  "sample_provider =
     \<lparr>rp_key_prefix = ''rec'', rp_recorder_url_key = ''rec:url'', rp_ttl_ms = 60000,
      rp_participation = False, rp_policy = policy_store_new ''rec''\<rparr>"

lemma sample_provider_new: "provider_new ''rec'' ''rec:url'' = Inr sample_provider"
  by (simp add: provider_new_def provider_with_ttl_def sample_provider_def DEFAULT_RECORDING_TTL_def
      from_secs_def as_millis_def subsec_nanos_def)

text \<open>The task of the sample provider, by clock, discovery state, database and log.\<close>

definition provider_at ::
  "instant \<Rightarrow> discovery_state \<Rightarrow> simple_db \<Rightarrow> redis_request list \<Rightarrow> (simple_world, indexed_rule list) task" where
  "provider_at now disc d log =
     \<lparr>tk_shared = (sample_shared Map.empty)\<lparr>sh_now := now, sh_discovery := disc,
        sh_world := \<lparr>sw_db = d, sw_drops = [], sw_random = []\<rparr>\<rparr>, tk_log = log\<rparr>"

definition recorder_db :: simple_db where
  "recorder_db = \<lparr>sd_strings = [''rec:url'' \<mapsto> (''http://10.0.0.12:9001'', None)], sd_hashes = (\<lambda>_. Map.empty)\<rparr>"

definition sample_request_token :: string where
  "sample_request_token = hex32 7 @ hex32 7"

definition reserved_db :: simple_db where
  "reserved_db =
     recorder_db\<lparr>sd_strings := (sd_strings recorder_db)
       (''rec:inflight:writes'' \<mapsto> (sample_request_token, Some 60002500000))\<rparr>"

lemma provider_call:
  assumes "run_request simple_exec (now + 500000) req d = (r, d')"
  shows "redis_call simple_runtime req (provider_at now disc d log) =
    (Ready (map_err Backend r), provider_at (now + 1000000) disc d' (log @ [req]))"
  using assms
  by (simp add: redis_call_def simple_runtime_def simple_await_def provider_at_def sample_shared_def)

lemma sample_origin_read: "recorder_origin assoc_lib unquote_json ''http://10.0.0.12:9001'' = Inr sample_url"
  by code_simp

lemma sample_ticket_made:
  "\<exists>ticket. bind_ok (ticket_new assoc_lib ''writes'' sample_request_token) (\<lambda>t. with_origin assoc_lib t sample_url) = Inr ticket"
proof -
  have "\<not> trim_is_empty ''writes''" "graphic ''writes''" "is_origin assoc_lib sample_url" by code_simp+
  from assoc_http.ticket_made [OF this] show ?thesis by (simp add: sample_request_token_def)
qed

lemma sample_keys_of:
  "rp_recorder_url_key sample_provider = ''rec:url''" "inflight_key sample_provider ''writes'' = ''rec:inflight:writes''"
  "rp_ttl_ms sample_provider = 60000" "ps_counts_key (rp_policy sample_provider) = ''rec:api-counts''"
  "is_participating sample_provider s"
  by (simp_all add: sample_provider_def inflight_key_def policy_store_new_def is_participating_def)

definition counted_db :: simple_db where
  "counted_db =
     reserved_db\<lparr>sd_hashes := (\<lambda>_. Map.empty)(''rec:api-counts'' := [''/api/orders'' \<mapsto> 1])\<rparr>"

definition sample_quota :: "(string \<times> nat) option" where
  "sample_quota = Some (''/api/orders'', 200)"

abbreviation (input) looking :: discovery_state where
  "looking \<equiv> discovery_default\<lparr>ds_checking := True\<rparr>"

lemma sample_reserve_slot:
  "\<exists>ticket. reserve_slot assoc_lib simple_runtime sample_provider ''writes'' sample_quota sample_url
       (provider_at 2000000 looking recorder_db log) =
     (Ready (Inr (True, Acquired ticket)), provider_at 4000000 looking counted_db
        (log @ [set_nx sample_provider ''writes'' sample_request_token] @ hincrby sample_provider sample_quota)) \<and>
   ticket_token assoc_lib ticket = Some sample_request_token \<and>
   ticket_scope assoc_lib ticket = Some ''writes''"
proof -
  let ?set = "set_nx sample_provider ''writes'' sample_request_token"
  let ?incr = "Command [''HINCRBY'', ''rec:api-counts'', ''/api/orders'', ''1'']"
  have one: "parse_u64 ''1'' = Some 1" using parse_show_nat [of 1] by (simp add: show_nat_01 [simplified])
  from sample_ticket_made obtain ticket where
    made: "bind_ok (ticket_new assoc_lib ''writes'' sample_request_token) (\<lambda>t. with_origin assoc_lib t sample_url) = Inr ticket"
    by blast
  note tk = assoc_http.ticket_for_token [OF made]
  have token: "request_token simple_runtime (provider_at 2000000 looking recorder_db log) =
      (Ready sample_request_token, provider_at 2000000 looking recorder_db log)"
    by (simp add: request_token_def await_def random_u128_def simple_runtime_def draw_def provider_at_def
        sample_shared_def sample_request_token_def)
  have "run_request simple_exec (2000000 + 500000) ?set recorder_db = (Inr Okay, reserved_db)"
    by (simp add: set_nx_def reserve_args_def simple_exec_def simple_live_def recorder_db_def reserved_db_def
        parse_show_nat sample_keys_of simple_set_def from_millis_def)
  from provider_call [OF this, of looking log]
  have set: "reserve simple_runtime ''rec:inflight:writes'' sample_request_token 60000
      (provider_at 2000000 looking recorder_db log) = (Ready (Inr True), provider_at 3000000 looking reserved_db (log @ [?set]))"
    by (simp add: reserve_def command_def await_ok_def await_def reserve_reply_def set_nx_def sample_keys_of)
  have "run_request simple_exec (3000000 + 500000) ?incr reserved_db = (Inr (IntReply 1), counted_db)"
    by (simp add: simple_exec_def counted_db_def reserved_db_def recorder_db_def one)
  from provider_call [OF this, of looking "log @ [?set]"]
  have incr: "count_case simple_runtime sample_provider sample_quota (provider_at 3000000 looking reserved_db (log @ [?set])) =
      (Ready (Inr ()), provider_at 4000000 looking counted_db (log @ [?set] @ hincrby sample_provider sample_quota))"
    by (simp add: count_case_def hincrby_def command_def await_ok_def await_def sample_keys_of sample_quota_def)
  show ?thesis
    using made tk token set incr
    by (intro exI [of _ ticket]) (simp add: reserve_slot_def await_def await_ok_def sample_keys_of)
qed

lemma sample_attempt:
  "\<exists>ticket. attempt assoc_lib unquote_json simple_runtime sample_provider ''writes'' sample_quota
       (provider_at 0 looking recorder_db []) =
     (Ready (Inr (True, Acquired ticket)), provider_at 4000000 looking counted_db
        (full_attempt sample_provider ''writes'' sample_quota sample_request_token)) \<and>
   ticket_token assoc_lib ticket = Some sample_request_token \<and>
   ticket_scope assoc_lib ticket = Some ''writes''"
proof -
  let ?hget = "Command [''HGET'', ''rec:api-counts'', ''/api/orders'']"
  have "run_request simple_exec (0 + 500000) (get_url sample_provider) recorder_db =
      (Inr (BulkString ''http://10.0.0.12:9001''), recorder_db)"
    by (simp add: simple_exec_def simple_live_def recorder_db_def sample_keys_of)
  from provider_call [OF this, of looking "[]"]
  have get: "command simple_runtime [''GET'', ''rec:url''] (provider_at 0 looking recorder_db []) =
      (Ready (Inr (BulkString ''http://10.0.0.12:9001'')), provider_at 1000000 looking recorder_db [get_url sample_provider])"
    by (simp add: command_def sample_keys_of)
  have "run_request simple_exec (1000000 + 500000) ?hget recorder_db = (Inr NilReply, recorder_db)"
    by (simp add: simple_exec_def recorder_db_def)
  from provider_call [OF this, of looking "[get_url sample_provider]"]
  have hget: "check_quota simple_runtime sample_provider sample_quota
      (provider_at 1000000 looking recorder_db [get_url sample_provider]) =
      (Ready (Inr True), provider_at 2000000 looking recorder_db ([get_url sample_provider] @ hget sample_provider sample_quota))"
    by (simp add: check_quota_def hget_def command_def await_ok_def await_def sample_keys_of sample_quota_def
        decimal_reply_def)
  obtain ticket where slot: "reserve_slot assoc_lib simple_runtime sample_provider ''writes'' sample_quota sample_url
       (provider_at 2000000 looking recorder_db ([get_url sample_provider] @ hget sample_provider sample_quota)) =
     (Ready (Inr (True, Acquired ticket)), provider_at 4000000 looking counted_db
        (full_attempt sample_provider ''writes'' sample_quota sample_request_token))"
    and tk: "ticket_token assoc_lib ticket = Some sample_request_token" "ticket_scope assoc_lib ticket = Some ''writes''"
    using sample_reserve_slot [of "[get_url sample_provider] @ hget sample_provider sample_quota"]
    by (auto simp: full_attempt_def)
  show ?thesis
    using get hget slot tk
    by (intro exI [of _ ticket]) (simp add: attempt_def await_def await_ok_def sample_keys_of sample_origin_read)
qed

lemma sample_started:
  assumes att: "attempt assoc_lib unquote_json simple_runtime sample_provider ''writes'' quota
       (provider_at 0 looking d []) = (Ready (Inr (True, outcome)), provider_at now looking d' log)"
  shows "acquire assoc_lib unquote_json simple_runtime sample_provider ''writes'' quota
       (provider_at 0 discovery_default d []) =
     (Ready (Inr outcome), provider_at now discovery_default d' log)"
proof -
  let ?t = "provider_at 0 discovery_default d []"
  have look: "try_lookup (sh_now (tk_shared ?t)) (sh_discovery (tk_shared ?t)) = (Inr \<lparr>lk_available = False\<rparr>, looking)"
    by (simp add: provider_at_def try_lookup_def cooling_down_def discovery_default_def)
  have key: "inflight_key sample_provider ''writes'' \<noteq> rp_recorder_url_key sample_provider"
    by (simp add: sample_keys_of)
  have t0: "?t\<lparr>tk_shared := (tk_shared ?t)\<lparr>sh_discovery := looking\<rparr>\<rparr> = provider_at 0 looking d []"
    by (simp add: provider_at_def)
  show ?thesis
    unfolding acquire_started [OF sample_keys_of(5) key look] t0
      with_lookup_run [where body = "attempt assoc_lib unquote_json simple_runtime sample_provider ''writes'' quota", OF att]
    by (simp add: lookup_available_def lookup_drop_def discovery_default_def provider_at_def)
qed

lemma sample_acquire:
  "\<exists>ticket. acquire assoc_lib unquote_json simple_runtime sample_provider ''writes'' sample_quota
       (provider_at 0 discovery_default recorder_db []) =
     (Ready (Inr (Acquired ticket)), provider_at 4000000 discovery_default counted_db
        (full_attempt sample_provider ''writes'' sample_quota sample_request_token)) \<and>
   ticket_token assoc_lib ticket = Some sample_request_token \<and>
   ticket_scope assoc_lib ticket = Some ''writes''"
  using sample_attempt sample_started by blast

text \<open>Without a quota two commands decide: on a free slot the request gets the ticket, on a taken one it is busy.\<close>

lemma sample_lock_only:
  assumes url: "sd_strings d ''rec:url'' = Some (''http://10.0.0.12:9001'', None)"
    and run: "run_request simple_exec (1000000 + 500000) (set_nx sample_provider ''writes'' sample_request_token) d = (Inr v, d')"
    and reply: "reserve_reply v = Inr b"
    and made: "bind_ok (ticket_new assoc_lib ''writes'' sample_request_token) (\<lambda>t. with_origin assoc_lib t sample_url) = Inr ticket"
  shows "acquire assoc_lib unquote_json simple_runtime sample_provider ''writes'' None
     (provider_at 0 discovery_default d []) =
   (Ready (Inr (if b then Acquired ticket else Busy)), provider_at 2000000 discovery_default d'
      [get_url sample_provider, set_nx sample_provider ''writes'' sample_request_token])"
proof -
  let ?t1 = "provider_at 1000000 looking d [get_url sample_provider]"
  let ?set = "set_nx sample_provider ''writes'' sample_request_token"
  have "run_request simple_exec (0 + 500000) (get_url sample_provider) d =
      (Inr (BulkString ''http://10.0.0.12:9001''), d)"
    using url by (simp add: simple_exec_def simple_live_def sample_keys_of)
  from provider_call [OF this, of looking "[]"]
  have get: "command simple_runtime [''GET'', ''rec:url''] (provider_at 0 looking d []) =
      (Ready (Inr (BulkString ''http://10.0.0.12:9001'')), ?t1)"
    by (simp add: command_def sample_keys_of)
  have token: "request_token simple_runtime ?t1 = (Ready sample_request_token, ?t1)"
    by (simp add: request_token_def await_def random_u128_def simple_runtime_def draw_def provider_at_def
        sample_shared_def sample_request_token_def)
  from provider_call [OF run, of looking "[get_url sample_provider]"] reply
  have set: "reserve simple_runtime ''rec:inflight:writes'' sample_request_token 60000 ?t1 =
      (Ready (Inr b), provider_at 2000000 looking d' [get_url sample_provider, ?set])"
    by (simp add: reserve_def command_def await_ok_def await_def set_nx_def sample_keys_of)
  have att: "attempt assoc_lib unquote_json simple_runtime sample_provider ''writes'' None
      (provider_at 0 looking d []) =
    (Ready (Inr (True, if b then Acquired ticket else Busy)),
     provider_at 2000000 looking d' [get_url sample_provider, ?set])"
    using get token made set assoc_http.ticket_for_token(2) [OF made]
    by (simp add: attempt_def check_quota_def count_case_def reserve_slot_def await_def await_ok_def sample_keys_of
        sample_origin_read)
  from sample_started [OF att] show ?thesis by simp
qed

lemma sample_busy:
  "acquire assoc_lib unquote_json simple_runtime sample_provider ''writes'' None
     (provider_at 0 discovery_default reserved_db []) =
   (Ready (Inr Busy), provider_at 2000000 discovery_default reserved_db
      [get_url sample_provider, set_nx sample_provider ''writes'' sample_request_token])"
proof -
  have url: "sd_strings reserved_db ''rec:url'' = Some (''http://10.0.0.12:9001'', None)"
    by (simp add: reserved_db_def recorder_db_def)
  have "run_request simple_exec (1000000 + 500000) (set_nx sample_provider ''writes'' sample_request_token) reserved_db =
      (Inr NilReply, reserved_db)"
    by (simp add: set_nx_def reserve_args_def simple_exec_def simple_live_def reserved_db_def
        parse_show_nat sample_keys_of)
  moreover have "reserve_reply NilReply = Inr False" by (simp add: reserve_reply_def)
  moreover obtain ticket where "bind_ok (ticket_new assoc_lib ''writes'' sample_request_token)
      (\<lambda>t. with_origin assoc_lib t sample_url) = Inr ticket"
    using sample_ticket_made by blast
  ultimately show ?thesis using sample_lock_only [OF url] by fastforce
qed

lemma sample_free:
  "\<exists>ticket t'. acquire assoc_lib unquote_json simple_runtime sample_provider ''writes'' None
     (provider_at 0 discovery_default recorder_db []) = (Ready (Inr (Acquired ticket)), t') \<and>
   ticket_token assoc_lib ticket = Some sample_request_token \<and> ticket_scope assoc_lib ticket = Some ''writes'' \<and>
   sh_now (tk_shared t') = 2000000"
proof -
  let ?d' = "simple_set ''rec:inflight:writes'' (Some (sample_request_token, Some (1500000 + from_millis 60000))) recorder_db"
  have url: "sd_strings recorder_db ''rec:url'' = Some (''http://10.0.0.12:9001'', None)"
    by (simp add: recorder_db_def)
  have set: "run_request simple_exec (1000000 + 500000) (set_nx sample_provider ''writes'' sample_request_token) recorder_db =
      (Inr Okay, ?d')"
    by (simp add: set_nx_def reserve_args_def simple_exec_def simple_live_def recorder_db_def
        parse_show_nat sample_keys_of)
  have ok: "reserve_reply Okay = Inr True" by (simp add: reserve_reply_def)
  obtain ticket where made: "bind_ok (ticket_new assoc_lib ''writes'' sample_request_token)
      (\<lambda>t. with_origin assoc_lib t sample_url) = Inr ticket"
    using sample_ticket_made by blast
  from sample_lock_only [OF url set ok made] assoc_http.ticket_for_token(1,2) [OF made] show ?thesis
    by (auto simp: provider_at_def)
qed

section \<open>Configuration\<close>

text \<open>
  Which providers can be configured: construction succeeds exactly for a nonempty prefix, a
  nonempty recorder key that is neither the policy nor the counts key, and a time-to-live of
  positive whole milliseconds that fits a signed 64-bit integer; the reservation time reported
  and sent to Redis is then exactly the configured one, the store uses the documented keys and
  no gateway limit is active yet. Otherwise the error names the first violated condition.
\<close>

lemma provider_configuration:
  "(case provider_with_ttl prefix url_key ttl of
      Inr self \<Rightarrow>
        prefix \<noteq> [] \<and> url_key \<notin> {[], ps_key (rp_policy self), ps_counts_key (rp_policy self)} \<and>
        ps_key (rp_policy self) = prefix @ '':api-policy'' \<and>
        ps_counts_key (rp_policy self) = prefix @ '':api-counts'' \<and>
        reservation_ttl self = ttl \<and> 0 < rp_ttl_ms self \<and> rp_ttl_ms self \<le> i64_max \<and>
        rp_recorder_url_key self = url_key \<and> rp_key_prefix self = prefix \<and>
        (\<forall>s :: ('w, 'i) shared. is_participating self s)
    | Inl EmptyPrefix \<Rightarrow> prefix = []
    | Inl EmptyRecorderKey \<Rightarrow> prefix \<noteq> [] \<and> url_key = []
    | Inl RecorderKeyConflict \<Rightarrow>
        prefix \<noteq> [] \<and> url_key \<in> {prefix @ '':api-policy'', prefix @ '':api-counts''}
    | Inl InvalidTtl \<Rightarrow>
        (\<nexists>ms. 0 < ms \<and> ms \<le> i64_max \<and> ttl = from_millis ms))"
proof -
  have ms: "from_millis (as_millis ttl) = ttl" if "subsec_nanos ttl mod 1000000 = 0"
    using that by (rule whole_millis_roundtrip)
  have bad: "as_millis ttl = 0 \<or> as_millis ttl > i64_max \<or> subsec_nanos ttl mod 1000000 \<noteq> 0 \<Longrightarrow>
      \<nexists>ms. 0 < ms \<and> ms \<le> i64_max \<and> ttl = from_millis ms"
    using whole_millis_iff [of ttl] by (auto simp: from_millis_def as_millis_def)
  show ?thesis
    using ms bad
    by (auto simp: provider_with_ttl_def Let_def reservation_ttl_def policy_store_new_def is_participating_def)
qed

section \<open>Properties\<close>

text \<open>
  C2: acquired means reserved. When an acquisition returns a ticket, the ticket carries the
  requested scope and Redis holds the ticket's token on the slot of that scope: until the
  reservation time has passed since the call began, whatever other clients do, as long as they
  leave this token alone before its deadline.
\<close>

theorem acquired_is_reserved:
  assumes "http_crate L" and "token_link exec live RT db set_db rely (inflight_key self scope) token"
    and "acquire L J RT self scope quota t = (Ready (Inr (Acquired ticket)), t')"
    and "ticket_token L ticket = Some token"
    and "d \<le> sh_now (tk_shared t) + reservation_ttl self" and "sh_now (tk_shared t') < d"
  shows "ticket_scope L ticket = Some scope \<and>
    holds_until (live (sh_now (tk_shared t')) (db (sh_world (tk_shared t'))) (inflight_key self scope)) token d"
  using http_crate.acquire_outcome_sent [OF assms(1,3)]
    token_link.acquired_held [OF assms(2,3,4) refl _ assms(6)] assms(5)
  by (auto simp: reservation_ttl_def)

theorem acquired_is_reserved_witness:
  "\<exists>ticket t'. acquire assoc_lib unquote_json simple_runtime sample_provider ''writes'' sample_quota
       (provider_at 0 discovery_default recorder_db []) = (Ready (Inr (Acquired ticket)), t') \<and>
     holds_until (simple_live (sh_now (tk_shared t')) (sw_db (sh_world (tk_shared t'))) ''rec:inflight:writes'')
       sample_request_token 60000000000"
proof -
  obtain ticket where run: "acquire assoc_lib unquote_json simple_runtime sample_provider ''writes'' sample_quota
       (provider_at 0 discovery_default recorder_db []) =
     (Ready (Inr (Acquired ticket)), provider_at 4000000 discovery_default counted_db
        (full_attempt sample_provider ''writes'' sample_quota sample_request_token))"
    and tk: "ticket_token assoc_lib ticket = Some sample_request_token"
    using sample_acquire by blast
  have "60000000000 \<le> sh_now (tk_shared (provider_at 0 discovery_default recorder_db [])) + reservation_ttl sample_provider"
    by (simp add: reservation_ttl_def sample_provider_def from_millis_def)
  from acquired_is_reserved [OF assoc_http.http_crate_axioms simple_token.token_link_axioms run tk this] run
  show ?thesis by (auto simp: sample_keys_of provider_at_def)
qed

text \<open>
  C3: a slot records one case at a time. While Redis holds a token on the slot of a scope up to
  some deadline, and as long as its owner is left alone, no acquisition for that scope that
  ends before the deadline returns a ticket, on whichever gateway, with whichever policy.
\<close>

theorem occupied_slot_admits_nobody:
  assumes "token_link exec live RT db set_db rely (inflight_key self scope) token"
    and "0 < rp_ttl_ms self" and "rp_ttl_ms self \<le> i64_max"
    and "holds_until (live (sh_now (tk_shared t)) (db (sh_world (tk_shared t))) (inflight_key self scope)) token d"
    and "acquire L J RT self scope quota t = (out, t')" and "sh_now (tk_shared t') < d"
  shows "\<forall>ticket. out \<noteq> Ready (Inr (Acquired ticket))"
  using token_link.occupied_not_acquired [OF assms(1,5) refl assms(2,3,4,6)] by blast

theorem occupied_slot_admits_nobody_witness:
  "\<forall>ticket. fst (acquire assoc_lib unquote_json simple_runtime sample_provider ''writes'' None
     (provider_at 0 discovery_default reserved_db [])) \<noteq> Ready (Inr (Acquired ticket))"
proof -
  let ?t = "provider_at 0 discovery_default reserved_db []"
  have held: "holds_until (simple_live (sh_now (tk_shared ?t)) (sw_db (sh_world (tk_shared ?t)))
      (inflight_key sample_provider ''writes'')) sample_request_token 60002500000"
    by (simp add: provider_at_def reserved_db_def sample_keys_of simple_live_def holds_until_def)
  note free = occupied_slot_admits_nobody [where live = simple_live and db = sw_db and d = 60002500000,
      OF simple_token.token_link_axioms _ _ held sample_busy]
  have "\<forall>ticket. Ready (Inr Busy) \<noteq> Ready (Inr (Acquired ticket) :: admission_error + simple_uri acquire_outcome)"
    by (rule free) (simp_all add: sample_keys_of provider_at_def)
  then show ?thesis by (simp add: sample_busy)
qed

text \<open>
  C20: the commands of an acquisition. A nonparticipant, a cooling-down provider and a lookup in
  progress send nothing; a missing recorder costs one GET, an exhausted quota one HGET more, a
  busy slot the SET NX PX too; an acquired ticket is preceded by exactly GET, HGET, SET NX PX and
  HINCRBY (without the hash commands if the policy has no limit), in this order, and its token
  has 64 characters. Errors, timeouts and panics send a prefix of this sequence.
\<close>

theorem acquire_commands:
  assumes "http_crate L" and "acquire L J RT self scope quota t = (out, t')"
  shows "\<exists>token sent. tk_log t' = tk_log t @ sent \<and> outcome_sent L self scope quota token sent out"
  by (rule http_crate.acquire_outcome_sent [OF assms])

theorem acquire_commands_witness:
  "\<exists>ticket t' token. acquire assoc_lib unquote_json simple_runtime sample_provider ''writes'' sample_quota
       (provider_at 0 discovery_default recorder_db []) = (Ready (Inr (Acquired ticket)), t') \<and>
     tk_log t' = full_attempt sample_provider ''writes'' sample_quota token \<and>
     ticket_token assoc_lib ticket = Some token \<and> length token = 64"
proof -
  obtain ticket t' where run: "acquire assoc_lib unquote_json simple_runtime sample_provider ''writes'' sample_quota
       (provider_at 0 discovery_default recorder_db []) = (Ready (Inr (Acquired ticket)), t')"
    using sample_acquire by blast
  from acquire_commands [OF assoc_http.http_crate_axioms run] run show ?thesis
    by (auto simp: provider_at_def)
qed

text \<open>
  C19: what an acquisition leaves of the recorder discovery. Once a provider obtained the lookup
  guard, the lookup is over when the call ends, however it ends; discovery stays available after
  an acquired ticket, a busy slot or an exhausted quota, and every other end, a cancellation
  included, blocks discovery for ten seconds from that moment. This covers a participation lost
  after the reservation succeeded.
\<close>

theorem acquire_discovery:
  assumes "http_crate L" and "is_participating self (tk_shared t)"
    and "inflight_key self scope \<noteq> rp_recorder_url_key self"
    and "try_lookup (sh_now (tk_shared t)) (sh_discovery (tk_shared t)) = (Inr guard, state)"
    and "acquire L J RT self scope quota t = (out, t')"
  shows "sh_discovery (tk_shared t') =
    \<lparr>ds_retry_after = (if keeps_available out then None else Some (sh_now (tk_shared t') + from_secs 10)),
     ds_checking = False\<rparr>"
  by (rule http_crate.acquire_discovery_after [OF assms])

theorem acquire_discovery_witness:
  "\<exists>t'. acquire assoc_lib unquote_json simple_runtime sample_provider ''writes'' None
       (provider_at 0 discovery_default reserved_db []) = (Ready (Inr Busy), t') \<and>
     sh_discovery (tk_shared t') = \<lparr>ds_retry_after = None, ds_checking = False\<rparr>"
proof -
  let ?t = "provider_at 0 discovery_default reserved_db []"
  have look: "try_lookup (sh_now (tk_shared ?t)) (sh_discovery (tk_shared ?t)) = (Inr \<lparr>lk_available = False\<rparr>, looking)"
    by (simp add: provider_at_def try_lookup_def cooling_down_def discovery_default_def)
  have key: "inflight_key sample_provider ''writes'' \<noteq> rp_recorder_url_key sample_provider"
    by (simp add: sample_keys_of)
  from acquire_discovery [OF assoc_http.http_crate_axioms sample_keys_of(5) key look sample_busy] sample_busy
  show ?thesis by auto
qed

text \<open>
  C18: the policy in Redis decides. For a participating gateway whose published snapshot is well
  formed, a request with an absolute path is handed to the acquisition exactly when the
  configuration selects it, with the counter field and the case limit of that configuration;
  otherwise it is not eligible and nothing is sent or changed.
\<close>

theorem acquire_request_policy:
  assumes "router_crate R tm" and "snapshot_wf L R from_json (sh_snapshot (tk_shared t))"
    and "sn_policy (sh_snapshot (tk_shared t)) = Some policy"
    and "decode_policy from_json (sn_raw (sh_snapshot (tk_shared t))) = Inr config"
    and "is_participating self (tk_shared t)" and "starts_with ''/'' path"
  shows "acquire_request L R J RT self scope path t =
    (case config_api tm config path of
       None \<Rightarrow> (Ready (Inr NotEligible), t)
     | Some field \<Rightarrow>
         acquire L J RT self scope (map_option (\<lambda>limit. (field, limit)) (pc_case_limit config)) t)"
proof -
  from assms(2-4) have comp: "compile_policy L R config = Inr policy" by (auto simp: snapshot_wf_def)
  then have "cp_case_limit policy = pc_case_limit config" by (rule compile_policy_InrE)
  with router_crate.api_refines [OF assms(1) comp assms(6)] assms(3,5) show ?thesis
    by (simp add: acquire_request_def split: option.split)
qed

theorem acquire_request_policy_witness:
  "\<exists>t. sn_policy (sh_snapshot (tk_shared t)) \<noteq> None \<and>
     acquire_request assoc_lib segment_router unquote_json simple_runtime sample_provider ''writes'' ''/apix'' t =
       (Ready (Inr NotEligible), t)"
proof -
  let ?config = "sample_policy\<lparr>pc_case_limit := None\<rparr>"
  let ?json = "\<lambda>_ :: string. Inr ?config :: string + policy_config"
  have "is_ok (compile_policy assoc_lib segment_router ?config)" by code_simp
  then obtain policy where comp: "compile_policy assoc_lib segment_router ?config = Inr policy"
    by (auto simp: is_ok_iff)
  define t where "t = (provider_at 0 discovery_default recorder_db [])
    \<lparr>tk_shared := (tk_shared (provider_at 0 discovery_default recorder_db []))
       \<lparr>sh_snapshot := \<lparr>sn_raw = Some ''{}'', sn_policy = Some policy\<rparr>\<rparr>\<rparr>"
  have snap: "sh_snapshot (tk_shared t) = \<lparr>sn_raw = Some ''{}'', sn_policy = Some policy\<rparr>"
    by (simp add: t_def)
  have wf: "snapshot_wf assoc_lib segment_router ?json (sh_snapshot (tk_shared t))"
    and pol: "sn_policy (sh_snapshot (tk_shared t)) = Some policy"
    and raw: "decode_policy ?json (sn_raw (sh_snapshot (tk_shared t))) = Inr ?config"
    using comp by (simp_all add: snap snapshot_wf_def decode_policy_def map_err_def)
  have "config_api template_match ?config ''/apix'' = None" by code_simp
  with acquire_request_policy [OF segment_routes.router_crate_axioms wf pol raw sample_keys_of(5),
      of "''/apix''" unquote_json simple_runtime "''writes''"] pol
  show ?thesis by auto
qed



text \<open>
  C17: a ticket acts on its own reservation only. When completing or renewing a ticket gets a
  definite answer, then at one moment during the call the answer told whether Redis held this
  ticket's token on the slot of its scope; if it did, the slot was freed or its deadline set to
  the configured time from that moment, and in every case all other keys, and a slot that holds
  a newer token, were left as they were. Asking for ownership reads the same fact and changes
  nothing.
\<close>

theorem ticket_transitions:
  assumes "redis_link exec live RT db set_db rely"
    and "ticket_scope L ticket = Some scope" and "ticket_token L ticket = Some token"
    and "0 < rp_ttl_ms self" and "rp_ttl_ms self \<le> i64_max"
  shows "(script = COMPLETE \<and> complete L RT self ticket t = (Ready (Inr b), t') \<or>
      script = RENEW \<and> renew L RT self ticket t = (Ready (Inr b), t') \<longrightarrow>
      (\<exists>s1 d'. rely (tk_shared t) s1 \<and> rely (s1\<lparr>sh_world := set_db d' (sh_world s1)\<rparr>) (tk_shared t') \<and>
         acted live script (inflight_key self scope) token (rp_ttl_ms self) b (sh_now s1) (db (sh_world s1)) d')) \<and>
    (owns L RT self ticket t = (Ready (Inr b), t') \<longrightarrow>
      (\<exists>s1 d'. rely (tk_shared t) s1 \<and> rely (s1\<lparr>sh_world := set_db d' (sh_world s1)\<rparr>) (tk_shared t') \<and>
         (b \<longleftrightarrow> (\<exists>e. live (sh_now s1) (db (sh_world s1)) (inflight_key self scope) = Some (token, e))) \<and>
         live (sh_now s1) d' = live (sh_now s1) (db (sh_world s1))))"
  using redis_link.ticket_acted [OF assms] redis_link.owns_reads [OF assms(1) _ assms(2,3)] by blast

definition writes_ticket :: "simple_uri admission_ticket" where
  "writes_ticket =
     \<lparr>at_scope = from_static ''writes'', at_token = set_sensitive (from_static ''token''), at_origin = None\<rparr>"

definition ticket_db :: simple_db where
  "ticket_db = \<lparr>sd_strings = [''rec:inflight:writes'' \<mapsto> (''token'', Some 9000000)], sd_hashes = (\<lambda>_. Map.empty)\<rparr>"

theorem ticket_transitions_witness:
  "\<exists>t'. complete assoc_lib simple_runtime sample_provider writes_ticket (provider_at 0 discovery_default ticket_db []) =
       (Ready (Inr True), t') \<and>
     (\<exists>now d d'. acted simple_live COMPLETE ''rec:inflight:writes'' ''token'' 60000 True now d d')"
proof -
  let ?t = "provider_at 0 discovery_default ticket_db []"
  have acc: "ticket_scope assoc_lib writes_ticket = Some ''writes''" "ticket_token assoc_lib writes_ticket = Some ''token''"
    by (simp_all add: ticket_scope_def ticket_token_def writes_ticket_def assoc_lib_def set_sensitive_def)
  have "run_request simple_exec (0 + 500000) (Eval COMPLETE [''rec:inflight:writes''] [''token'']) ticket_db =
      (Inr (IntReply 1), simple_set ''rec:inflight:writes'' None ticket_db)"
    by (simp add: if_owner_def simple_exec_def simple_live_def ticket_db_def)
  from provider_call [OF this, of discovery_default "[]"]
  obtain t' where run: "complete assoc_lib simple_runtime sample_provider writes_ticket ?t = (Ready (Inr True), t')"
    by (simp add: complete_def transition_def eval_transition_def acc sample_keys_of await_ok_def await_def
        transition_reply_def)
  have ttl: "0 < rp_ttl_ms sample_provider" "rp_ttl_ms sample_provider \<le> i64_max"
    by (simp_all add: sample_keys_of)
  have "\<exists>now d d'. acted simple_live COMPLETE ''rec:inflight:writes'' ''token'' 60000 True now d d'"
    using conjunct1 [OF ticket_transitions [OF simple_link.redis_link_axioms acc ttl], of COMPLETE ?t True t'] run
    by (auto simp: sample_keys_of)
  with run show ?thesis by blast
qed

text \<open>
  C34: the participation keys are not the recorder key. If a gateway limit can be enabled, it was
  not enabled before, the lease configuration is valid, and neither the key of the limit nor the
  key of any slot that a 64-bit index can name is the key the recorder publishes its address
  under, so that electing and discovering never overwrite each other.
\<close>

theorem gateway_limit_keys:
  assumes "with_gateway_limit RT has_runtime self config t = (Ready (Inr (self', config', token)), t')"
  shows "\<not> rp_participation self \<and> self' = self\<lparr>rp_participation := True\<rparr> \<and>
    rp_recorder_url_key self' \<noteq> limit_key (rp_key_prefix self') \<and>
    (\<forall>slot \<le> u64_max. rp_recorder_url_key self' \<noteq> slot_key (rp_key_prefix self') slot) \<and>
    lease_start RT has_runtime config t = (Ready (Inr (config', token)), t')"
proof -
  let ?gw = "rp_key_prefix self @ '':gateway:''"
  from assms have ok: "\<not> rp_participation self" "rp_recorder_url_key self \<noteq> rp_key_prefix self @ '':max-gateways''"
    and strip: "Option.bind (strip_prefix ?gw (rp_recorder_url_key self)) parse_u64 = None"
    and start: "await_ok (lease_start RT has_runtime config)
      (\<lambda>(config', token). ret (Inr (self\<lparr>rp_participation := True\<rparr>, config', token))) t =
      (Ready (Inr (self', config', token)), t')"
    by (auto simp: with_gateway_limit_def split: if_splits)
  from start have run: "lease_start RT has_runtime config t = (Ready (Inr (config', token)), t')"
    and self': "self' = self\<lparr>rp_participation := True\<rparr>"
    by (auto elim!: await_ok_InrE)
  have "rp_recorder_url_key self \<noteq> slot_key (rp_key_prefix self) slot" if "slot \<le> u64_max" for slot
  proof
    assume "rp_recorder_url_key self = slot_key (rp_key_prefix self) slot"
    then have "strip_prefix ?gw (rp_recorder_url_key self) = Some (show_nat slot)"
      by (simp add: slot_key_def strip_prefix_Some_iff)
    with strip parse_show_nat [of slot] that show False by simp
  qed
  with ok run self' show ?thesis by (simp add: limit_key_def)
qed

theorem gateway_limit_keys_witness:
  "\<exists>self' out t'. with_gateway_limit simple_runtime True sample_provider (lease_config_new ''gw-1'')
       (provider_at 0 discovery_default recorder_db []) = (Ready (Inr (self', out)), t') \<and>
     rp_participation self' \<and> rp_recorder_url_key self' \<noteq> slot_key ''rec'' 3"
proof -
  let ?t = "provider_at 0 discovery_default recorder_db []"
  have config: "lease_validate (lease_config_new ''gw-1'') = Inr ()"
    by (simp add: lease_validate_def lease_config_new_def as_millis_def subsec_nanos_def from_secs_def)
  have "\<not> trim_is_empty ''gw-1''" by code_simp
  with config have "lease_start simple_runtime True (lease_config_new ''gw-1'') ?t =
      (Ready (Inr (lease_config_new ''gw-1'', ''gw-1'' @ '':'' @ hex32 7)), ?t)"
    by (simp add: lease_start_def lease_config_new_def await_def random_u128_def clear_def set_owned_slot_def
        modify_def simple_runtime_def provider_at_def sample_shared_def draw_def)
  moreover have "strip_prefix (''rec:gateway:'') ''rec:url'' = None" by code_simp
  ultimately have run: "with_gateway_limit simple_runtime True sample_provider (lease_config_new ''gw-1'') ?t =
      (Ready (Inr (sample_provider\<lparr>rp_participation := True\<rparr>, lease_config_new ''gw-1'', ''gw-1'' @ '':'' @ hex32 7)), ?t)"
    by (simp add: with_gateway_limit_def await_ok_def await_def sample_provider_def)
  have "\<forall>slot \<le> u64_max. ''rec:url'' \<noteq> slot_key ''rec'' slot"
    using gateway_limit_keys [OF run] by (simp add: sample_provider_def)
  then show ?thesis using run by (auto simp: sample_provider_def)
qed

end
