(* ===== verification/Redis_Group.thy ===== *)
theory Redis_Group
  imports Redis_Provider
begin

text \<open>
  Many clients on one Redis. The lemmas on reservations, registrations and leases rely on other
  clients leaving a token alone (\<open>token_link\<close>, \<open>lease_link\<close>). This theory discharges that
  reliance: \<open>spares\<close> says which requests leave a token alone, every operation of the program
  sends only such requests unless it owns the token, and interference by any number of clients
  that send such requests, at any moments, is a rely condition that satisfies both locales.
\<close>

section \<open>Requests that leave a token alone\<close>

definition decimal :: "string \<Rightarrow> bool" where
  "decimal s \<longleftrightarrow> (case parse_u64 s of None \<Rightarrow> False | Some n \<Rightarrow> s = show_nat n \<and> 0 < n \<and> n \<le> i64_max)"

text \<open>
  The requests of a client that does not own \<open>token\<close> on the keys \<open>K\<close>: reads, hash counters,
  reservations, and scripts that carry another token or act on other keys.
\<close>

fun spares :: "(string \<Rightarrow> bool) \<Rightarrow> string \<Rightarrow> redis_request \<Rightarrow> bool" where
  "spares K token (Command args) \<longleftrightarrow>
     (case args of
        [name, k] \<Rightarrow> name = ''GET''
      | [name, k, f] \<Rightarrow> name = ''HGET''
      | [name, k, f, n] \<Rightarrow> name = ''HINCRBY''
      | [name, k, v, nx, px, ms] \<Rightarrow> name = ''SET'' \<and> nx = ''NX'' \<and> px = ''PX'' \<and> decimal ms
      | _ \<Rightarrow> False)"
| "spares K token (Eval script keys args) \<longleftrightarrow>
     (case (keys, args) of
        ([k], other # rest) \<Rightarrow>
          (K k \<longrightarrow> other \<noteq> token) \<and>
          (script = COMPLETE \<or> (case rest of [ms] \<Rightarrow> decimal ms | _ \<Rightarrow> False))
      | _ \<Rightarrow> False)"

lemma decimal_show_nat: "decimal (show_nat n) \<longleftrightarrow> 0 < n \<and> n \<le> i64_max"
  by (auto simp: decimal_def parse_show_nat split: option.split)

lemma decimalE:
  assumes "decimal s"
  obtains n where "s = show_nat n" and "0 < n" and "n \<le> i64_max"
  using assms by (auto simp: decimal_def split: option.splits)

lemma spares_simps [simp]:
  "spares K token (Command [''GET'', k])"
  "spares K token (Command [''HGET'', k, f])"
  "spares K token (Command [''HINCRBY'', k, f, n])"
  "spares K token (Command (reserve_args k v ms)) \<longleftrightarrow> 0 < ms \<and> ms \<le> i64_max"
  by (simp_all add: reserve_args_def decimal_show_nat)

declare spares.simps(1) [simp del]

context redis_server
begin

lemma spares_keeps:
  assumes req: "spares K token req" and K: "K key" and hold: "live now d0 key = Some (token, e)"
  shows "live now (snd (run_request exec now req d0)) key = Some (token, e)"
proof (cases req)
  case (Command args)
  with req consider k where "args = [''GET'', k]" | k f where "args = [''HGET'', k, f]"
    | k f n where "args = [''HINCRBY'', k, f, n]" | k v ms where "args = reserve_args k v ms"
    by (auto simp: spares.simps(1) reserve_args_def elim!: decimalE split: list.splits)
  then show ?thesis
  proof cases
    case (4 k v ms)
    then show ?thesis using set_nx [of now k v ms d0] hold Command by (cases "k = key") auto
  qed (use hold Command in \<open>simp_all add: get_keeps hash_keeps\<close>)
next
  case (Eval script keys args)
  with req obtain k other rest where eval: "keys = [k]" "args = other # rest" "K k \<longrightarrow> other \<noteq> token"
    and script: "script = COMPLETE \<or> (\<exists>ms. rest = [ms] \<and> decimal ms)"
    by (auto split: list.splits)
  show ?thesis
  proof (cases "\<exists>x. live now d0 k = Some (other, x)")
    case False
    then have "live now (snd (run_script exec now script [k] (other # rest) d0)) = live now d0"
      by (intro script_not_owner(2)) simp
    with Eval eval hold show ?thesis by simp
  next
    case True
    then obtain x where x: "live now d0 k = Some (other, x)" by blast
    with eval(3) K hold have ne: "key \<noteq> k" by auto
    from script show ?thesis
    proof
      assume "script = COMPLETE"
      with complete_owner(2) [OF x, of rest] Eval eval ne hold show ?thesis by simp
    next
      assume "\<exists>ms. rest = [ms] \<and> decimal ms"
      then obtain n where n: "rest = [show_nat n]" "0 < n" "n \<le> i64_max" by (auto elim: decimalE)
      show ?thesis
        using renew_owner(2) [OF x n(2,3), of "[]"] complete_owner(2) [OF x, of rest] Eval eval ne hold n(1)
        by (cases script) auto
    qed
  qed
qed

end

section \<open>What the operations send\<close>

text \<open>The operations of the program that talk to Redis, as other processes may call them.\<close>

datatype 'u client_op =
    TryAcquire string
  | TryAcquireRequest string string
  | Complete "'u admission_ticket"
  | Renew "'u admission_ticket"
  | Owns "'u admission_ticket"
  | LoadPolicy
  | Register recorder_registration
  | RenewRegistration recorder_registration
  | Unregister recorder_registration
  | Background string gateway_lease_config nat

definition discard :: "('w, 'a) fut \<Rightarrow> ('w, unit) fut" where
  "discard c = await c (\<lambda>_. ret ())"

fun client_call ::
  "('h, 'u) http_lib \<Rightarrow> 'i router_lib \<Rightarrow> (string \<Rightarrow> address option) \<Rightarrow> (string \<Rightarrow> string + policy_config) \<Rightarrow>
     ('w, 'i) runtime \<Rightarrow> redis_provider \<Rightarrow> 'u client_op \<Rightarrow> (('w, 'i) task, unit) fut" where
  "client_call L R J policy_json RT self (TryAcquire scope) = discard (acquire L J RT self scope None)"
| "client_call L R J policy_json RT self (TryAcquireRequest scope path) =
     discard (acquire_request L R J RT self scope path)"
| "client_call L R J policy_json RT self (Complete ticket) = discard (complete L RT self ticket)"
| "client_call L R J policy_json RT self (Renew ticket) = discard (renew L RT self ticket)"
| "client_call L R J policy_json RT self (Owns ticket) = discard (owns L RT self ticket)"
| "client_call L R J policy_json RT self LoadPolicy = discard (provider_load_policy L R policy_json RT self)"
| "client_call L R J policy_json RT self (Register reg) = discard (registration_register RT reg)"
| "client_call L R J policy_json RT self (RenewRegistration reg) = discard (registration_renew RT reg)"
| "client_call L R J policy_json RT self (Unregister reg) = discard (registration_unregister RT reg)"
| "client_call L R J policy_json RT self (Background boot config n) =
     run L R policy_json RT (rp_policy self) (rp_key_prefix self) boot config n"

text \<open>
  The operations of a client that does not own the token on the keys \<open>K\<close>, with the ranges that
  the constructors of the program guarantee.
\<close>

fun not_owner :: "('h, 'u) http_lib \<Rightarrow> (string \<Rightarrow> bool) \<Rightarrow> string \<Rightarrow> redis_provider \<Rightarrow> 'u client_op \<Rightarrow> bool" where
  "not_owner L K token self (Complete ticket) \<longleftrightarrow>
     (\<forall>scope. ticket_scope L ticket = Some scope \<longrightarrow> K (inflight_key self scope) \<longrightarrow>
        ticket_token L ticket \<noteq> Some token)"
| "not_owner L K token self (Renew ticket) \<longleftrightarrow>
     (\<forall>scope. ticket_scope L ticket = Some scope \<longrightarrow> K (inflight_key self scope) \<longrightarrow>
        ticket_token L ticket \<noteq> Some token)"
| "not_owner L K token self (Register reg) \<longleftrightarrow> 0 < rg_ttl_ms reg \<and> rg_ttl_ms reg \<le> i64_max"
| "not_owner L K token self (RenewRegistration reg) \<longleftrightarrow>
     (K (rg_key reg) \<longrightarrow> rg_value reg \<noteq> token) \<and> 0 < rg_ttl_ms reg \<and> rg_ttl_ms reg \<le> i64_max"
| "not_owner L K token self (Unregister reg) \<longleftrightarrow> (K (rg_key reg) \<longrightarrow> rg_value reg \<noteq> token)"
| "not_owner L K token self (Background boot config n) \<longleftrightarrow>
     boot \<noteq> token \<and> lease_validate config = Inr ()"
| "not_owner L K token self _ \<longleftrightarrow> True"

lemma sendsD: "sends P c \<Longrightarrow> \<exists>sent. tk_log (snd (c t)) = tk_log t @ sent \<and> (\<forall>req \<in> set sent. P req)"
  by (simp add: sends_def)

lemma sends_weaken: "sends P c \<Longrightarrow> (\<And>req. P req \<Longrightarrow> Q req) \<Longrightarrow> sends Q c"
  unfolding sends_def by meson

lemma sends_panic [sends_intros]: "sends P panic"
  by (rule sends_quietI) (simp add: panic_def)

lemma sends_discard [sends_intros]: "sends P c \<Longrightarrow> sends P (discard c)"
  unfolding discard_def by (intro sends_intros)

lemma sends_command [sends_intros]: "P (Command args) \<Longrightarrow> sends P (command RT args)"
  unfolding command_def by (rule sends_call)

lemma sends_with_lookup:
  assumes "sends P body"
  shows "sends P (with_lookup guard body)"
  unfolding sends_def
proof
  fix t
  obtain r t1 where body: "body t = (r, t1)" by fastforce
  from sendsD [OF assms, of t] show "\<exists>sent. tk_log (snd (with_lookup guard body t)) = tk_log t @ sent \<and> (\<forall>req \<in> set sent. P req)"
    unfolding with_lookup_run [where body = body and guard = guard, OF body] by (simp add: body)
qed

text \<open>The requests that any client may send: reads and hash counters.\<close>

definition harmless :: "(redis_request \<Rightarrow> bool) \<Rightarrow> bool" where
  "harmless P \<longleftrightarrow> (\<forall>k f n. P (Command [''GET'', k]) \<and> P (Command [''HGET'', k, f]) \<and> P (Command [''HINCRBY'', k, f, n]))"

lemma harmlessD:
  "harmless P \<Longrightarrow> P (Command [''GET'', k])"
  "harmless P \<Longrightarrow> P (Command [''HGET'', k, f])"
  "harmless P \<Longrightarrow> P (Command [''HINCRBY'', k, f, n])"
  by (simp_all add: harmless_def)

lemma harmless_spares: "harmless (spares K token)"
  by (simp add: harmless_def)

lemma sends_quota:
  assumes "harmless P"
  shows "sends P (check_quota RT self quota)" and "sends P (count_case RT self quota)"
  unfolding check_quota_def count_case_def
  by (auto intro!: sends_intros harmlessD [OF assms] split: option.split)

lemma sends_request_token [sends_intros]: "sends P (request_token RT)"
  unfolding request_token_def by (intro sends_intros)

lemma sends_reserve_slot:
  assumes "harmless P" and "\<And>tok. P (Command (reserve_args (inflight_key self scope) tok (rp_ttl_ms self)))"
  shows "sends P (reserve_slot L RT self scope quota origin)"
proof -
  have final: "sends P (\<lambda>t :: ('w, 'i) task. if \<not> is_participating self (tk_shared t)
      then (Ready (Inl ParticipationLost), t) else (Ready (Inr (True, Acquired ticket)), t))" for P and ticket :: "'u admission_ticket"
    by (rule sends_quietI) simp
  show ?thesis
    unfolding reserve_slot_def
    by (intro sends_intros)
      (auto intro!: sends_intros sends_quota assms final split: sum.split option.split)
qed

lemma sends_attempt:
  assumes "harmless P" and "\<And>tok. P (Command (reserve_args (inflight_key self scope) tok (rp_ttl_ms self)))"
  shows "sends P (attempt L J RT self scope quota)"
  unfolding attempt_def
  by (intro sends_intros)
    (auto intro!: sends_intros sends_quota sends_reserve_slot [OF assms] harmlessD [OF assms(1)] assms(1)
      split: redis_value.split sum.split)

lemma sends_acquire:
  assumes "harmless P" and "\<And>tok. P (Command (reserve_args (inflight_key self scope) tok (rp_ttl_ms self)))"
  shows "sends P (acquire L J RT self scope quota)"
  unfolding sends_def
proof
  fix t
  show "\<exists>sent. tk_log (snd (acquire L J RT self scope quota t)) = tk_log t @ sent \<and> (\<forall>req \<in> set sent. P req)"
  proof (cases rule: acquire_cases [of L J RT self scope quota t])
    case (local r)
    then show ?thesis by simp
  next
    case (started guard state)
    have "sends P (with_lookup guard (attempt L J RT self scope quota))"
      by (rule sends_with_lookup [OF sends_attempt [OF assms]])
    from sendsD [OF this, of "t\<lparr>tk_shared := (tk_shared t)\<lparr>sh_discovery := state\<rparr>\<rparr>"]
    show ?thesis unfolding started(4) by simp
  qed
qed

lemma sends_acquire_request:
  assumes "harmless P" and "\<And>scope tok. P (Command (reserve_args (inflight_key self scope) tok (rp_ttl_ms self)))"
  shows "sends P (acquire_request L R J RT self scope path)"
  unfolding sends_def
proof
  fix t
  show "\<exists>sent. tk_log (snd (acquire_request L R J RT self scope path t)) = tk_log t @ sent \<and> (\<forall>req \<in> set sent. P req)"
    using sendsD [OF sends_acquire [OF assms]] sendsD [OF sends_panic]
    by (auto simp: acquire_request_def split: option.split)
qed

lemma sends_load_policy:
  assumes "harmless P"
  shows "sends P (load_policy L R from_json RT store)"
proof -
  have "sends P (publish_policy L R from_json raw)" for raw
    by (rule sends_quietI) (rule publish_policy_log)
  then show ?thesis
    unfolding load_policy_def
    by (intro sends_intros harmlessD [OF assms]) (auto intro!: sends_intros split: redis_value.split)
qed

lemma sends_run:
  assumes P: "harmless P" and own: "\<And>req. own_request prefix boot (as_millis (lc_lease_ttl config)) req \<Longrightarrow> P req"
  shows "sends P (run L R from_json RT store prefix boot config n)"
proof -
  have refresh: "sends P (refresh RT prefix boot config)"
    by (rule sends_weaken [OF sends_refresh own])
  have policy: "sends P (refresh_policy L R from_json RT store config)"
    unfolding refresh_policy_def by (intro sends_intros sends_load_policy P)
  have valid: "sends P (valid_now :: (('w, 'i) task, bool) fut)"
    by (rule sends_quietI) (simp add: valid_now_def)
  have "sends P (cycle L R from_json RT store prefix boot config)"
    unfolding cycle_def
    by (intro sends_intros refresh policy) (auto intro!: sends_intros policy valid split: sum.split)
  then have "sends P (cycles L R from_json RT store prefix boot config n)"
    by (induction n) (auto simp only: cycles.simps intro!: sends_intros)
  with policy show ?thesis unfolding run_def set_owned_slot_def by (intro sends_intros)
qed

lemma own_request_spares:
  assumes "own_request prefix boot (as_millis (lc_lease_ttl config)) req" and "boot \<noteq> token"
    and config: "lease_validate config = Inr ()"
  shows "spares K token req"
  using assms(1,2) lease_validate_ok(1,2) [OF config] by (auto simp: own_request_def decimal_show_nat)

lemma client_call_spares:
  assumes "not_owner L K token self op" and "0 < rp_ttl_ms self" and "rp_ttl_ms self \<le> i64_max"
  shows "sends (spares K token) (client_call L R J policy_json RT self op)"
  using assms
  by (cases op)
    (auto intro!: sends_intros sends_acquire sends_acquire_request sends_load_policy sends_run harmless_spares
        intro: own_request_spares
      simp: complete_def renew_def owns_def transition_def provider_load_policy_def registration_register_def
        registration_renew_def registration_unregister_def registration_transition_def decimal_show_nat
      split: option.split redis_value.split)

section \<open>Interference\<close>

text \<open>
  One step of the surroundings of a task: time passes, Redis serves a request of some other
  client that satisfies \<open>P\<close>, the world outside the database changes, or another task of
  this process updates the discovery state or the policy snapshot. The lease of this process is
  written by its own background task only.
\<close>

inductive others ::
  "'db redis_exec \<Rightarrow> ('w \<Rightarrow> 'db) \<Rightarrow> ('db \<Rightarrow> 'w \<Rightarrow> 'w) \<Rightarrow> (redis_request \<Rightarrow> bool) \<Rightarrow>
     ('w, 'i) shared \<Rightarrow> ('w, 'i) shared \<Rightarrow> bool"
  for exec db set_db P where
  tick: "sh_now s \<le> now \<Longrightarrow> others exec db set_db P s (s\<lparr>sh_now := now\<rparr>)"
| served_other: "P req \<Longrightarrow>
    others exec db set_db P s
      (s\<lparr>sh_world := set_db (snd (run_request exec (sh_now s) req (db (sh_world s)))) (sh_world s)\<rparr>)"
| elsewhere: "db w = db (sh_world s) \<Longrightarrow> others exec db set_db P s (s\<lparr>sh_world := w\<rparr>)"
| local_task: "others exec db set_db P s (s\<lparr>sh_discovery := disc, sh_snapshot := snap\<rparr>)"

inductive_cases othersE: "others exec db set_db P s s'"

abbreviation (input) surroundings ::
  "'db redis_exec \<Rightarrow> ('w \<Rightarrow> 'db) \<Rightarrow> ('db \<Rightarrow> 'w \<Rightarrow> 'w) \<Rightarrow> (redis_request \<Rightarrow> bool) \<Rightarrow>
     ('w, 'i) shared \<Rightarrow> ('w, 'i) shared \<Rightarrow> bool" where
  "surroundings exec db set_db P \<equiv> (others exec db set_db P)\<^sup>*\<^sup>*"

lemma others_clock: "others exec db set_db P s s' \<Longrightarrow> sh_now s \<le> sh_now s'"
  by (erule othersE) auto

lemma surroundings_clock: "surroundings exec db set_db P s s' \<Longrightarrow> sh_now s \<le> sh_now s'"
  by (induction rule: rtranclp_induct) (auto dest: others_clock)

lemma surroundings_local:
  "surroundings exec db set_db P s s' \<Longrightarrow>
     sh_valid_until s' = sh_valid_until s \<and> sh_owned_slot s' = sh_owned_slot s"
  by (induction rule: rtranclp_induct) (auto elim!: othersE)

context redis_server
begin

lemma others_keep_token:
  assumes step: "others exec db set_db (spares K token) s s'" and db: "\<And>d w. db (set_db d w) = d" and K: "K key"
    and hold: "holds_until (live (sh_now s) (db (sh_world s)) key) token d" and late: "sh_now s' < d"
  shows "holds_until (live (sh_now s') (db (sh_world s')) key) token d"
  using step
proof cases
  case (tick now)
  with hold late show ?thesis by (simp add: holds_until_later)
next
  case (served_other req)
  from hold obtain e where "live (sh_now s) (db (sh_world s)) key = Some (token, e)"
    by (auto simp: holds_until_def split: option.splits)
  from spares_keeps [OF served_other(2) K this] served_other(1) hold this show ?thesis
    by (simp add: db)
qed (use hold in simp_all)

lemma surroundings_keep_token:
  assumes "surroundings exec db set_db (spares K token) s s'" and "\<And>d w. db (set_db d w) = d" and "K key"
    and "holds_until (live (sh_now s) (db (sh_world s)) key) token d" and "sh_now s' < d"
  shows "holds_until (live (sh_now s') (db (sh_world s')) key) token d"
  using assms(1,5)
proof (induction rule: rtranclp_induct)
  case base
  with assms(4) show ?case by simp
next
  case (step s1 s2)
  from others_clock [OF step.hyps(2)] step.prems have "sh_now s1 < d" by simp
  with step show ?case by (intro others_keep_token [OF step.hyps(2) assms(2,3)]) auto
qed

end

text \<open>Surroundings in which only time passes and nothing is served.\<close>

lemma quiet_surroundings:
  assumes "quiet s s'"
  shows "surroundings exec sw_db (\<lambda>d w. w\<lparr>sw_db := d\<rparr>) P s s'"
proof -
  let ?step = "others exec sw_db (\<lambda>d w. w\<lparr>sw_db := d\<rparr>) P"
  have "?step s (s\<lparr>sh_now := sh_now s'\<rparr>)" using assms by (intro others.tick) (simp add: quiet_def)
  moreover have "?step (s\<lparr>sh_now := sh_now s'\<rparr>) (s\<lparr>sh_now := sh_now s', sh_world := sh_world s'\<rparr>)"
    using others.elsewhere [of sw_db "sh_world s'" "s\<lparr>sh_now := sh_now s'\<rparr>" exec "\<lambda>d w. w\<lparr>sw_db := d\<rparr>" P] assms
    by (simp add: quiet_def)
  moreover have "s' = s\<lparr>sh_now := sh_now s', sh_world := sh_world s'\<rparr>"
    using assms by (simp add: quiet_def)
  ultimately show ?thesis by (metis converse_rtranclp_into_rtranclp r_into_rtranclp)
qed

text \<open>A connection amid such surroundings gives the contracts of the reservation and lease proofs.\<close>

locale group_link = redis_link exec live RT db set_db "surroundings exec db set_db (spares K token)"
  for exec :: "'db redis_exec" and live :: "'db live_view" and RT :: "('w, 'i) runtime"
    and db :: "'w \<Rightarrow> 'db" and set_db :: "'db \<Rightarrow> 'w \<Rightarrow> 'w" and K :: "string \<Rightarrow> bool" and token :: string
begin

lemma token_contract:
  assumes "K key"
  shows "token_link exec live RT db set_db (surroundings exec db set_db (spares K token)) key token"
  by unfold_locales (auto intro: surroundings_clock surroundings_keep_token db_set_db assms)

lemma lease_contract:
  assumes "\<And>slot. K (slot_key prefix slot)"
  shows "lease_link exec live RT db set_db (surroundings exec db set_db (spares K token)) prefix token"
  by unfold_locales (auto intro: surroundings_clock surroundings_keep_token db_set_db assms dest: surroundings_local)

end

section \<open>An executable group\<close>

text \<open>
  The executable server with other clients: their requests wait in \<open>bw_others\<close>, and every
  request of this process is served between two of them. Requests that do not spare the token
  are ignored.
\<close>

record busy_world =
  bw_db :: simple_db
  bw_others :: "redis_request list"

definition serve_other ::
  "(string \<Rightarrow> bool) \<Rightarrow> string \<Rightarrow> (busy_world, 'i) shared \<Rightarrow> (busy_world, 'i) shared" where
  "serve_other K token s =
     (let s1 = s\<lparr>sh_now := sh_now s + 500000\<rparr>; w = sh_world s1
      in case bw_others w of
           [] \<Rightarrow> s1
         | req # rest \<Rightarrow>
             let s2 = s1\<lparr>sh_world := w\<lparr>bw_others := rest\<rparr>\<rparr>
             in if spares K token req
                then s2\<lparr>sh_world := (sh_world s2)\<lparr>bw_db := snd (run_request simple_exec (sh_now s2) req (bw_db (sh_world s2)))\<rparr>\<rparr>
                else s2)"

definition busy_await ::
  "(string \<Rightarrow> bool) \<Rightarrow> string \<Rightarrow> redis_request \<Rightarrow> ((busy_world, 'i) shared, string + redis_value) fut" where
  "busy_await K token req s =
     (let s1 = serve_other K token s;
          (r, d) = run_request simple_exec (sh_now s1) req (bw_db (sh_world s1))
      in (Ready r, serve_other K token (s1\<lparr>sh_world := (sh_world s1)\<lparr>bw_db := d\<rparr>\<rparr>)))"

definition busy_runtime :: "(string \<Rightarrow> bool) \<Rightarrow> string \<Rightarrow> (busy_world, 'i) runtime" where
  "busy_runtime K token =
     \<lparr>rt_redis = busy_await K token,
      rt_random_u128 = (\<lambda>w. (7, w)),
      rt_random_usize = (\<lambda>w. (7, w)),
      rt_lock = (\<lambda>s. (Ready (), serve_other K token s)),
      rt_jitter = (\<lambda>_ interval w. (interval, w)),
      rt_sleep = (\<lambda>_ s. (Ready (), serve_other K token s))\<rparr>"

lemma serve_other_surroundings:
  "surroundings simple_exec bw_db (\<lambda>d w. w\<lparr>bw_db := d\<rparr>) (spares K token) s (serve_other K token s)"
proof -
  let ?step = "others simple_exec bw_db (\<lambda>d w. w\<lparr>bw_db := d\<rparr>) (spares K token)"
  let ?s1 = "s\<lparr>sh_now := sh_now s + 500000\<rparr>"
  have tick: "?step s ?s1" by (rule others.tick) simp
  show ?thesis
  proof (cases "bw_others (sh_world s)")
    case Nil
    with tick show ?thesis by (simp add: serve_other_def Let_def)
  next
    case (Cons req rest)
    let ?s2 = "?s1\<lparr>sh_world := (sh_world ?s1)\<lparr>bw_others := rest\<rparr>\<rparr>"
    have pop: "?step ?s1 ?s2" by (rule others.elsewhere) simp
    let ?s3 = "?s2\<lparr>sh_world := (sh_world ?s2)\<lparr>bw_db := snd (run_request simple_exec (sh_now ?s2) req (bw_db (sh_world ?s2)))\<rparr>\<rparr>"
    have serve: "?step ?s2 ?s3" if "spares K token req"
      using others.served_other [where P = "spares K token" and req = req and exec = simple_exec and db = bw_db
          and set_db = "\<lambda>d w. w\<lparr>bw_db := d\<rparr>" and s = ?s2] that by simp
    have "serve_other K token s = (if spares K token req then ?s3 else ?s2)"
      using Cons by (simp add: serve_other_def Let_def)
    with tick pop serve show ?thesis
      by (auto intro: converse_rtranclp_into_rtranclp r_into_rtranclp)
  qed
qed

interpretation busy: group_link simple_exec simple_live "busy_runtime K token :: (busy_world, 'i) runtime"
  bw_db "\<lambda>d w. w\<lparr>bw_db := d\<rparr>" K token for K token
proof (unfold_locales, goal_cases)
  case (2 s)
  show ?case by (simp add: busy_runtime_def serve_other_surroundings)
next
  case (3 s)
  show ?case by (simp add: busy_runtime_def serve_other_surroundings)
next
  case (8 req s out s')
  let ?s1 = "serve_other K token s"
  let ?run = "run_request simple_exec (sh_now ?s1) req (bw_db (sh_world ?s1))"
  let ?s2 = "?s1\<lparr>sh_world := (sh_world ?s1)\<lparr>bw_db := snd ?run\<rparr>\<rparr>"
  have "out = Ready (fst ?run)" and "s' = serve_other K token ?s2"
    using 8 by (auto simp: busy_runtime_def busy_await_def Let_def split: prod.splits)
  then show ?case using serve_other_surroundings [of K token s] serve_other_surroundings [of K token ?s2] by blast
qed (simp_all add: busy_runtime_def)

text \<open>A gateway acquires while others read its keys and one tries to release the slot with a stale token.\<close>

abbreviation (input) writes_slot :: "string \<Rightarrow> bool" where
  "writes_slot \<equiv> \<lambda>k. k = ''rec:inflight:writes''"

abbreviation (input) writes_runtime :: "(busy_world, indexed_rule list) runtime" where
  "writes_runtime \<equiv> busy_runtime writes_slot sample_request_token"

definition busy_at ::
  "instant \<Rightarrow> discovery_state \<Rightarrow> simple_db \<Rightarrow> redis_request list \<Rightarrow> redis_request list \<Rightarrow>
     (busy_world, indexed_rule list) task" where
  "busy_at now disc d rs log =
     \<lparr>tk_shared = \<lparr>sh_now = now, sh_discovery = disc, sh_snapshot = snapshot_new, sh_valid_until = None,
        sh_owned_slot = None, sh_world = \<lparr>bw_db = d, bw_others = rs\<rparr>\<rparr>, tk_log = log\<rparr>"

definition intruders :: "redis_request list" where
  "intruders =
     [Command [''GET'', ''rec:url''], Command [''GET'', ''rec:inflight:writes''], Command [''GET'', ''rec:url''],
      Eval COMPLETE [''rec:inflight:writes''] [''stale'']]"

lemma busy_serve:
  assumes "spares writes_slot sample_request_token req" and "snd (run_request simple_exec (now + 500000) req d) = d"
  shows "serve_other writes_slot sample_request_token (tk_shared (busy_at now disc d (req # rs) log)) =
    tk_shared (busy_at (now + 500000) disc d rs log)"
  using assms by (simp add: serve_other_def Let_def busy_at_def)

lemma busy_call:
  assumes "run_request simple_exec (now + 500000) req d = (r, d')"
    and "spares writes_slot sample_request_token r1" and "snd (run_request simple_exec (now + 500000) r1 d) = d"
    and "spares writes_slot sample_request_token r2" and "snd (run_request simple_exec (now + 1000000) r2 d') = d'"
  shows "redis_call writes_runtime req (busy_at now disc d (r1 # r2 # rs) log) =
    (Ready (map_err Backend r), busy_at (now + 1000000) disc d' rs (log @ [req]))"
proof -
  have world: "sh_now (tk_shared (busy_at n disc d rs' log)) = n" "bw_db (sh_world (tk_shared (busy_at n disc d rs' log))) = d"
    for n rs' by (simp_all add: busy_at_def)
  have store: "(tk_shared (busy_at n disc d rs' log))\<lparr>sh_world := (sh_world (tk_shared (busy_at n disc d rs' log)))\<lparr>bw_db := d'\<rparr>\<rparr> =
      tk_shared (busy_at n disc d' rs' log)" for n rs' by (simp add: busy_at_def)
  have "busy_await writes_slot sample_request_token req (tk_shared (busy_at now disc d (r1 # r2 # rs) log)) =
      (Ready r, tk_shared (busy_at (now + 1000000) disc d' rs log))"
    unfolding busy_await_def Let_def busy_serve [OF assms(2,3)] world assms(1) prod.case store
    using busy_serve [OF assms(4), of "now + 500000" d' disc rs log] assms(5) by (simp add: add.assoc)
  then show ?thesis by (simp add: redis_call_def busy_runtime_def) (simp add: busy_at_def)
qed

lemma busy_acquire:
  "\<exists>ticket. acquire assoc_lib unquote_json writes_runtime sample_provider ''writes'' None
       (busy_at 0 discovery_default recorder_db intruders []) =
     (Ready (Inr (Acquired ticket)), busy_at 2000000 discovery_default
        (simple_set ''rec:inflight:writes'' (Some (sample_request_token, Some 60001500000)) recorder_db) []
        [get_url sample_provider, set_nx sample_provider ''writes'' sample_request_token]) \<and>
   ticket_token assoc_lib ticket = Some sample_request_token"
proof -
  let ?d = "simple_set ''rec:inflight:writes'' (Some (sample_request_token, Some 60001500000)) recorder_db"
  let ?set = "set_nx sample_provider ''writes'' sample_request_token"
  let ?r3 = "Command [''GET'', ''rec:url'']" and ?r4 = "Eval COMPLETE [''rec:inflight:writes''] [''stale'']"
  let ?start = "busy_at 0 looking recorder_db intruders []"
  let ?t1 = "busy_at 1000000 looking recorder_db [?r3, ?r4] [get_url sample_provider]"
  let ?t2 = "busy_at 2000000 looking ?d [] [get_url sample_provider, ?set]"
  have stale: "''stale'' \<noteq> sample_request_token"
    using length_hex32 [of 7] by (auto simp: sample_request_token_def dest: arg_cong [of _ _ length])
  have read: "snd (run_request simple_exec now (Command [''GET'', k]) d) = d" for now k d
    by (simp add: simple_exec_def split: option.split)
  have "run_request simple_exec (0 + 500000) (get_url sample_provider) recorder_db =
      (Inr (BulkString ''http://10.0.0.12:9001''), recorder_db)"
    by (simp add: simple_exec_def simple_live_def recorder_db_def sample_keys_of)
  from busy_call [OF this, of "?r3" "Command [''GET'', ''rec:inflight:writes'']" looking "[?r3, ?r4]" "[]"]
  have get: "command writes_runtime [''GET'', ''rec:url''] ?start = (Ready (Inr (BulkString ''http://10.0.0.12:9001'')), ?t1)"
    by (simp add: command_def sample_keys_of intruders_def read del: run_request.simps)
  have token: "request_token writes_runtime ?t1 = (Ready sample_request_token, ?t1)"
    by (simp add: request_token_def await_def random_u128_def busy_runtime_def busy_at_def sample_request_token_def)
  have "run_request simple_exec (1000000 + 500000) ?set recorder_db = (Inr Okay, ?d)"
    by (simp add: set_nx_def reserve_args_def simple_exec_def simple_live_def recorder_db_def
        parse_show_nat sample_keys_of from_millis_def)
  moreover have "snd (run_request simple_exec (1000000 + 1000000) ?r4 ?d) = ?d"
    using stale by (simp add: if_owner_def simple_exec_def simple_live_def simple_set_def)
  ultimately have "redis_call writes_runtime ?set ?t1 = (Ready (Inr Okay), ?t2)"
    using busy_call [of 1000000 ?set recorder_db "Inr Okay" ?d ?r3 ?r4 looking "[]" "[get_url sample_provider]"] stale
    by (simp add: read del: run_request.simps)
  then have set: "reserve writes_runtime ''rec:inflight:writes'' sample_request_token 60000 ?t1 = (Ready (Inr True), ?t2)"
    by (simp add: reserve_def command_def await_ok_def await_def set_nx_def sample_keys_of reserve_reply_def)
  obtain ticket where made: "bind_ok (ticket_new assoc_lib ''writes'' sample_request_token)
      (\<lambda>t. with_origin assoc_lib t sample_url) = Inr ticket"
    using sample_ticket_made by blast
  note tk = assoc_http.ticket_for_token(2) [OF made]
  have att: "attempt assoc_lib unquote_json writes_runtime sample_provider ''writes'' None ?start =
      (Ready (Inr (True, Acquired ticket)), ?t2)"
    using get token made set tk
    by (simp add: attempt_def check_quota_def count_case_def reserve_slot_def await_def await_ok_def sample_keys_of
        sample_origin_read)
  let ?t = "busy_at 0 discovery_default recorder_db intruders []"
  have look: "try_lookup (sh_now (tk_shared ?t)) (sh_discovery (tk_shared ?t)) = (Inr \<lparr>lk_available = False\<rparr>, looking)"
    by (simp add: busy_at_def try_lookup_def cooling_down_def discovery_default_def)
  have key: "inflight_key sample_provider ''writes'' \<noteq> rp_recorder_url_key sample_provider"
    by (simp add: sample_keys_of)
  have t0: "?t\<lparr>tk_shared := (tk_shared ?t)\<lparr>sh_discovery := looking\<rparr>\<rparr> = ?start"
    unfolding busy_at_def by simp
  have "acquire assoc_lib unquote_json writes_runtime sample_provider ''writes'' None ?t =
      (Ready (Inr (Acquired ticket)), busy_at 2000000 discovery_default ?d []
        [get_url sample_provider, ?set])"
    unfolding acquire_started [OF sample_keys_of(5) key look] t0
      with_lookup_run [where body = "attempt assoc_lib unquote_json writes_runtime sample_provider ''writes'' None", OF att]
    by (simp add: lookup_available_def lookup_drop_def discovery_default_def busy_at_def)
  with tk show ?thesis by blast
qed

section \<open>Properties\<close>

text \<open>
  C8: nobody takes a token that is not theirs. Every request that an operation of a provider, a
  registration or a background task sends, if the caller does not own a token on some keys,
  leaves each of these keys that holds the token exactly as it was, deadline included, executed
  at any moment on any database: SET NX never overwrites, the scripts compare tokens, and the
  rest reads or counts.
\<close>

theorem clients_spare_tokens:
  assumes "redis_server exec live" and "not_owner L K token self op"
    and "0 < rp_ttl_ms self" and "rp_ttl_ms self \<le> i64_max"
    and "client_call L R J policy_json RT self op t = (out, t')"
  shows "\<exists>sent. tk_log t' = tk_log t @ sent \<and> (\<forall>req \<in> set sent. \<forall>now d key e.
    K key \<longrightarrow> live now d key = Some (token, e) \<longrightarrow>
    live now (snd (run_request exec now req d)) key = Some (token, e))"
proof -
  from sendsD [OF client_call_spares [OF assms(2-4), of R J policy_json RT], of t] assms(5)
  obtain sent where "tk_log t' = tk_log t @ sent" and "\<forall>req \<in> set sent. spares K token req" by auto
  with redis_server.spares_keeps [OF assms(1)] show ?thesis by blast
qed

theorem clients_spare_tokens_witness:
  "\<exists>sent. tk_log (snd (client_call assoc_lib segment_router unquote_json (\<lambda>_. Inl []) simple_runtime sample_provider
       (Complete writes_ticket) (provider_at 0 discovery_default reserved_db []))) = sent \<and>
     (\<forall>req \<in> set sent. \<forall>now d key e. key = ''rec:inflight:writes'' \<longrightarrow>
        simple_live now d key = Some (sample_request_token, e) \<longrightarrow>
        simple_live now (snd (run_request simple_exec now req d)) key = Some (sample_request_token, e))"
proof -
  have "ticket_token assoc_lib writes_ticket \<noteq> Some sample_request_token"
    using length_hex32 [of 7]
    by (auto simp: ticket_token_def writes_ticket_def assoc_lib_def set_sensitive_def sample_request_token_def
        dest: arg_cong [of _ _ length])
  then have other: "not_owner assoc_lib writes_slot sample_request_token sample_provider (Complete writes_ticket)"
    by simp
  have ttl: "0 < rp_ttl_ms sample_provider" "rp_ttl_ms sample_provider \<le> i64_max"
    by (simp_all add: sample_keys_of)
  from clients_spare_tokens [OF simple_server.redis_server_axioms other ttl surjective_pairing,
      of segment_router unquote_json "\<lambda>_. Inl []" simple_runtime "provider_at 0 discovery_default reserved_db []"]
  show ?thesis by (auto simp: provider_at_def)
qed

text \<open>
  C7: reservations and leases survive the whole group. Let any number of clients send Redis
  requests that spare a token, interleaved in any way with the requests of one process and with
  its own other tasks. Then an acquired ticket with this token is held on its slot until the
  reservation time has passed, and a gateway with this boot token that is eligible after any
  number of background cycles holds its slot in Redis until its local deadline. By the previous
  property all operations of this program are such clients.
\<close>

theorem group_keeps_promises:
  assumes group: "group_link exec live RT db set_db K token"
  shows "(K (inflight_key self scope) \<and>
      acquire L J RT self scope quota t = (Ready (Inr (Acquired ticket)), t') \<and>
      ticket_token L ticket = Some token \<and>
      d \<le> sh_now (tk_shared t) + reservation_ttl self \<and> sh_now (tk_shared t') < d \<longrightarrow>
      holds_until (live (sh_now (tk_shared t')) (db (sh_world (tk_shared t'))) (inflight_key self scope)) token d) \<and>
    ((\<forall>slot. K (slot_key prefix slot)) \<and> lease_validate config = Inr u \<and>
      sh_valid_until (tk_shared t) = None \<and>
      run L R from_json RT store prefix token config n t = (out, t'') \<and> lease_is_valid (tk_shared t'') \<longrightarrow>
      (\<exists>e slot. sh_valid_until (tk_shared t'') = Some e \<and> sh_owned_slot (tk_shared t'') = Some slot \<and>
         holds_until (live (sh_now (tk_shared t'')) (db (sh_world (tk_shared t''))) (slot_key prefix slot)) token e))"
proof (intro conjI impI; elim conjE)
  assume "K (inflight_key self scope)"
    and acq: "acquire L J RT self scope quota t = (Ready (Inr (Acquired ticket)), t')"
    and tok: "ticket_token L ticket = Some token"
    and d: "d \<le> sh_now (tk_shared t) + reservation_ttl self" "sh_now (tk_shared t') < d"
  note link = group_link.token_contract [OF group this(1)]
  show "holds_until (live (sh_now (tk_shared t')) (db (sh_world (tk_shared t'))) (inflight_key self scope)) token d"
    using token_link.acquired_held [OF link acq tok refl] d by (simp add: reservation_ttl_def)
next
  assume K: "\<forall>slot. K (slot_key prefix slot)" and config: "lease_validate config = Inr u"
    and start: "sh_valid_until (tk_shared t) = None"
    and run: "run L R from_json RT store prefix token config n t = (out, t'')" and valid: "lease_is_valid (tk_shared t'')"
  have link: "lease_link exec live RT db set_db (surroundings exec db set_db (spares K token)) prefix token"
    using K by (intro group_link.lease_contract [OF group]) simp
  have "lease_inv live db prefix token (lc_lease_ttl config) (tk_shared t'')"
    using runsD [OF lease_link.run_inv [OF link config] _ run] start by blast
  with valid show "\<exists>e slot. sh_valid_until (tk_shared t'') = Some e \<and> sh_owned_slot (tk_shared t'') = Some slot \<and>
      holds_until (live (sh_now (tk_shared t'')) (db (sh_world (tk_shared t''))) (slot_key prefix slot)) token e"
    by (auto simp: lease_inv_def lease_is_valid_def split: option.splits)
qed

theorem group_keeps_promises_witness:
  "\<exists>ticket t'. acquire assoc_lib unquote_json writes_runtime sample_provider ''writes'' None
       (busy_at 0 discovery_default recorder_db intruders []) = (Ready (Inr (Acquired ticket)), t') \<and>
     holds_until (simple_live (sh_now (tk_shared t')) (bw_db (sh_world (tk_shared t'))) ''rec:inflight:writes'')
       sample_request_token 60000000000"
proof -
  let ?t = "busy_at 0 discovery_default recorder_db intruders []"
  obtain ticket t' where acq: "acquire assoc_lib unquote_json writes_runtime sample_provider ''writes'' None ?t =
      (Ready (Inr (Acquired ticket)), t')" and tok: "ticket_token assoc_lib ticket = Some sample_request_token"
    and now: "sh_now (tk_shared t') = 2000000"
    using busy_acquire by (auto simp: busy_at_def)
  have "60000000000 \<le> sh_now (tk_shared ?t) + reservation_ttl sample_provider"
    by (simp add: reservation_ttl_def sample_keys_of from_millis_def busy_at_def)
  with conjunct1 [OF group_keeps_promises [where live = simple_live and db = bw_db and self = sample_provider
        and scope = "''writes''" and t = ?t and t' = t' and d = 60000000000 and L = assoc_lib and J = unquote_json
        and quota = None and ticket = ticket, OF busy.group_link_axioms]] acq tok now
  show ?thesis by (auto simp: sample_keys_of)
qed

end
