(* ===== verification/Single_Slot.thy ===== *)
theory Single_Slot
  imports Redis_Group
begin

text \<open>
  A gateway occupies one slot. The background task records a slot before it asks Redis for it
  and forgets it only after a definite answer, so that an unknown outcome is settled on the same
  slot. \<open>only_owned\<close> states what this achieves: whatever slot Redis holds for the boot token is the
  recorded one. The locale \<open>sole_client\<close> adds to the contract of a lease that nobody else writes
  the boot token to a slot; \<open>slot_group\<close> satisfies it with surroundings in which other clients send
  requests that \<open>leaves_slots\<close> allows, and \<open>client_call_leaves_slots\<close> shows that the other gateways
  and recorders of a deployment send only such requests.
\<close>

section \<open>The invariant\<close>

definition only_owned ::
  "'db live_view \<Rightarrow> ('w \<Rightarrow> 'db) \<Rightarrow> string \<Rightarrow> string \<Rightarrow> ('w, 'i) shared \<Rightarrow> bool" where
  "only_owned live db prefix token s \<longleftrightarrow>
     (\<forall>slot e. live (sh_now s) (db (sh_world s)) (slot_key prefix slot) = Some (token, e) \<longrightarrow>
        sh_owned_slot s = Some slot)"

locale sole_client = lease_link exec live RT db set_db rely prefix token
  for exec :: "'db redis_exec" and live :: "'db live_view" and RT :: "('w, 'i) runtime"
    and db :: "'w \<Rightarrow> 'db" and set_db :: "'db \<Rightarrow> 'w \<Rightarrow> 'w" and rely
    and prefix :: string and token :: string +
  assumes rely_no_gain: "rely s s' \<Longrightarrow>
      live (sh_now s') (db (sh_world s')) (slot_key prefix slot) = Some (token, e) \<Longrightarrow>
      \<exists>e'. live (sh_now s) (db (sh_world s)) (slot_key prefix slot) = Some (token, e')"
begin

abbreviation (input) only :: "('w, 'i) shared \<Rightarrow> bool" where
  "only s \<equiv> only_owned live db prefix token s"

text \<open>Redis holds the token on no slot.\<close>

abbreviation (input) unplaced :: "('w, 'i) shared \<Rightarrow> bool" where
  "unplaced s \<equiv> only (s\<lparr>sh_owned_slot := None\<rparr>)"

lemma unplaced_only: "unplaced s \<Longrightarrow> only (s\<lparr>sh_owned_slot := own\<rparr>)"
  by (auto simp: only_owned_def)

lemma only_none: "only s \<Longrightarrow> sh_owned_slot s = None \<Longrightarrow> unplaced s"
  by (auto simp: only_owned_def)

lemma only_local:
  "only s \<Longrightarrow> sh_now s' = sh_now s \<Longrightarrow> db (sh_world s') = db (sh_world s) \<Longrightarrow> sh_owned_slot s' = sh_owned_slot s \<Longrightarrow> only s'"
  by (simp add: only_owned_def)

lemma only_rely: "only s \<Longrightarrow> rely s s' \<Longrightarrow> only s'"
  using rely_local [of s s'] rely_no_gain [of s s'] unfolding only_owned_def by metis

lemma unplaced_rely: "unplaced s \<Longrightarrow> rely s s' \<Longrightarrow> unplaced s'"
  using rely_no_gain [of s s'] by (auto simp: only_owned_def)

text \<open>Requests that put the token on no slot but \<open>own\<close>.\<close>

definition adds_only :: "nat option \<Rightarrow> redis_request \<Rightarrow> bool" where
  "adds_only own req \<longleftrightarrow>
     (\<forall>now d slot e. live now (snd (run_request exec now req d)) (slot_key prefix slot) = Some (token, e) \<longrightarrow>
        (\<exists>e'. live now d (slot_key prefix slot) = Some (token, e')) \<or> own = Some slot)"

lemma adds_get: "adds_only own (Command [''GET'', key])"
  by (auto simp: adds_only_def get_keeps)

lemma adds_reserve: "adds_only (Some slot) (Command (reserve_args (slot_key prefix slot) token ms))"
  unfolding adds_only_def
proof (intro allI impI)
  fix now d slot' e
  assume "live now (snd (run_request exec now (Command (reserve_args (slot_key prefix slot) token ms)) d))
      (slot_key prefix slot') = Some (token, e)"
  then show "(\<exists>e'. live now d (slot_key prefix slot') = Some (token, e')) \<or> Some slot = Some slot'"
    using set_nx [of now "slot_key prefix slot" token ms d] by (auto simp: slot_key_inj split: if_splits)
qed

lemma adds_script:
  assumes "script = COMPLETE \<or> (\<exists>ms. args = [show_nat ms] \<and> 0 < ms \<and> ms \<le> i64_max)"
  shows "adds_only own (Eval script [slot_key prefix slot] (token # args))"
  unfolding adds_only_def
proof (intro allI impI disjI1)
  fix now d slot' e
  let ?k = "slot_key prefix slot"
  assume after: "live now (snd (run_request exec now (Eval script [?k] (token # args)) d)) (slot_key prefix slot') = Some (token, e)"
  show "\<exists>e'. live now d (slot_key prefix slot') = Some (token, e')"
  proof (cases "\<exists>x. live now d ?k = Some (token, x)")
    case False
    then have "live now (snd (run_script exec now script [?k] (token # args) d)) = live now d"
      by (intro script_not_owner(2)) simp
    with after show ?thesis by simp
  next
    case True
    then obtain x where x: "live now d ?k = Some (token, x)" by blast
    from assms consider "script = COMPLETE" | ms where "script = RENEW" "args = [show_nat ms]" "0 < ms" "ms \<le> i64_max"
      by (cases script) auto
    then show ?thesis
    proof cases
      case 1
      with complete_owner(2) [OF x, of args] after show ?thesis
        by (auto split: if_splits simp del: run_script.simps)
    next
      case (2 ms)
      with renew_owner(2) [OF x 2(3,4), of "[]"] after x show ?thesis
        by (auto split: if_splits simp del: run_script.simps)
    qed
  qed
qed

lemma call_only:
  assumes "rt_redis RT req s = (out, s')" and only: "only s" and req: "adds_only (sh_owned_slot s) req"
  shows "only s'"
  using assms(1)
proof (cases rule: servedE)
  case (lost s1)
  with only show ?thesis by (blast intro: only_rely)
next
  case (executed s1 r d)
  have s1: "only s1" "sh_owned_slot s1 = sh_owned_slot s"
    using only_rely [OF only executed(1)] rely_local [OF executed(1)] by simp_all
  have d: "d = snd (run_request exec (sh_now s1) req (db (sh_world s1)))" using executed(2) by simp
  have "only (s1\<lparr>sh_world := set_db d (sh_world s1)\<rparr>)"
    using s1 req unfolding only_owned_def adds_only_def d by (fastforce simp: db_set_db)
  from only_rely [OF this executed(3)] show ?thesis .
qed

section \<open>Definite answers\<close>

text \<open>A refused reservation has placed nothing.\<close>

lemma refused_unplaced:
  assumes "reserve RT key token ms t = (Ready (Inr False), t')" and "unplaced (tk_shared t)"
  shows "unplaced (tk_shared t')"
proof -
  from reserve_shared [OF assms(1)] have
    "rt_redis RT (Command (reserve_args key token ms)) (tk_shared t) = (Ready (Inr NilReply), tk_shared t')"
    by (auto simp: reserve_reply_False)
  then obtain s1 d where s1: "rely (tk_shared t) s1"
    and run: "run_request exec (sh_now s1) (Command (reserve_args key token ms)) (db (sh_world s1)) = (Inr NilReply, d)"
    and s2: "rely (s1\<lparr>sh_world := set_db d (sh_world s1)\<rparr>) (tk_shared t')" by (rule served_ok)
  have "live (sh_now s1) d = live (sh_now s1) (db (sh_world s1))"
    using set_nx [of "sh_now s1" key token ms "db (sh_world s1)"] run by auto
  with unplaced_rely [OF assms(2) s1] have "unplaced (s1\<lparr>sh_world := set_db d (sh_world s1)\<rparr>)"
    by (simp add: only_owned_def db_set_db)
  from unplaced_rely [OF this s2] show ?thesis .
qed

text \<open>After a release, and after a renewal that was refused, the token is on no slot.\<close>

lemma settled_unplaced:
  assumes run: "lease_transition RT script (slot_key prefix slot) (token # args) t = (Ready (Inr b), t')"
    and script: "script = COMPLETE \<or> (\<exists>args'. args = show_nat ms # args') \<and> 0 < ms \<and> ms \<le> i64_max"
    and settled: "script = COMPLETE \<or> \<not> b"
    and only: "only (tk_shared t)" and own: "sh_owned_slot (tk_shared t) = Some slot"
  shows "unplaced (tk_shared t')"
proof -
  from transition_acted [OF run [unfolded lease_transition_def] script] obtain s1 d
    where s1: "rely (tk_shared t) s1"
      and s2: "rely (s1\<lparr>sh_world := set_db d (sh_world s1)\<rparr>) (tk_shared t')"
      and act: "acted live script (slot_key prefix slot) token ms b (sh_now s1) (db (sh_world s1)) d" by blast
  have only1: "only s1" and "sh_owned_slot s1 = Some slot"
    using only_rely [OF only s1] rely_local [OF s1] own by simp_all
  then have "unplaced (s1\<lparr>sh_world := set_db d (sh_world s1)\<rparr>)"
    using act settled unfolding only_owned_def acted_def by (fastforce simp: db_set_db split: if_splits)
  from unplaced_rely [OF this s2] show ?thesis .
qed

section \<open>Refreshing\<close>

lemma try_slots_only:
  "try_slots RT prefix token ttl slots t = (out, t') \<Longrightarrow> unplaced (tk_shared t) \<Longrightarrow>
     sh_owned_slot (tk_shared t) = None \<Longrightarrow> only (tk_shared t')"
proof (induction slots arbitrary: t)
  case Nil
  then show ?case by (auto simp: only_owned_def)
next
  case (Cons slot slots)
  define t1 where "t1 = t\<lparr>tk_shared := (tk_shared t)\<lparr>sh_owned_slot := Some slot\<rparr>\<rparr>"
  obtain o2 t2 where r: "reserve RT (slot_key prefix slot) token (as_millis ttl) t1 = (o2, t2)"
    by fastforce
  have un1: "unplaced (tk_shared t1)" and only1: "only (tk_shared t1)" and own1: "sh_owned_slot (tk_shared t1) = Some slot"
    using Cons.prems(2) unplaced_only [OF Cons.prems(2), of "Some slot"] by (simp_all add: t1_def)
  from reserve_shared [OF r] obtain o3 where
    "rt_redis RT (Command (reserve_args (slot_key prefix slot) token (as_millis ttl))) (tk_shared t1) = (o3, tk_shared t2)"
    by (elim exE conjE)
  from call_only [OF this only1] own1 adds_reserve have only2: "only (tk_shared t2)" by simp
  let ?t3 = "t2\<lparr>tk_shared := (tk_shared t2)\<lparr>sh_owned_slot := None\<rparr>\<rparr>"
  consider (busy) "o2 = Ready (Inr False)" "try_slots RT prefix token ttl slots ?t3 = (out, t')"
    | (other) valid where "t' = t2\<lparr>tk_shared := (tk_shared t2)\<lparr>sh_valid_until := valid\<rparr>\<rparr>"
  proof (cases "o2 = Ready (Inr False)")
    case True
    with r Cons.prems(1) that(1) show thesis
      by (simp add: instant_now_def set_owned_slot_def modify_def await_def await_ok_def t1_def [symmetric])
  next
    case False
    with r Cons.prems(1) have "t' = t2\<lparr>tk_shared := (tk_shared t2)\<lparr>sh_valid_until := sh_valid_until (tk_shared t')\<rparr>\<rparr>"
      by (cases o2) (auto simp: instant_now_def set_owned_slot_def modify_def publish_def await_def await_ok_def
          t1_def [symmetric] split: sum.splits if_splits)
    then show thesis by (rule that(2))
  qed
  then show ?case
  proof cases
    case busy
    with r have "unplaced (tk_shared t2)" by (intro refused_unplaced [OF _ un1]) simp
    with Cons.IH [OF busy(2)] show ?thesis by simp
  next
    case (other valid)
    with only_local [OF only2] show ?thesis by simp
  qed
qed

lemma release_excess_only:
  assumes "only (tk_shared t)"
  shows "only (tk_shared (snd (release_excess RT prefix token limit t)))"
proof (cases "\<exists>slot. sh_owned_slot (tk_shared t) = Some slot \<and> slot \<ge> limit")
  case False
  with assms show ?thesis
    by (auto simp: release_excess_def await_def owned_slot_def split: option.splits)
next
  case True
  then obtain slot where slot: "sh_owned_slot (tk_shared t) = Some slot" "slot \<ge> limit" by blast
  define t1 where "t1 = t\<lparr>tk_shared := (tk_shared t)\<lparr>sh_valid_until := None\<rparr>\<rparr>"
  obtain o2 t2 where r: "lease_transition RT COMPLETE (slot_key prefix slot) [token] t1 = (o2, t2)"
    by fastforce
  have only1: "only (tk_shared t1)" and own1: "sh_owned_slot (tk_shared t1) = Some slot"
    using only_local [OF assms, of "tk_shared t1"] slot by (simp_all add: t1_def)
  from eval_transition_shared [OF r [unfolded lease_transition_def]] obtain o3 where
    "rt_redis RT (Eval COMPLETE [slot_key prefix slot] [token]) (tk_shared t1) = (o3, tk_shared t2)" by (elim exE conjE)
  from call_only [OF this only1 adds_script] have only2: "only (tk_shared t2)" by simp
  have settled: "unplaced (tk_shared t2)" if "o2 = Ready (Inr b)" for b
    using settled_unplaced [OF r [unfolded that], of 0] only1 own1 by simp
  show ?thesis
    using slot r only2 settled
    by (cases o2) (auto simp: release_excess_def await_def await_ok_def owned_slot_def clear_def modify_def
        set_owned_slot_def t1_def [symmetric] split: sum.split)
qed

lemma renew_or_elect_only:
  assumes only: "only (tk_shared t)" and valid: "lease_validate config = Inr u"
  shows "only (tk_shared (snd (renew_or_elect RT prefix token config limit t)))"
proof (cases "sh_owned_slot (tk_shared t)")
  case (Some slot)
  let ?ms = "as_millis (lc_lease_ttl config)"
  note ms = lease_validate_ok(1,2) [OF valid]
  obtain o2 t2 where r: "lease_renew RT (slot_key prefix slot) token ?ms t = (o2, t2)" by fastforce
  from eval_transition_shared [OF r [unfolded lease_renew_def lease_transition_def]] obtain o3 where
    "rt_redis RT (Eval RENEW [slot_key prefix slot] [token, show_nat ?ms]) (tk_shared t) = (o3, tk_shared t2)"
    by (elim exE conjE)
  from call_only [OF this only adds_script] ms have only2: "only (tk_shared t2)" by blast
  have gone: "unplaced (tk_shared t2)" if "o2 = Ready (Inr False)"
    using settled_unplaced [OF r [unfolded that lease_renew_def], of ?ms] ms only Some by simp
  show ?thesis
    using Some r only2 gone only_local [OF only2]
    by (cases o2) (auto simp: renew_or_elect_def await_def await_ok_def owned_slot_def instant_now_def clear_def
        publish_def modify_def set_owned_slot_def only_owned_def split: sum.split)
next
  case None
  obtain r w where draw: "rt_random_usize RT (sh_world (tk_shared t)) = (r, w)" by fastforce
  let ?t1 = "t\<lparr>tk_shared := (tk_shared t)\<lparr>sh_world := w\<rparr>\<rparr>"
  have "db w = db (sh_world (tk_shared t))" using random_usize_db [of "sh_world (tk_shared t)"] draw by simp
  with only_none [OF only None] have "unplaced (tk_shared ?t1)" by (simp add: only_owned_def)
  from try_slots_only [OF surjective_pairing this] None draw show ?thesis
    by (simp add: renew_or_elect_def await_def owned_slot_def random_usize_def Let_def)
qed

lemma refresh_only:
  assumes only: "only (tk_shared t)" and valid: "lease_validate config = Inr u"
  shows "only (tk_shared (snd (refresh RT prefix token config t)))"
proof -
  let ?O = "\<lambda>_ (t :: ('w, 'i) task). only (tk_shared t)"
  have "runs (?O ()) (refresh RT prefix token config) ?O"
    unfolding refresh_def
  proof (intro runs_await_ok [where R = ?O] runs_if, goal_cases)
    case 1
    show ?case
    proof (rule runsI)
      fix t :: "('w, 'i) task"
      assume "only (tk_shared t)"
      obtain out t' where run: "read_limit RT (limit_key prefix) t = (out, t')" by fastforce
      from await_call_shared [OF run [unfolded read_limit_def command_def]] obtain r where
        "rt_redis RT (Command [''GET'', limit_key prefix]) (tk_shared t) = (r, tk_shared t')" by (elim exE conjE)
      from call_only [OF this \<open>only (tk_shared t)\<close> adds_get] run
      show "only (tk_shared (snd (read_limit RT (limit_key prefix) t)))" by simp
    qed
  next
    case (2 limit)
    show ?case by (rule runsI) (rule release_excess_only)
  next
    case (3 limit x)
    show ?case by (rule runsI) (simp add: clear_def modify_def await_def only_owned_def)
  next
    case (4 limit x)
    show ?case by (rule runsI) (rule renew_or_elect_only [OF _ valid])
  qed simp_all
  with only show ?thesis by (simp add: runs_def)
qed

lemma run_only:
  assumes valid: "lease_validate config = Inr u"
  shows "runs (\<lambda>t. unplaced (tk_shared t)) (run L R from_json RT store prefix token config n)
    (\<lambda>_ t. only (tk_shared t))"
proof -
  let ?U = "\<lambda>_ (t :: ('w, 'i) task). unplaced (tk_shared t)"
  let ?O = "\<lambda>_ (t :: ('w, 'i) task). only (tk_shared t)"
  have get: "only s'" if "only s" "rt_redis RT (Command [''GET'', k]) s = (out, s')" for s out s' k
    by (rule call_only [OF that(2,1) adds_get])
  have cycles: "runs (?O ()) (cycles L R from_json RT store prefix token config n) ?O"
  proof (rule background_keeps(4) [where P = "only_owned live db prefix token"], goal_cases)
    case (1 s s')
    then show ?case by (rule only_rely)
  next
    case (2 s out s')
    then show ?case by (rule get)
  next
    case (6 t)
    then show ?case by (rule refresh_only [OF _ valid])
  qed (simp_all add: only_owned_def)
  have get_un: "unplaced s'" if "unplaced s" "rt_redis RT (Command [''GET'', k]) s = (out, s')" for s out s' k
  proof -
    from that(1) have "only s" by (auto simp: only_owned_def)
    from that(2) show ?thesis
    proof (cases rule: servedE)
      case (lost s1)
      with that(1) show ?thesis by (blast intro: unplaced_rely)
    next
      case (executed s1 r d)
      then have "live (sh_now s1) d = live (sh_now s1) (db (sh_world s1))"
        using get_keeps [of "sh_now s1" k "db (sh_world s1)"] by simp
      with unplaced_rely [OF that(1) executed(1)] have "unplaced (s1\<lparr>sh_world := set_db d (sh_world s1)\<rparr>)"
        by (simp add: only_owned_def db_set_db)
      from unplaced_rely [OF this executed(3)] show ?thesis .
    qed
  qed
  note start = background_keeps [where P = "\<lambda>s. unplaced s", OF unplaced_rely get_un]
  show ?thesis
    unfolding run_def
  proof (intro runs_await [where R = ?U], goal_cases)
    case 1
    show ?case by (rule start(1)) (simp_all add: only_owned_def)
  next
    case (2 x)
    show ?case by (rule start(2)) (simp_all add: only_owned_def)
  next
    case (3 x d)
    show ?case by (rule start(3)) (simp_all add: only_owned_def)
  next
    case (4 x d y)
    show ?case by (rule runsI) (simp add: set_owned_slot_def modify_def)
  next
    case (5 x d y z)
    show ?case by (rule runs_weaken [OF cycles]) (auto simp: only_owned_def)
  qed (auto simp: only_owned_def)
qed

end

section \<open>Other clients\<close>

text \<open>
  The requests of clients that neither take the boot token off a slot nor put it on one:
  \<open>stamps\<close> is a reservation of a slot with this token.
\<close>

definition is_slot :: "string \<Rightarrow> string \<Rightarrow> bool" where
  "is_slot prefix key \<longleftrightarrow> (\<exists>slot. key = slot_key prefix slot)"

definition stamps :: "string \<Rightarrow> string \<Rightarrow> redis_request \<Rightarrow> bool" where
  "stamps prefix token req \<longleftrightarrow>
     (\<exists>key ms. req = Command (reserve_args key token ms) \<and> is_slot prefix key)"

definition leaves_slots :: "string \<Rightarrow> string \<Rightarrow> redis_request \<Rightarrow> bool" where
  "leaves_slots prefix token req \<longleftrightarrow> spares (is_slot prefix) token req \<and> \<not> stamps prefix token req"

context redis_server
begin

lemma leaves_slots_no_gain:
  assumes req: "leaves_slots prefix token req"
    and after: "live now (snd (run_request exec now req d)) (slot_key prefix slot) = Some (token, e)"
  shows "\<exists>e'. live now d (slot_key prefix slot) = Some (token, e')"
proof (cases req)
  case (Command args)
  with req consider k where "args = [''GET'', k]" | k f where "args = [''HGET'', k, f]"
    | k f n where "args = [''HINCRBY'', k, f, n]" | k v ms where "args = reserve_args k v ms" "is_slot prefix k \<longrightarrow> v \<noteq> token"
    by (auto simp: leaves_slots_def stamps_def spares.simps(1) reserve_args_def elim!: decimalE split: list.splits)
  then show ?thesis
  proof cases
    case (4 k v ms)
    then show ?thesis using set_nx [of now k v ms d] after Command
      by (auto simp: is_slot_def split: if_splits)
  qed (use after Command in \<open>simp_all add: get_keeps hash_keeps\<close>)
next
  case (Eval script keys args)
  with req obtain k other rest where eval: "keys = [k]" "args = other # rest" "is_slot prefix k \<longrightarrow> other \<noteq> token"
    and script: "script = COMPLETE \<or> (\<exists>n. rest = [show_nat n] \<and> 0 < n \<and> n \<le> i64_max)"
    by (auto simp: leaves_slots_def elim!: decimalE split: list.splits)
  show ?thesis
  proof (cases "\<exists>x. live now d k = Some (other, x)")
    case False
    then have "live now (snd (run_script exec now script [k] (other # rest) d)) = live now d"
      by (intro script_not_owner(2)) simp
    with Eval eval after show ?thesis by simp
  next
    case True
    then obtain x where x: "live now d k = Some (other, x)" by blast
    have "live now (snd (run_script exec now script [k] (other # rest) d)) (slot_key prefix slot) \<in>
        {None, live now d (slot_key prefix slot)} \<or> k = slot_key prefix slot \<and>
        (\<exists>x. live now (snd (run_script exec now script [k] (other # rest) d)) (slot_key prefix slot) = Some (other, x))"
    proof (cases script)
      case COMPLETE
      with complete_owner(2) [OF x, of rest] show ?thesis by simp
    next
      case RENEW
      with script obtain n where "rest = [show_nat n]" "0 < n" "n \<le> i64_max" by auto
      with renew_owner(2) [OF x, of n "[]"] RENEW show ?thesis by simp
    qed
    with Eval eval after show ?thesis by (auto simp: is_slot_def simp del: run_script.simps dest!: sym [of "Some _"])
  qed
qed

lemma surroundings_no_gain:
  assumes "surroundings exec db set_db (leaves_slots prefix token) s s'" and db: "\<And>d w. db (set_db d w) = d"
  shows "live (sh_now s') (db (sh_world s')) (slot_key prefix slot) = Some (token, e) \<Longrightarrow>
    \<exists>e'. live (sh_now s) (db (sh_world s)) (slot_key prefix slot) = Some (token, e')"
  using assms(1)
proof (induction arbitrary: e rule: rtranclp_induct)
  case (step s1 s2)
  from step.hyps(2) have "\<exists>e'. live (sh_now s1) (db (sh_world s1)) (slot_key prefix slot) = Some (token, e')"
  proof cases
    case (tick now)
    with step.prems show ?thesis by (auto simp: live_later [OF tick(2)] split: option.splits if_splits)
  next
    case (served_other req)
    with step.prems leaves_slots_no_gain [OF served_other(2)] show ?thesis by (auto simp: db)
  qed (use step.prems in auto)
  with step.IH show ?case by blast
qed blast

lemma surroundings_slots:
  assumes "surroundings exec db set_db (leaves_slots prefix token) s s'"
  shows "surroundings exec db set_db (spares (is_slot prefix) token) s s'"
  using assms
proof (induction rule: rtranclp_induct)
  case (step s1 s2)
  from step.hyps(2) have "others exec db set_db (spares (is_slot prefix) token) s1 s2"
    by cases (auto intro: others.intros simp: leaves_slots_def)
  with step.IH show ?case by simp
qed simp

end

text \<open>Among such clients the contract holds.\<close>

locale slot_group = redis_link exec live RT db set_db "surroundings exec db set_db (leaves_slots prefix token)"
  for exec :: "'db redis_exec" and live :: "'db live_view" and RT :: "('w, 'i) runtime"
    and db :: "'w \<Rightarrow> 'db" and set_db :: "'db \<Rightarrow> 'w \<Rightarrow> 'w" and prefix :: string and token :: string

sublocale slot_group \<subseteq> sole_client exec live RT db set_db "surroundings exec db set_db (leaves_slots prefix token)" prefix token
proof (unfold_locales, goal_cases)
  case (1 s s')
  then show ?case by (rule surroundings_clock)
next
  case (2 s s')
  then show ?case by (rule surroundings_local)
next
  case (3 s s' slot d)
  then show ?case
    by (intro surroundings_keep_token [OF surroundings_slots [OF 3(1)] db_set_db]) (auto simp: is_slot_def)
next
  case (4 s s' slot e)
  from surroundings_no_gain [OF 4(1) db_set_db 4(2)] show ?case .
qed

context slot_group
begin

lemma background_one_slot:
  "lease_validate config = Inr u \<Longrightarrow>
     runs (\<lambda>t. only_owned live db prefix token ((tk_shared t)\<lparr>sh_owned_slot := None\<rparr>))
       (run L R from_json RT store prefix token config n) (\<lambda>_ t. only_owned live db prefix token (tk_shared t))"
  by (rule run_only)

end

text \<open>The other gateways and recorders of a deployment are such clients.\<close>

fun stranger :: "('h, 'u) http_lib \<Rightarrow> string \<Rightarrow> redis_provider \<Rightarrow> 'u client_op \<Rightarrow> bool" where
  "stranger L token self (Register reg) \<longleftrightarrow> (is_slot (rp_key_prefix self) (rg_key reg) \<longrightarrow> rg_value reg \<noteq> token)"
| "stranger L token self _ \<longleftrightarrow> True"

lemma inflight_not_slot: "inflight_key self scope \<noteq> slot_key (rp_key_prefix self) slot"
  by (simp add: inflight_key_def slot_key_def)

lemma stamps_simps [simp]:
  "\<not> stamps prefix token (Command [''GET'', k])"
  "\<not> stamps prefix token (Command [''HGET'', k, f])"
  "\<not> stamps prefix token (Command [''HINCRBY'', k, f, n])"
  "\<not> stamps prefix token (Eval script keys args)"
  "stamps prefix token (Command (reserve_args k v ms)) \<longleftrightarrow> v = token \<and> is_slot prefix k"
  by (auto simp: stamps_def reserve_args_def)

lemma harmless_stamps: "harmless (\<lambda>req. \<not> stamps prefix token req)"
  by (simp add: harmless_def)

lemma client_call_unstamped:
  assumes "stranger L token self op" and "not_owner L K token self op"
  shows "sends (\<lambda>req. \<not> stamps (rp_key_prefix self) token req) (client_call L R J policy_json RT self op)"
  using assms
  by (cases op)
    (auto intro!: sends_intros sends_acquire sends_acquire_request sends_load_policy sends_run harmless_stamps
      simp: complete_def renew_def owns_def transition_def provider_load_policy_def registration_register_def
        registration_renew_def registration_unregister_def registration_transition_def own_request_def is_slot_def inflight_not_slot
      split: option.split redis_value.split)

lemma sends_both:
  assumes "sends P c" and "sends Q c"
  shows "sends (\<lambda>req. P req \<and> Q req) c"
  unfolding sends_def using sendsD [OF assms(1)] sendsD [OF assms(2)] by (metis same_append_eq)

lemma client_call_leaves_slots:
  assumes "stranger L token self op" and "not_owner L (is_slot (rp_key_prefix self)) token self op"
    and "0 < rp_ttl_ms self" and "rp_ttl_ms self \<le> i64_max"
  shows "sends (leaves_slots (rp_key_prefix self) token) (client_call L R J policy_json RT self op)"
  unfolding leaves_slots_def
  by (rule sends_both [OF client_call_spares [OF assms(2-4)] client_call_unstamped [OF assms(1,2)]])

section \<open>Properties\<close>

interpretation simple_slots: slot_group simple_exec simple_live
  "simple_runtime :: (simple_world, 'i) runtime" sw_db "\<lambda>d w. w\<lparr>sw_db := d\<rparr>" prefix token for prefix token
proof (unfold_locales, goal_cases)
  case (2 s delay)
  show ?case by (rule quiet_surroundings) (rule simple_link.sleep_rely)
next
  case (3 s)
  show ?case by (rule quiet_surroundings) (rule simple_link.lock_rely)
next
  case (8 req s out s')
  from simple_link.served [OF 8] show ?case by (blast intro: quiet_surroundings)
qed (simp_all add: simple_link.random_usize_db simple_link.random_u128_db simple_link.jitter_db)

text \<open>
  C5: a gateway occupies one slot. Let a gateway start while its fresh boot token is on no slot,
  among any number of other clients of the deployment, whose requests may interleave with its own
  in any way. At every point where its background task can be observed or cancelled, after any
  number of cycles, lost replies and timeouts included, every slot that Redis holds for the token
  is the slot the task has recorded: it is the one it will renew or release next, no second slot
  is taken while the outcome of a request is unknown, and no slot is forgotten while it is held.
\<close>

theorem one_slot_per_gateway:
  assumes "slot_group exec live RT db set_db prefix token" and "lease_validate config = Inr u"
    and "\<forall>slot e. live (sh_now (tk_shared t)) (db (sh_world (tk_shared t))) (slot_key prefix slot) \<noteq> Some (token, e)"
    and "run L R from_json RT store prefix token config n t = (out, t')"
    and "live (sh_now (tk_shared t')) (db (sh_world (tk_shared t'))) (slot_key prefix slot) = Some (token, e)"
  shows "sh_owned_slot (tk_shared t') = Some slot"
proof -
  have "only_owned live db prefix token (tk_shared t')"
    by (rule runsD [OF slot_group.background_one_slot [OF assms(1,2)] _ assms(4)]) (use assms(3) in \<open>simp add: only_owned_def\<close>)
  with assms(5) show ?thesis by (simp add: only_owned_def)
qed

theorem one_slot_per_gateway_witness:
  "\<exists>t' slot e. run assoc_lib segment_router (\<lambda>_. Inl ''json'') simple_runtime sample_store sample_prefix sample_token
       (lease_config_new ''gw-1'') 1 (lease_at 0 None None snapshot_new one_slot []) = (Ready (), t') \<and>
     simple_live (sh_now (tk_shared t')) (sw_db (sh_world (tk_shared t'))) (slot_key sample_prefix slot) = Some (sample_token, e) \<and>
     sh_owned_slot (tk_shared t') = Some slot"
proof -
  obtain snap log where run: "run assoc_lib segment_router (\<lambda>_. Inl ''json'') simple_runtime sample_store
      sample_prefix sample_token (lease_config_new ''gw-1'') 1 (lease_at 0 None None snapshot_new one_slot []) =
    (Ready (), lease_at 20004000000 (Some 40002000000) (Some 0) snap (won_slot 10001000000) log)"
    using sample_run by blast
  let ?t' = "lease_at 20004000000 (Some 40002000000) (Some 0) snap (won_slot 10001000000) log"
  have config: "lease_validate (lease_config_new ''gw-1'') = Inr ()"
    by (simp add: lease_validate_def lease_config_new_def as_millis_def subsec_nanos_def from_secs_def)
  have start: "\<forall>slot e. simple_live (sh_now (tk_shared (lease_at 0 None None snapshot_new one_slot [])))
      (sw_db (sh_world (tk_shared (lease_at 0 None None snapshot_new one_slot [])))) (slot_key sample_prefix slot) \<noteq> Some (sample_token, e)"
    by (simp add: simple_live_def lease_at_def sample_shared_def one_slot_def sample_token_def split: option.split)
  obtain e where held: "simple_live (sh_now (tk_shared ?t')) (sw_db (sh_world (tk_shared ?t'))) (slot_key sample_prefix 0) =
      Some (sample_token, e)"
    by (simp add: simple_live_def lease_at_def sample_shared_def won_slot_def one_slot_def sample_keys)
  have "sh_owned_slot (tk_shared ?t') = Some 0"
    by (rule one_slot_per_gateway [where live = simple_live and db = sw_db and prefix = sample_prefix
          and token = sample_token and slot = 0 and t' = ?t', OF simple_slots.slot_group_axioms config start run held])
  with run held show ?thesis by blast
qed

end
