(* ===== verification/Liveness.thy ===== *)
theory Liveness
  imports Redis_Provider
begin

text \<open>
  Progress. The safety lemmas hold whatever the connection loses; this theory shows what the
  program achieves when it loses nothing. The locale \<open>redis_answers\<close> adds to \<open>redis_server\<close> the
  documented replies to well-formed requests, \<open>live_link\<close> a connection that returns every reply,
  and \<open>live_lease\<close> joins it with the contract of a gateway's lease. Contention is explicit:
  \<open>undisturbed\<close> says that a condition on Redis holds and that the surroundings do not end it.
\<close>

section \<open>A Redis that answers\<close>

text \<open>
  \<open>free now d k\<close>: no key \<open>k\<close> of any type exists. \<open>counts now d k f\<close>: the counter in field
  \<open>f\<close>, zero when it is missing, provided that \<open>k\<close> is a hash or absent and the field is an integer.
\<close>

locale redis_answers = redis_server exec live
  for exec :: "'db redis_exec" and live :: "'db live_view" +
  fixes free :: "instant \<Rightarrow> 'db \<Rightarrow> string \<Rightarrow> bool"
    and counts :: "instant \<Rightarrow> 'db \<Rightarrow> string \<Rightarrow> string \<Rightarrow> nat option"
  assumes set_nx_replies: "0 < ms \<Longrightarrow> ms \<le> i64_max \<Longrightarrow>
      fst (exec now (reserve_args k v ms) d) \<in> {Inr Okay, Inr (SimpleString ''OK''), Inr NilReply}"
    and set_nx_free: "free now d k \<Longrightarrow> 0 < ms \<Longrightarrow> ms \<le> i64_max \<Longrightarrow>
      fst (exec now (reserve_args k v ms) d) \<noteq> Inr NilReply"
    and hget_counts: "counts now d k f = Some c \<Longrightarrow> c \<le> i64_max \<Longrightarrow>
      fst (exec now [''HGET'', k, f] d) = Inr (BulkString (show_nat c)) \<or>
      c = 0 \<and> fst (exec now [''HGET'', k, f] d) = Inr NilReply"
    and hincrby_counts: "counts now d k f = Some c \<Longrightarrow> c < i64_max \<Longrightarrow>
      fst (exec now [''HINCRBY'', k, f, ''1''] d) = Inr (IntReply (int c + 1))"
    and get_frame: "free now (snd (exec now [''GET'', k] d)) = free now d"
      "counts now (snd (exec now [''GET'', k] d)) = counts now d"
    and hget_frame: "free now (snd (exec now [''HGET'', k, f] d)) = free now d"
      "counts now (snd (exec now [''HGET'', k, f] d)) = counts now d"
    and set_frame: "k \<noteq> k' \<Longrightarrow> free now d k \<Longrightarrow> free now (snd (exec now (reserve_args k' v ms) d)) k"
      "k \<noteq> k' \<Longrightarrow> counts now (snd (exec now (reserve_args k' v ms) d)) k f = counts now d k f"
begin

lemma set_free_granted:
  assumes "free now d k" and "0 < ms" and "ms \<le> i64_max"
  shows "\<exists>v'. fst (exec now (reserve_args k v ms) d) = Inr v' \<and> reserve_reply v' = Inr True"
  using set_nx_replies [OF assms(2,3), of now k v d] set_nx_free [OF assms, of v]
  by (auto simp: reserve_reply_True)

end

section \<open>A connection that loses nothing\<close>

text \<open>
  A condition on clock and database that holds, and that the surroundings do not end before \<open>T\<close>.
\<close>

definition undisturbed ::
  "(('w, 'i) shared \<Rightarrow> ('w, 'i) shared \<Rightarrow> bool) \<Rightarrow> ('w \<Rightarrow> 'db) \<Rightarrow> instant \<Rightarrow> (instant \<Rightarrow> 'db \<Rightarrow> bool) \<Rightarrow>
     ('w, 'i) shared \<Rightarrow> bool" where
  "undisturbed rely db T Q s \<longleftrightarrow>
     (sh_now s < T \<longrightarrow> Q (sh_now s) (db (sh_world s))) \<and>
     (\<forall>s1 s2. rely s1 s2 \<longrightarrow> sh_now s2 < T \<longrightarrow>
        Q (sh_now s1) (db (sh_world s1)) \<longrightarrow> Q (sh_now s2) (db (sh_world s2)))"

lemma undisturbed_now: "undisturbed rely db T Q s \<Longrightarrow> sh_now s < T \<Longrightarrow> Q (sh_now s) (db (sh_world s))"
  by (simp add: undisturbed_def)

lemma undisturbed_move:
  "undisturbed rely db T Q s \<Longrightarrow> (sh_now s' < T \<Longrightarrow> Q (sh_now s') (db (sh_world s'))) \<Longrightarrow> undisturbed rely db T Q s'"
  by (simp add: undisturbed_def)

lemma undisturbed_same:
  "undisturbed rely db T Q s \<Longrightarrow> sh_now s' = sh_now s \<Longrightarrow> db (sh_world s') = db (sh_world s) \<Longrightarrow>
     undisturbed rely db T Q s'"
  by (simp add: undisturbed_def)

lemma undisturbed_conj:
  "undisturbed rely db T P s \<Longrightarrow> undisturbed rely db T Q s \<Longrightarrow> undisturbed rely db T (\<lambda>now d. P now d \<and> Q now d) s"
  unfolding undisturbed_def by blast

text \<open>Computations during which the clock does not run backwards.\<close>

definition advances :: "(('w, 'i) task, 'a) fut \<Rightarrow> bool" where
  "advances c \<longleftrightarrow> (\<forall>t. sh_now (tk_shared t) \<le> sh_now (tk_shared (snd (c t))))"

named_theorems advances_intros

lemma advances_run: "advances c \<Longrightarrow> c t = (out, t') \<Longrightarrow> sh_now (tk_shared t) \<le> sh_now (tk_shared t')"
  unfolding advances_def by (metis snd_conv)

lemma advances_local [advances_intros]:
  "advances (ret x)" "advances panic" "advances instant_now" "advances owned_slot" "advances clear"
  "advances (set_owned_slot slot)" "advances (publish started ttl)" "advances (random_usize RT)"
  "advances (random_u128 RT)"
  by (simp_all add: advances_def panic_def instant_now_def owned_slot_def clear_def set_owned_slot_def publish_def
      modify_def random_usize_def random_u128_def split: prod.split)

lemma advances_await [advances_intros]:
  assumes "advances c" and "\<And>x. advances (k x)"
  shows "advances (await c k)"
  unfolding advances_def
proof
  fix t
  obtain r t1 where c: "c t = (r, t1)" by fastforce
  have "sh_now (tk_shared t1) \<le> sh_now (tk_shared (snd (k x t1)))" for x
    using assms(2) [of x] unfolding advances_def by blast
  with c advances_run [OF assms(1) c] show "sh_now (tk_shared t) \<le> sh_now (tk_shared (snd (await c k t)))"
    by (cases r) (auto simp: await_def intro: order_trans)
qed

lemma advances_await_ok [advances_intros]:
  "advances c \<Longrightarrow> (\<And>x. advances (k x)) \<Longrightarrow> advances (await_ok c k)"
  unfolding await_ok_def by (intro advances_intros) (auto intro: advances_intros split: sum.split)

lemma advances_timeout [advances_intros]: "advances c \<Longrightarrow> advances (tokio_timeout budget c)"
  by (simp add: advances_def)

text \<open>The first call of a computation ends before the computation.\<close>

lemma await_ok_first:
  assumes "await_ok c k t = (out, t')" and "\<And>x. advances (k x)"
  obtains o1 t1 where "c t = (o1, t1)" and "sh_now (tk_shared t1) \<le> sh_now (tk_shared t')"
    and "\<And>x. o1 = Ready (Inr x) \<Longrightarrow> k x t1 = (out, t')"
proof -
  obtain o1 t1 where c: "c t = (o1, t1)" by fastforce
  show thesis
  proof (cases "\<exists>x. o1 = Ready (Inr x)")
    case True
    then obtain x where "o1 = Ready (Inr x)" by blast
    with c assms(1) have "k x t1 = (out, t')" by (simp add: await_ok_def await_def)
    from that [OF c advances_run [OF assms(2) this]] this \<open>o1 = Ready (Inr x)\<close> show thesis by simp
  next
    case False
    with c assms(1) have "t' = t1"
      by (cases o1) (auto simp: await_ok_def await_def split: sum.splits)
    with that [OF c] False show thesis by blast
  qed
qed

lemma await_first:
  assumes "await c k t = (out, t')" and "\<And>x. advances (k x)"
  obtains o1 t1 where "c t = (o1, t1)" and "sh_now (tk_shared t1) \<le> sh_now (tk_shared t')"
    and "\<And>x. o1 = Ready x \<Longrightarrow> k x t1 = (out, t')"
proof -
  obtain o1 t1 where c: "c t = (o1, t1)" by fastforce
  show thesis
  proof (cases o1)
    case (Ready x)
    with c assms(1) have "k x t1 = (out, t')" by (simp add: await_def)
    from that [OF c advances_run [OF assms(2) this]] this Ready show thesis by simp
  qed (use c assms(1) that [OF c] in \<open>simp_all add: await_def\<close>)
qed

locale live_link = redis_link exec live RT db set_db rely + redis_answers exec live free counts
  for exec :: "'db redis_exec" and live :: "'db live_view" and RT :: "('w, 'i) runtime"
    and db :: "'w \<Rightarrow> 'db" and set_db :: "'db \<Rightarrow> 'w \<Rightarrow> 'w" and rely
    and free :: "instant \<Rightarrow> 'db \<Rightarrow> string \<Rightarrow> bool"
    and counts :: "instant \<Rightarrow> 'db \<Rightarrow> string \<Rightarrow> string \<Rightarrow> nat option" +
  assumes answered: "rt_redis RT req s = (out, s') \<Longrightarrow>
      \<exists>s1. rely s s1 \<and> out = Ready (fst (run_request exec (sh_now s1) req (db (sh_world s1)))) \<and>
        rely (s1\<lparr>sh_world := set_db (snd (run_request exec (sh_now s1) req (db (sh_world s1)))) (sh_world s1)\<rparr>) s'"
    and rely_clock: "rely s s' \<Longrightarrow> sh_now s \<le> sh_now s'"
begin

text \<open>A request that keeps a condition on Redis.\<close>

definition frames :: "(instant \<Rightarrow> 'db \<Rightarrow> bool) \<Rightarrow> redis_request \<Rightarrow> bool" where
  "frames Q req \<longleftrightarrow> (\<forall>now d. Q now d \<longrightarrow> Q now (snd (run_request exec now req d)))"

lemma undisturbed_rely: "undisturbed rely db T Q s \<Longrightarrow> rely s s' \<Longrightarrow> undisturbed rely db T Q s'"
  using rely_clock [of s s'] unfolding undisturbed_def by (meson order.strict_trans1)

lemma undisturbed_call:
  assumes call: "rt_redis RT req s = (out, s')" and Q: "undisturbed rely db T Q s" and req: "frames Q req"
  shows "undisturbed rely db T Q s'"
proof -
  from answered [OF call] obtain s1 where s1: "rely s s1"
    and s2: "rely (s1\<lparr>sh_world := set_db (snd (run_request exec (sh_now s1) req (db (sh_world s1)))) (sh_world s1)\<rparr>) s'"
    by blast
  note at_s1 = undisturbed_rely [OF Q s1]
  show ?thesis
    using undisturbed_rely [OF undisturbed_move [OF at_s1] s2] req undisturbed_now [OF at_s1]
    by (simp add: frames_def db_set_db)
qed

lemma call_answered:
  assumes Q: "undisturbed rely db T Q (tk_shared t)"
  obtains s1 r t' where "redis_call RT req t = (Ready (map_err Backend r), t')"
    and "rely (tk_shared t) s1" and "sh_now (tk_shared t') < T \<Longrightarrow> Q (sh_now s1) (db (sh_world s1))"
    and "fst (run_request exec (sh_now s1) req (db (sh_world s1))) = r"
    and "frames Q req \<Longrightarrow> undisturbed rely db T Q (tk_shared t')"
    and "sh_now (tk_shared t) \<le> sh_now s1" and "sh_now s1 \<le> sh_now (tk_shared t')"
proof -
  obtain out s' where call: "rt_redis RT req (tk_shared t) = (out, s')" by fastforce
  from answered [OF call] obtain s1 where s1: "rely (tk_shared t) s1"
    and out: "out = Ready (fst (run_request exec (sh_now s1) req (db (sh_world s1))))"
    and s2: "rely (s1\<lparr>sh_world := set_db (snd (run_request exec (sh_now s1) req (db (sh_world s1)))) (sh_world s1)\<rparr>) s'"
    by blast
  note at_s1 = undisturbed_rely [OF Q s1]
  let ?t' = "t\<lparr>tk_shared := s', tk_log := tk_log t @ [req]\<rparr>"
  show ?thesis
  proof (rule that [of "fst (run_request exec (sh_now s1) req (db (sh_world s1)))" ?t'])
    show "redis_call RT req t = (Ready (map_err Backend (fst (run_request exec (sh_now s1) req (db (sh_world s1))))), ?t')"
      using call out by (simp add: redis_call_def)
    show "Q (sh_now s1) (db (sh_world s1))" if "sh_now (tk_shared ?t') < T"
      using undisturbed_now [OF at_s1] rely_clock [OF s2] that by simp
    show "undisturbed rely db T Q (tk_shared ?t')" if "frames Q req"
      using undisturbed_call [OF call Q that] by simp
  qed (use s1 rely_clock [OF s1] rely_clock [OF s2] in simp_all)
qed

lemma advances_call [advances_intros]: "advances (redis_call RT req)" "advances (command RT args)"
  "advances (reserve RT key token ms)" "advances (eval_transition m RT script key args)"
proof -
  show call: "advances (redis_call RT req)" for req
    unfolding advances_def
  proof
    fix t :: "('w, 'i) task"
    have "undisturbed rely db 0 (\<lambda>_ _. True) (tk_shared t)" by (simp add: undisturbed_def)
    from call_answered [OF this, of req]
    show "sh_now (tk_shared t) \<le> sh_now (tk_shared (snd (redis_call RT req t)))"
      by (metis order_trans snd_conv)
  qed
  then show "advances (command RT args)" by (simp add: command_def)
  with call show "advances (reserve RT key token ms)" "advances (eval_transition m RT script key args)"
    unfolding reserve_def eval_transition_def command_def by (auto intro!: advances_intros)
qed

lemma command_replies:
  assumes Q: "undisturbed rely db T Q (tk_shared t)"
    and reply: "\<And>now d. Q now d \<Longrightarrow> \<exists>v. fst (exec now args d) = Inr v \<and> P v"
    and run: "command RT args t = (out, t')" and late: "sh_now (tk_shared t') < T"
  shows "\<exists>v. out = Ready (Inr v) \<and> P v"
    and "frames Q (Command args) \<Longrightarrow> undisturbed rely db T Q (tk_shared t')"
proof -
  have "(\<exists>v. out = Ready (Inr v) \<and> P v) \<and> (frames Q (Command args) \<longrightarrow> undisturbed rely db T Q (tk_shared t'))"
  proof (rule call_answered [OF Q, of "Command args"])
    fix s1 r t1
    assume call: "redis_call RT (Command args) t = (Ready (map_err Backend r), t1)"
      and s1: "sh_now (tk_shared t1) < T \<Longrightarrow> Q (sh_now s1) (db (sh_world s1))"
      and r: "fst (run_request exec (sh_now s1) (Command args) (db (sh_world s1))) = r"
      and Q': "frames Q (Command args) \<Longrightarrow> undisturbed rely db T Q (tk_shared t1)"
    from run call have eq: "out = Ready (map_err Backend r)" "t1 = t'" by (simp_all add: command_def)
    with reply [OF s1] late r obtain v where "r = Inr v" and "P v" by auto
    with eq Q' show ?thesis by (simp add: map_err_def)
  qed
  then show "\<exists>v. out = Ready (Inr v) \<and> P v" and "frames Q (Command args) \<Longrightarrow> undisturbed rely db T Q (tk_shared t')"
    by simp_all
qed

lemma get_reads:
  assumes Q: "undisturbed rely db T Q (tk_shared t)"
    and reads: "\<And>now d. Q now d \<Longrightarrow> holds_until (live now d k) v T'"
    and run: "command RT [''GET'', k] t = (out, t')" and late: "sh_now (tk_shared t') < T"
  shows "out = Ready (Inr (BulkString v))"
    and "frames Q (Command [''GET'', k]) \<Longrightarrow> undisturbed rely db T Q (tk_shared t')"
proof -
  have "\<exists>r. fst (exec now [''GET'', k] d) = Inr r \<and> r = BulkString v" if "Q now d" for now d
    using reads [OF that] get_reply [of now k d] by (auto simp: holds_until_def split: option.splits)
  from command_replies [OF Q this run late] show "out = Ready (Inr (BulkString v))"
    and "frames Q (Command [''GET'', k]) \<Longrightarrow> undisturbed rely db T Q (tk_shared t')" by simp_all
qed

lemma reserve_replies:
  assumes Q: "undisturbed rely db T Q (tk_shared t)" and ms: "0 < ms" "ms \<le> i64_max"
  shows "\<exists>b t'. reserve RT key token ms t = (Ready (Inr b), t') \<and>
    (sh_now (tk_shared t') < T \<longrightarrow> (\<forall>now d. Q now d \<longrightarrow> free now d key) \<longrightarrow> b) \<and>
    (frames Q (Command (reserve_args key token ms)) \<longrightarrow> undisturbed rely db T Q (tk_shared t'))"
proof (rule call_answered [OF Q, of "Command (reserve_args key token ms)"])
  fix s1 r t'
  let ?req = "Command (reserve_args key token ms)"
  assume call: "redis_call RT ?req t = (Ready (map_err Backend r), t')"
    and s1: "sh_now (tk_shared t') < T \<Longrightarrow> Q (sh_now s1) (db (sh_world s1))"
    and r: "fst (run_request exec (sh_now s1) ?req (db (sh_world s1))) = r"
    and frame: "frames Q ?req \<Longrightarrow> undisturbed rely db T Q (tk_shared t')"
  from set_nx_replies [OF ms, of "sh_now s1" key token "db (sh_world s1)"] r
  obtain v where v: "r = Inr v" "v \<in> {Okay, SimpleString ''OK'', NilReply}" by auto
  have "reserve RT key token ms t = (Ready (Inr (v \<noteq> NilReply)), t')"
    using call v by (auto simp: reserve_def command_def await_ok_def await_def map_err_def reserve_reply_def)
  moreover have "v \<noteq> NilReply" if "sh_now (tk_shared t') < T" "\<forall>now d. Q now d \<longrightarrow> free now d key"
    using v(1) r s1 that set_nx_free [OF _ ms, of "sh_now s1" "db (sh_world s1)" key token] by auto
  ultimately show ?thesis using frame by blast
qed

end

section \<open>Elections and renewals\<close>

locale live_lease = lease_link exec live RT db set_db rely prefix token + live_link exec live RT db set_db rely free counts
  for exec :: "'db redis_exec" and live :: "'db live_view" and RT :: "('w, 'i) runtime"
    and db :: "'w \<Rightarrow> 'db" and set_db :: "'db \<Rightarrow> 'w \<Rightarrow> 'w" and rely
    and free :: "instant \<Rightarrow> 'db \<Rightarrow> string \<Rightarrow> bool"
    and counts :: "instant \<Rightarrow> 'db \<Rightarrow> string \<Rightarrow> string \<Rightarrow> nat option"
    and prefix :: string and token :: string
begin

lemma advances_try_slots [advances_intros]: "advances (try_slots RT prefix token ttl slots)"
proof (induction slots)
  case Nil
  show ?case unfolding try_slots.simps by (rule advances_intros)
next
  case (Cons slot slots)
  then show ?case unfolding try_slots.simps by (auto intro!: advances_intros)
qed

lemma advances_renew_or_elect [advances_intros]: "advances (renew_or_elect RT prefix token config limit)"
  unfolding renew_or_elect_def lease_renew_def lease_transition_def Let_def
  by (intro advances_intros) (auto intro!: advances_intros split: option.split)

text \<open>A free slot that nobody else takes is reached: the loop ends with this slot or an earlier one.\<close>

lemma try_slots_live:
  assumes ms: "0 < as_millis ttl" "as_millis ttl \<le> i64_max"
  shows "undisturbed rely db T (\<lambda>now d. free now d (slot_key prefix j)) (tk_shared t) \<Longrightarrow> j \<in> set slots \<Longrightarrow>
    try_slots RT prefix token ttl slots t = (out, t') \<Longrightarrow> sh_now (tk_shared t') < T \<Longrightarrow>
    out = Ready (Inr ()) \<and> (\<exists>slot \<in> set slots. sh_owned_slot (tk_shared t') = Some slot) \<and>
    (\<exists>e. sh_valid_until (tk_shared t') = Some e \<and> sh_now (tk_shared t) + ttl \<le> e)"
proof (induction slots arbitrary: t)
  case (Cons slot slots)
  let ?Q = "\<lambda>now d. free now d (slot_key prefix j)"
  define t1 where "t1 = t\<lparr>tk_shared := (tk_shared t)\<lparr>sh_owned_slot := Some slot\<rparr>\<rparr>"
  have Q1: "undisturbed rely db T ?Q (tk_shared t1)"
    by (rule undisturbed_same [OF Cons.prems(1)]) (simp_all add: t1_def)
  from reserve_replies [OF Q1 ms, of "slot_key prefix slot" token] obtain b t2 where
    res: "reserve RT (slot_key prefix slot) token (as_millis ttl) t1 = (Ready (Inr b), t2)"
    and won: "sh_now (tk_shared t2) < T \<longrightarrow> (\<forall>now d. ?Q now d \<longrightarrow> free now d (slot_key prefix slot)) \<longrightarrow> b"
    and frame: "frames ?Q (Command (reserve_args (slot_key prefix slot) token (as_millis ttl))) \<longrightarrow>
      undisturbed rely db T ?Q (tk_shared t2)" by blast
  have clock: "sh_now (tk_shared t) \<le> sh_now (tk_shared t2)"
    using advances_run [OF advances_call(3) res] by (simp add: t1_def)
  have own: "sh_owned_slot (tk_shared t2) = Some slot"
    using reserve_shared [OF res] by (auto simp: t1_def dest: call_owned)
  let ?t3 = "t2\<lparr>tk_shared := (tk_shared t2)\<lparr>sh_owned_slot := None\<rparr>\<rparr>"
  have step: "try_slots RT prefix token ttl (slot # slots) t =
      (if b then (Ready (Inr ()), t2\<lparr>tk_shared := (tk_shared t2)\<lparr>sh_valid_until := Some (sh_now (tk_shared t) + ttl)\<rparr>\<rparr>)
       else try_slots RT prefix token ttl slots ?t3)"
    using res by (simp add: instant_now_def set_owned_slot_def modify_def publish_def await_def await_ok_def t1_def [symmetric])
  show ?case
  proof (cases b)
    case True
    with step own Cons.prems(3) show ?thesis by auto
  next
    case False
    with step Cons.prems(3) have rest: "try_slots RT prefix token ttl slots ?t3 = (out, t')" by simp
    from advances_run [OF advances_try_slots rest] Cons.prems(4) have "sh_now (tk_shared t2) < T" by simp
    with False won have ne: "slot \<noteq> j" by blast
    have "undisturbed rely db T ?Q (tk_shared t2)"
      by (rule frame [THEN mp]) (use ne in \<open>simp add: frames_def set_frame slot_key_inj\<close>)
    then have "undisturbed rely db T ?Q (tk_shared ?t3)" by (rule undisturbed_same) simp_all
    from Cons.IH [OF this _ rest Cons.prems(4)] Cons.prems(2) ne clock show ?thesis by fastforce
  qed
qed simp

text \<open>An election with an undisturbed free slot succeeds.\<close>

lemma elect_live:
  assumes config: "lease_validate config = Inr u" and j: "j < limit"
    and free: "undisturbed rely db T (\<lambda>now d. free now d (slot_key prefix j)) (tk_shared t)"
    and none: "sh_owned_slot (tk_shared t) = None"
    and run: "renew_or_elect RT prefix token config limit t = (out, t')" and late: "sh_now (tk_shared t') < T"
  shows "out = Ready (Inr ()) \<and> (\<exists>slot < limit. sh_owned_slot (tk_shared t') = Some slot) \<and>
    (\<exists>e. sh_valid_until (tk_shared t') = Some e \<and> sh_now (tk_shared t) + lc_lease_ttl config \<le> e)"
proof -
  obtain r w where draw: "rt_random_usize RT (sh_world (tk_shared t)) = (r, w)" by fastforce
  let ?t1 = "t\<lparr>tk_shared := (tk_shared t)\<lparr>sh_world := w\<rparr>\<rparr>"
  let ?first = "unat r mod limit"
  have elect: "try_slots RT prefix token (lc_lease_ttl config) ([?first..<limit] @ [0..<?first]) ?t1 = (out, t')"
    using none draw run by (simp add: renew_or_elect_def await_def owned_slot_def random_usize_def Let_def)
  have "db w = db (sh_world (tk_shared t))" using random_usize_db [of "sh_world (tk_shared t)"] draw by simp
  then have free1: "undisturbed rely db T (\<lambda>now d. free now d (slot_key prefix j)) (tk_shared ?t1)"
    by (intro undisturbed_same [OF free]) simp_all
  have "j \<in> set ([?first..<limit] @ [0..<?first])" using j by auto
  from try_slots_live [OF lease_validate_ok(1,2) [OF config] free1 this elect late]
  obtain slot where "out = Ready (Inr ())" "slot \<in> set ([?first..<limit] @ [0..<?first])"
    "sh_owned_slot (tk_shared t') = Some slot"
    "\<exists>e. sh_valid_until (tk_shared t') = Some e \<and> sh_now (tk_shared t) + lc_lease_ttl config \<le> e" by auto
  moreover have "?first < limit" using j by simp
  ultimately show ?thesis by auto
qed

text \<open>A renewal that ends before the lease does succeeds.\<close>

lemma renew_live:
  assumes config: "lease_validate config = Inr u" and own: "sh_owned_slot (tk_shared t) = Some slot"
    and hold: "holds_until (live (sh_now (tk_shared t)) (db (sh_world (tk_shared t))) (slot_key prefix slot)) token T"
    and run: "renew_or_elect RT prefix token config limit t = (out, t')" and late: "sh_now (tk_shared t') < T"
  shows "out = Ready (Inr ()) \<and> sh_owned_slot (tk_shared t') = Some slot \<and>
    sh_valid_until (tk_shared t') = Some (sh_now (tk_shared t) + lc_lease_ttl config)"
proof -
  let ?ms = "as_millis (lc_lease_ttl config)"
  let ?req = "Eval RENEW [slot_key prefix slot] [token, show_nat ?ms]"
  let ?k = "\<lambda>renewed. if renewed then await (publish (sh_now (tk_shared t)) (lc_lease_ttl config)) (\<lambda>_. ret (Inr ()))
      else await clear (\<lambda>_. await (set_owned_slot None) (\<lambda>_. ret (Inr ())))"
  note ms = lease_validate_ok(1,2) [OF config]
  have "undisturbed rely db T (\<lambda>_ _. True) (tk_shared t)" by (simp add: undisturbed_def)
  then obtain s1 r t1 where call: "redis_call RT ?req t = (Ready (map_err Backend r), t1)"
    and s1: "rely (tk_shared t) s1" and r: "fst (run_request exec (sh_now s1) ?req (db (sh_world s1))) = r"
    and clock: "sh_now s1 \<le> sh_now (tk_shared t1)"
    by (rule call_answered [where req = ?req]) blast
  from redis_call_shared [OF call] own have loc: "sh_owned_slot (tk_shared t1) = Some slot" by (auto dest: call_owned)
  from run own have run': "await_ok (await_ok (redis_call RT ?req)
      (\<lambda>v. ret (transition_reply ''unexpected Redis participation transition response'' v))) ?k t = (out, t')"
    by (simp add: renew_or_elect_def lease_renew_def lease_transition_def eval_transition_def owned_slot_def
        instant_now_def await_def [of owned_slot] await_def [of instant_now])
  have "sh_now (tk_shared t1) \<le> sh_now (tk_shared t')"
    using run' call by (auto simp: await_ok_def await_def publish_def clear_def set_owned_slot_def modify_def
        split: sum.splits if_splits)
  with clock late have "sh_now s1 < T" by simp
  from rely_token [OF s1 hold this] obtain e where
    "live (sh_now s1) (db (sh_world s1)) (slot_key prefix slot) = Some (token, e)"
    by (auto simp: holds_until_def split: option.splits)
  from renew_owner(1) [OF this ms, of "[]"] r have "r = Inr (IntReply 1)" by (simp del: run_script.simps)
  with run' call loc show ?thesis
    by (auto simp: await_ok_def await_def publish_def modify_def map_err_def transition_reply_def)
qed

lemma release_excess_below:
  "(\<forall>slot. sh_owned_slot (tk_shared t) = Some slot \<longrightarrow> slot < limit) \<Longrightarrow>
     release_excess RT prefix token limit t = (Ready (Inr ()), t)"
  by (auto simp: release_excess_def await_def owned_slot_def split: option.split)

lemma advances_release_excess [advances_intros]: "advances (release_excess RT prefix token limit)"
  unfolding release_excess_def lease_transition_def
  by (intro advances_intros) (auto intro!: advances_intros split: option.split)

lemma advances_read_limit: "advances (read_limit RT key)"
  unfolding read_limit_def by (intro advances_intros)

lemma read_limit_live:
  assumes Q: "undisturbed rely db T Q (tk_shared t)" and n: "n \<le> u64_max"
    and lim: "\<And>now d. Q now d \<Longrightarrow> holds_until (live now d (limit_key prefix)) (show_nat n) T"
    and frame: "frames Q (Command [''GET'', limit_key prefix])"
    and run: "read_limit RT (limit_key prefix) t = (out, t')" and late: "sh_now (tk_shared t') < T"
  shows "out = Ready (Inr n)" and "undisturbed rely db T Q (tk_shared t')"
    and "sh_owned_slot (tk_shared t') = sh_owned_slot (tk_shared t)"
proof -
  obtain o1 t1 where get: "command RT [''GET'', limit_key prefix] t = (o1, t1)" by fastforce
  have t1: "t' = t1"
    using run get by (cases o1) (auto simp: read_limit_def await_ok_def await_def split: sum.splits)
  have reads: "o1 = Ready (Inr (BulkString (show_nat n)))" "undisturbed rely db T Q (tk_shared t1)"
    by (rule get_reads [OF Q _ get late [unfolded t1], of "show_nat n" T], fact lim)+ (fact frame)
  from run get reads(1) t1 show "out = Ready (Inr n)"
    by (simp add: read_limit_def await_ok_def await_def decimal_reply_show [OF n])
  show "undisturbed rely db T Q (tk_shared t')" using reads(2) t1 by simp
  show "sh_owned_slot (tk_shared t') = sh_owned_slot (tk_shared t)"
    using command_shared [OF get] t1 by (auto dest: call_owned)
qed

text \<open>A refresh reads the limit and, with no slot beyond it, goes on to renew or elect.\<close>

lemma refresh_first:
  assumes limit: "limit \<le> u64_max" "limit \<noteq> 0" and Q: "undisturbed rely db T Q (tk_shared t)"
    and lim: "\<And>now d. Q now d \<Longrightarrow> holds_until (live now d (limit_key prefix)) (show_nat limit) T"
    and frame: "frames Q (Command [''GET'', limit_key prefix])"
    and below: "\<forall>slot. sh_owned_slot (tk_shared t) = Some slot \<longrightarrow> slot < limit"
    and run: "refresh RT prefix token config t = (out, t')" and late: "sh_now (tk_shared t') < T"
  obtains t1 where "read_limit RT (limit_key prefix) t = (Ready (Inr limit), t1)"
    and "renew_or_elect RT prefix token config limit t1 = (out, t')"
    and "sh_now (tk_shared t) \<le> sh_now (tk_shared t1)" and "sh_now (tk_shared t1) \<le> sh_now (tk_shared t')"
    and "undisturbed rely db T Q (tk_shared t1)" and "sh_owned_slot (tk_shared t1) = sh_owned_slot (tk_shared t)"
proof -
  obtain o1 t1 where read: "read_limit RT (limit_key prefix) t = (o1, t1)"
    and t1: "sh_now (tk_shared t1) \<le> sh_now (tk_shared t')"
    and cont: "\<And>n. o1 = Ready (Inr n) \<Longrightarrow> await_ok (release_excess RT prefix token n) (\<lambda>_.
         if n = 0 then await clear (\<lambda>_. ret (Inr ())) else renew_or_elect RT prefix token config n) t1 = (out, t')"
    by (rule await_ok_first [OF run [unfolded refresh_def]]) (auto intro!: advances_intros)
  from t1 late have late1: "sh_now (tk_shared t1) < T" by simp
  note first = read_limit_live [OF Q limit(1) lim frame read late1]
  from below first(3) have "\<forall>slot. sh_owned_slot (tk_shared t1) = Some slot \<longrightarrow> slot < limit" by simp
  from cont [OF first(1)] release_excess_below [OF this] limit(2)
  have "renew_or_elect RT prefix token config limit t1 = (out, t')" by (simp add: await_ok_def await_def)
  with read first advances_run [OF advances_read_limit read] t1 that show thesis by blast
qed

text \<open>So a slot in use is renewed, by a refresh that ends in time.\<close>

lemma refresh_renews:
  assumes config: "lease_validate config = Inr u" and limit: "limit \<le> u64_max"
    and lim: "undisturbed rely db T (\<lambda>now d. holds_until (live now d (limit_key prefix)) (show_nat limit) T) (tk_shared t)"
    and own: "sh_owned_slot (tk_shared t) = Some slot" "slot < limit"
    and hold: "holds_until (live (sh_now (tk_shared t)) (db (sh_world (tk_shared t))) (slot_key prefix slot)) token e"
    and run: "refresh RT prefix token config t = (out, t')"
    and late: "sh_now (tk_shared t') < T" "sh_now (tk_shared t') < e"
  shows "out = Ready (Inr ()) \<and> sh_owned_slot (tk_shared t') = Some slot \<and>
    (\<exists>d. sh_valid_until (tk_shared t') = Some d \<and> sh_now (tk_shared t) + lc_lease_ttl config \<le> d)"
proof (rule refresh_first [OF limit _ lim _ _ _ run late(1)])
  fix t1
  assume read: "read_limit RT (limit_key prefix) t = (Ready (Inr limit), t1)"
    and rest: "renew_or_elect RT prefix token config limit t1 = (out, t')"
    and clock: "sh_now (tk_shared t) \<le> sh_now (tk_shared t1)" "sh_now (tk_shared t1) \<le> sh_now (tk_shared t')"
    and own1: "sh_owned_slot (tk_shared t1) = sh_owned_slot (tk_shared t)"
  from await_call_shared [OF read [unfolded read_limit_def command_def]] obtain r where
    call: "rt_redis RT (Command [''GET'', limit_key prefix]) (tk_shared t) = (r, tk_shared t1)" by (elim exE conjE)
  have "holds_until (live (sh_now (tk_shared t1)) (db (sh_world (tk_shared t1))) (slot_key prefix slot)) token e"
    by (rule slot.held_over_call [OF call _ hold]) (use late clock in \<open>simp_all add: get_keeps\<close>)
  from renew_live [OF config _ this rest late(2)] own own1 clock show ?thesis by auto
qed (use own in \<open>auto simp: frames_def get_keeps\<close>)

lemma refresh_live:
  assumes config: "lease_validate config = Inr u" and limit: "limit \<le> u64_max"
    and lim: "undisturbed rely db T (\<lambda>now d. holds_until (live now d (limit_key prefix)) (show_nat limit) T) (tk_shared t)"
    and slot: "case sh_owned_slot (tk_shared t) of
        None \<Rightarrow> \<exists>j < limit. undisturbed rely db T (\<lambda>now d. free now d (slot_key prefix j)) (tk_shared t)
      | Some slot \<Rightarrow> slot < limit \<and>
          holds_until (live (sh_now (tk_shared t)) (db (sh_world (tk_shared t))) (slot_key prefix slot)) token T"
    and run: "refresh RT prefix token config t = (out, t')" and late: "sh_now (tk_shared t') < T"
  shows "out = Ready (Inr ()) \<and> (\<exists>slot < limit. sh_owned_slot (tk_shared t') = Some slot) \<and>
    (\<exists>e. sh_valid_until (tk_shared t') = Some e \<and> sh_now (tk_shared t) + lc_lease_ttl config \<le> e)"
proof (cases "sh_owned_slot (tk_shared t)")
  case None
  let ?Q = "\<lambda>j now d. holds_until (live now d (limit_key prefix)) (show_nat limit) T \<and> free now d (slot_key prefix j)"
  from None slot obtain j where j: "j < limit"
    and free: "undisturbed rely db T (\<lambda>now d. free now d (slot_key prefix j)) (tk_shared t)" by auto
  show ?thesis
  proof (rule refresh_first [OF limit _ undisturbed_conj [OF lim free] _ _ _ run late])
    fix t1
    assume rest: "renew_or_elect RT prefix token config limit t1 = (out, t')"
      and clock: "sh_now (tk_shared t) \<le> sh_now (tk_shared t1)" and Q1: "undisturbed rely db T (?Q j) (tk_shared t1)"
      and own: "sh_owned_slot (tk_shared t1) = sh_owned_slot (tk_shared t)"
    from undisturbed_move [OF free] undisturbed_now [OF Q1]
    have "undisturbed rely db T (\<lambda>now d. free now d (slot_key prefix j)) (tk_shared t1)" by blast
    from elect_live [OF config j this _ rest late] None own clock show ?thesis by fastforce
  qed (use j None in \<open>auto simp: frames_def get_keeps get_frame\<close>)
next
  case (Some own)
  with slot refresh_renews [OF config limit lim Some _ _ run late late] show ?thesis by auto
qed

end

section \<open>Acquisition\<close>

definition has_room ::
  "(instant \<Rightarrow> 'db \<Rightarrow> string \<Rightarrow> string \<Rightarrow> nat option) \<Rightarrow> redis_provider \<Rightarrow> (string \<times> nat) option \<Rightarrow>
     instant \<Rightarrow> 'db \<Rightarrow> bool" where
  "has_room counts self quota now d \<longleftrightarrow>
     (case quota of
        None \<Rightarrow> True
      | Some (field, limit) \<Rightarrow>
          \<exists>c < limit. limit \<le> i64_max \<and> counts now d (ps_counts_key (rp_policy self)) field = Some c)"

lemma participating_discovery: "is_participating self (s\<lparr>sh_discovery := disc\<rparr>) = is_participating self s"
  by (simp add: is_participating_def lease_is_valid_def split: option.split)

context live_link
begin

lemma advances_quota [advances_intros]: "advances (check_quota RT self quota)" "advances (count_case RT self quota)"
  unfolding check_quota_def count_case_def by (auto intro!: advances_intros split: option.split)

lemma advances_reserve_slot [advances_intros]: "advances (reserve_slot L RT self scope quota origin)"
proof -
  have final: "advances (\<lambda>t :: ('w, 'i) task. if \<not> is_participating self (tk_shared t)
      then (Ready (Inl ParticipationLost), t) else (Ready (Inr (True, Acquired ticket)), t))" for ticket :: "'c admission_ticket"
    by (simp add: advances_def)
  show ?thesis
    unfolding reserve_slot_def request_token_def
    by (intro advances_intros) (auto intro!: advances_intros final split: sum.split option.split)
qed

lemma check_quota_live:
  assumes Q: "undisturbed rely db T Q (tk_shared t)" and room: "\<And>now d. Q now d \<Longrightarrow> has_room counts self quota now d"
    and frame: "\<And>k f. frames Q (Command [''HGET'', k, f])"
    and run: "check_quota RT self quota t = (out, t')" and late: "sh_now (tk_shared t') < T"
  shows "out = Ready (Inr True) \<and> undisturbed rely db T Q (tk_shared t')"
proof (cases quota)
  case None
  with Q run show ?thesis by (auto simp: check_quota_def)
next
  case (Some q)
  obtain f l where q: "q = (f, l)" by fastforce
  let ?args = "[''HGET'', ps_counts_key (rp_policy self), f]"
  have reply: "\<exists>v. fst (exec now ?args d) = Inr v \<and> (\<exists>c < l. decimal_reply invalid_count v = Inr c)" if "Q now d" for now d
  proof -
    from room [OF that] Some q obtain c where c: "c < l" "l \<le> i64_max"
      "counts now d (ps_counts_key (rp_policy self)) f = Some c" by (auto simp: has_room_def)
    have "decimal_reply invalid_count (BulkString (show_nat c)) = Inr c" using c by (intro decimal_reply_show) simp
    moreover have "decimal_reply invalid_count NilReply = Inr 0" by (simp add: decimal_reply_def)
    ultimately show ?thesis using hget_counts [OF c(3)] c(1,2) by fastforce
  qed
  obtain o1 t1 where get: "command RT ?args t = (o1, t1)" by fastforce
  have t1: "t' = t1"
    using run Some q get by (cases o1) (auto simp: check_quota_def await_ok_def await_def split: sum.splits)
  from command_replies [OF Q reply get late [unfolded t1]] frame run Some q get t1
  show ?thesis by (auto simp: check_quota_def await_ok_def await_def)
qed

lemma count_case_live:
  assumes Q: "undisturbed rely db T (has_room counts self quota) (tk_shared t)"
    and run: "count_case RT self quota t = (out, t')" and late: "sh_now (tk_shared t') < T"
  shows "out = Ready (Inr ())"
proof (cases quota)
  case None
  with run show ?thesis by (simp add: count_case_def)
next
  case (Some q)
  obtain f l where q: "q = (f, l)" by fastforce
  let ?args = "[''HINCRBY'', ps_counts_key (rp_policy self), f, ''1'']"
  have reply: "\<exists>v. fst (exec now ?args d) = Inr v \<and> (\<exists>n > 0. v = IntReply n)"
    if "has_room counts self quota now d" for now d
  proof -
    from that Some q obtain c where "c < i64_max" "counts now d (ps_counts_key (rp_policy self)) f = Some c"
      by (auto simp: has_room_def)
    from hincrby_counts [OF this(2,1)] show ?thesis by auto
  qed
  obtain o1 t1 where inc: "command RT ?args t = (o1, t1)" by fastforce
  have t1: "t' = t1"
    using run Some q inc by (cases o1) (auto simp: count_case_def await_ok_def await_def split: sum.splits)
  from command_replies(1) [OF Q reply inc late [unfolded t1]] run Some q inc t1
  show ?thesis by (auto simp: count_case_def await_ok_def await_def)
qed

lemma request_token_fresh:
  obtains a b t' where "request_token RT t = (Ready (hex32 a @ hex32 b), t')"
    and "undisturbed rely db T Q (tk_shared t) \<Longrightarrow> undisturbed rely db T Q (tk_shared t')"
proof -
  obtain a w where a: "rt_random_u128 RT (sh_world (tk_shared t)) = (a, w)" by fastforce
  obtain b w' where b: "rt_random_u128 RT w = (b, w')" by fastforce
  let ?t' = "t\<lparr>tk_shared := (tk_shared t)\<lparr>sh_world := w'\<rparr>\<rparr>"
  have "db w' = db (sh_world (tk_shared t))"
    using random_u128_db [of w] random_u128_db [of "sh_world (tk_shared t)"] a b by simp
  then have "undisturbed rely db T Q (tk_shared ?t')" if "undisturbed rely db T Q (tk_shared t)"
    by (intro undisturbed_same [OF that]) simp_all
  moreover have "request_token RT t = (Ready (hex32 a @ hex32 b), ?t')"
    using a b by (simp add: request_token_def await_def random_u128_def)
  ultimately show thesis by (rule that [rotated])
qed

lemma reserve_slot_live:
  assumes Q: "undisturbed rely db T (\<lambda>now d. free now d (inflight_key self scope)) (tk_shared t)"
    and room: "undisturbed rely db T (has_room counts self quota) (tk_shared t)"
    and crate: "http_crate L" and ms: "0 < rp_ttl_ms self" "rp_ttl_ms self \<le> i64_max"
    and scope: "\<not> trim_is_empty scope" "graphic scope" and origin: "is_origin L origin"
    and keys: "ps_counts_key (rp_policy self) \<noteq> inflight_key self scope"
    and run: "reserve_slot L RT self scope quota origin t = (out, t')" and late: "sh_now (tk_shared t') < T"
  shows "\<exists>ticket. out = (if is_participating self (tk_shared t') then Ready (Inr (True, Acquired ticket))
      else Ready (Inl ParticipationLost)) \<and> ticket_scope L ticket = Some scope"
proof -
  let ?Q = "\<lambda>now d. free now d (inflight_key self scope) \<and> has_room counts self quota now d"
  obtain a b t1 where tok: "request_token RT t = (Ready (hex32 a @ hex32 b), t1)"
    and Q1: "undisturbed rely db T ?Q (tk_shared t1)"
    by (rule request_token_fresh [of t T ?Q]) (use undisturbed_conj [OF Q room] in blast)
  from http_crate.ticket_made [OF crate scope origin] obtain ticket where
    made: "bind_ok (ticket_new L scope (hex32 a @ hex32 b)) (\<lambda>t. with_origin L t origin) = Inr ticket" by blast
  note tk = http_crate.ticket_for_token [OF crate made]
  let ?reserve = "reserve RT (inflight_key self scope) (hex32 a @ hex32 b) (rp_ttl_ms self)"
  let ?final = "\<lambda>_ t. if \<not> is_participating self (tk_shared t) then (Ready (Inl ParticipationLost), t)
      else (Ready (Inr (True, Acquired ticket)), t)"
  from run tok made tk(2) have "await_ok ?reserve (\<lambda>reserved. if \<not> reserved then ret (Inr (True, Busy))
      else await_ok (count_case RT self quota) ?final) t1 = (out, t')"
    by (simp add: reserve_slot_def await_def [of "request_token RT"])
  then obtain o2 t2 where res: "?reserve t1 = (o2, t2)" and t2: "sh_now (tk_shared t2) \<le> sh_now (tk_shared t')"
    and cont: "\<And>reserved. o2 = Ready (Inr reserved) \<Longrightarrow> (if \<not> reserved then ret (Inr (True, Busy))
      else await_ok (count_case RT self quota) ?final) t2 = (out, t')"
    by (rule await_ok_first) (auto intro!: advances_intros simp: advances_def [of "?final x" for x])
  have room1: "undisturbed rely db T (has_room counts self quota) (tk_shared t1)"
    by (rule undisturbed_move [OF room]) (use undisturbed_now [OF Q1] in simp)
  have "frames (has_room counts self quota) (Command (reserve_args (inflight_key self scope) (hex32 a @ hex32 b) (rp_ttl_ms self)))"
    using set_frame(2) [OF keys] by (simp add: frames_def has_room_def split: option.split)
  with reserve_replies [OF Q1 ms, of "inflight_key self scope" "hex32 a @ hex32 b"]
    reserve_replies [OF room1 ms, of "inflight_key self scope" "hex32 a @ hex32 b"] res t2 late
  have o2: "o2 = Ready (Inr True)" and room2: "undisturbed rely db T (has_room counts self quota) (tk_shared t2)"
    by auto
  from cont [OF o2] obtain o3 t3 where count: "count_case RT self quota t2 = (o3, t3)"
    and t3: "sh_now (tk_shared t3) \<le> sh_now (tk_shared t')" and last: "\<And>x. o3 = Ready (Inr x) \<Longrightarrow> ?final x t3 = (out, t')"
    by (auto simp: advances_def [of "?final x" for x] elim!: await_ok_first)
  from count_case_live [OF room2 count] t3 late have "o3 = Ready (Inr ())" by simp
  from last [OF this] tk(1) show ?thesis by (auto split: if_splits)
qed

lemma acquire_live:
  assumes crate: "http_crate L" and ms: "0 < rp_ttl_ms self" "rp_ttl_ms self \<le> i64_max"
    and scope: "\<not> trim_is_empty scope" "graphic scope"
    and keys: "inflight_key self scope \<noteq> rp_recorder_url_key self" "ps_counts_key (rp_policy self) \<noteq> inflight_key self scope"
    and part: "is_participating self (tk_shared t)"
    and look: "try_lookup (sh_now (tk_shared t)) (sh_discovery (tk_shared t)) = (Inr guard, state)"
    and url: "undisturbed rely db T (\<lambda>now d. holds_until (live now d (rp_recorder_url_key self)) v T) (tk_shared t)"
    and origin: "recorder_origin L J v = Inr origin" "is_origin L origin"
    and free: "undisturbed rely db T (\<lambda>now d. free now d (inflight_key self scope)) (tk_shared t)"
    and room: "undisturbed rely db T (has_room counts self quota) (tk_shared t)"
    and run: "acquire L J RT self scope quota t = (out, t')" and late: "sh_now (tk_shared t') < T"
  shows "\<exists>ticket. out = (if is_participating self (tk_shared t') then Ready (Inr (Acquired ticket))
      else Ready (Inl ParticipationLost)) \<and> ticket_scope L ticket = Some scope"
proof -
  let ?F = "\<lambda>now d. free now d (inflight_key self scope)"
  let ?Q = "\<lambda>now d. holds_until (live now d (rp_recorder_url_key self)) v T \<and> ?F now d \<and> has_room counts self quota now d"
  let ?t = "t\<lparr>tk_shared := (tk_shared t)\<lparr>sh_discovery := state\<rparr>\<rparr>"
  have Q: "undisturbed rely db T ?Q (tk_shared ?t)"
    by (rule undisturbed_same [OF undisturbed_conj [OF url undisturbed_conj [OF free room]]]) simp_all
  have frames: "frames ?Q (Command [''GET'', k])" "frames ?Q (Command [''HGET'', k, f])" for k f
    by (simp_all add: frames_def get_keeps get_frame hget_frame hash_keeps has_room_def split: option.split)
  obtain r t3 where att: "attempt L J RT self scope quota ?t = (r, t3)" by fastforce
  from run have out: "out = drop_flag r" and t3: "sh_now (tk_shared t3) = sh_now (tk_shared t')"
    and same: "is_participating self (tk_shared t') = is_participating self (tk_shared t3)"
    unfolding acquire_started [OF part keys(1) look]
      with_lookup_run [where body = "attempt L J RT self scope quota", OF att]
    by (auto simp: participating_discovery split del: if_split)
  obtain o1 t1 where get: "command RT [''GET'', rp_recorder_url_key self] ?t = (o1, t1)"
    and t1: "sh_now (tk_shared t1) \<le> sh_now (tk_shared t3)"
    and found: "o1 = Ready (Inr (BulkString v)) \<Longrightarrow> await_ok (check_quota RT self quota) (\<lambda>room.
       if \<not> room then ret (Inr (True, QuotaExhausted)) else reserve_slot L RT self scope quota origin) t1 = (r, t3)"
  proof (rule await_ok_first [OF att [unfolded attempt_def]], goal_cases)
    case (1 x)
    show ?case by (auto intro!: advances_intros split: redis_value.split sum.split)
  next
    case (2 o1 t1)
    from 2(4) [of "BulkString v"] origin(1) show ?case by (intro 2(1) [OF 2(2,3)]) simp
  qed
  from t1 t3 late have late1: "sh_now (tk_shared t1) < T" by simp
  have "o1 = Ready (Inr (BulkString v))" and Q1: "undisturbed rely db T ?Q (tk_shared t1)"
    using get_reads [OF Q _ get late1] frames(1) by blast+
  from found [OF this(1)] obtain o2 t2 where quota: "check_quota RT self quota t1 = (o2, t2)"
    and t2: "sh_now (tk_shared t2) \<le> sh_now (tk_shared t3)"
    and cont: "\<And>room. o2 = Ready (Inr room) \<Longrightarrow> (if \<not> room then ret (Inr (True, QuotaExhausted))
       else reserve_slot L RT self scope quota origin) t2 = (r, t3)"
    by (rule await_ok_first) (auto intro!: advances_intros)
  from check_quota_live [OF Q1 _ frames(2) quota] t2 t3 late
  have o2: "o2 = Ready (Inr True)" and Q2: "undisturbed rely db T ?Q (tk_shared t2)" by simp_all
  from undisturbed_move [OF free] undisturbed_move [OF room] undisturbed_now [OF Q2]
  have free2: "undisturbed rely db T ?F (tk_shared t2)"
    and room2: "undisturbed rely db T (has_room counts self quota) (tk_shared t2)"
    by simp_all
  from cont [OF o2] have "reserve_slot L RT self scope quota origin t2 = (r, t3)" by simp
  from reserve_slot_live [OF free2 room2 crate ms scope origin(2) keys(2) this] t3 late
  obtain ticket where "r = (if is_participating self (tk_shared t3) then Ready (Inr (True, Acquired ticket))
      else Ready (Inl ParticipationLost))" "ticket_scope L ticket = Some scope" by auto
  with out same show ?thesis by auto
qed

end

section \<open>The executable connection answers\<close>

definition simple_free :: "instant \<Rightarrow> simple_db \<Rightarrow> string \<Rightarrow> bool" where
  "simple_free now d k \<longleftrightarrow> simple_live now d k = None"

definition simple_counts :: "instant \<Rightarrow> simple_db \<Rightarrow> string \<Rightarrow> string \<Rightarrow> nat option" where
  "simple_counts now d k f = Some (case sd_hashes d k f of None \<Rightarrow> 0 | Some n \<Rightarrow> n)"

interpretation simple_answers: redis_answers simple_exec simple_live simple_free simple_counts
proof (unfold_locales, goal_cases)
  case (1 ms now k v d)
  then show ?case by (auto simp: simple_exec_def reserve_args_def parse_show_nat split: option.split)
next
  case (2 now d k ms v)
  then show ?case by (auto simp: simple_exec_def reserve_args_def parse_show_nat simple_free_def split: option.split)
next
  case (3 now d k f c)
  then show ?case by (auto simp: simple_exec_def simple_counts_def split: option.splits)
next
  case (4 now d k f c)
  have one: "parse_u64 ''1'' = Some 1" using parse_show_nat [of 1] by (simp add: show_nat_01 [simplified])
  from 4 have "c = (case sd_hashes d k f of None \<Rightarrow> 0 | Some n \<Rightarrow> n)" by (simp add: simple_counts_def)
  then show ?case by (simp add: simple_exec_def one Let_def)
qed (auto simp: simple_exec_def simple_counts_def simple_free_def simple_set_def simple_live_def reserve_args_def
    fun_eq_iff split: option.splits if_splits)


text \<open>The connection of \<open>Redis_Server\<close> without its lost replies.\<close>

definition prompt_await ::
  "redis_request \<Rightarrow> ((simple_world, 'i) shared, string + redis_value) fut" where
  "prompt_await req s = simple_await req (s\<lparr>sh_world := (sh_world s)\<lparr>sw_drops := []\<rparr>\<rparr>)"

definition prompt_runtime :: "(simple_world, 'i) runtime" where
  "prompt_runtime = simple_runtime\<lparr>rt_redis := prompt_await\<rparr>"

lemma prompt_answered:
  assumes "rt_redis prompt_runtime req s = (out, s')"
  shows "\<exists>s1. quiet s s1 \<and> out = Ready (fst (run_request simple_exec (sh_now s1) req (sw_db (sh_world s1)))) \<and>
    quiet (s1\<lparr>sh_world := (sh_world s1)\<lparr>sw_db := snd (run_request simple_exec (sh_now s1) req (sw_db (sh_world s1)))\<rparr>\<rparr>) s'"
proof -
  let ?s1 = "s\<lparr>sh_now := sh_now s + 500000\<rparr>"
  let ?run = "run_request simple_exec (sh_now ?s1) req (sw_db (sh_world ?s1))"
  have "quiet s ?s1" by (simp add: quiet_def)
  moreover have "quiet (?s1\<lparr>sh_world := (sh_world ?s1)\<lparr>sw_db := snd ?run\<rparr>\<rparr>) s'" and "out = Ready (fst ?run)"
    using assms
    by (auto simp: prompt_runtime_def prompt_await_def simple_await_def quiet_def Let_def split: prod.splits)
  ultimately show ?thesis by blast
qed

interpretation prompt: live_lease simple_exec simple_live "prompt_runtime :: (simple_world, 'i) runtime"
  sw_db "\<lambda>d w. w\<lparr>sw_db := d\<rparr>" quiet simple_free simple_counts prefix token for prefix token
proof (unfold_locales, goal_cases)
  case (2 s)
  show ?case using simple_link.sleep_rely [of s] by (simp add: prompt_runtime_def)
next
  case (3 s)
  show ?case using simple_link.lock_rely [of s] by (simp add: prompt_runtime_def)
next
  case (5 w)
  show ?case using simple_link.random_usize_db [of w] by (simp add: prompt_runtime_def)
next
  case (6 w)
  show ?case using simple_link.random_u128_db [of w] by (simp add: prompt_runtime_def)
next
  case (7 band interval w)
  show ?case using simple_link.jitter_db [of band interval w] by (simp add: prompt_runtime_def)
next
  case (8 req s out s')
  from prompt_answered [OF this] obtain s1 where "quiet s s1"
    and "out = Ready (fst (run_request simple_exec (sh_now s1) req (sw_db (sh_world s1))))"
    and "quiet (s1\<lparr>sh_world := (sh_world s1)\<lparr>sw_db := snd (run_request simple_exec (sh_now s1) req (sw_db (sh_world s1)))\<rparr>\<rparr>) s'"
    by (elim exE conjE)
  then show ?case by (intro exI conjI disjI2) (assumption | rule refl)+
next
  case (11 s s' slot d)
  then show ?case using simple_lease.rely_token by blast
next
  case (12 req s out s')
  then show ?case by (rule prompt_answered)
qed (auto simp: quiet_def)

lemma quiet_undisturbed:
  assumes "Q (sh_now s) (sw_db (sh_world s))" and "\<And>now now' d. now \<le> now' \<Longrightarrow> now' < T \<Longrightarrow> Q now d \<Longrightarrow> Q now' d"
  shows "undisturbed quiet sw_db T Q s"
  unfolding undisturbed_def using assms by (auto simp: quiet_def)

lemma quiet_free:
  "simple_free (sh_now s) (sw_db (sh_world s)) k \<Longrightarrow> undisturbed quiet sw_db T (\<lambda>now d. simple_free now d k) s"
  by (rule quiet_undisturbed) (auto simp: simple_free_def simple_server.live_later split: option.splits)

lemma quiet_reads:
  "holds_until (simple_live (sh_now s) (sw_db (sh_world s)) k) v T \<Longrightarrow>
     undisturbed quiet sw_db T (\<lambda>now d. holds_until (simple_live now d k) v T) s"
  by (rule quiet_undisturbed) (auto intro: simple_server.holds_until_later)

section \<open>Properties\<close>

text \<open>
  C10: an answering Redis makes a gateway eligible. Suppose no reply is lost, and until some time
  after the end of the refresh nobody removes the limit. A gateway without a slot, while some slot
  below the limit is free and nobody else takes it, finds a slot whatever random slot it starts
  at; a gateway with a slot below the limit, whose lease in Redis outlasts the refresh, renews it.
  Either way the refresh returns normally, and the gateway owns a slot below the limit and is
  eligible for a whole lease time from the start of the refresh.
\<close>

theorem refresh_succeeds:
  assumes "live_lease exec live RT db set_db rely free counts prefix token"
    and "lease_validate config = Inr u" and "limit \<le> u64_max"
    and "undisturbed rely db T (\<lambda>now d. holds_until (live now d (limit_key prefix)) (show_nat limit) T) (tk_shared t)"
    and "case sh_owned_slot (tk_shared t) of
        None \<Rightarrow> \<exists>j < limit. undisturbed rely db T (\<lambda>now d. free now d (slot_key prefix j)) (tk_shared t)
      | Some slot \<Rightarrow> slot < limit \<and>
          holds_until (live (sh_now (tk_shared t)) (db (sh_world (tk_shared t))) (slot_key prefix slot)) token T"
    and "refresh RT prefix token config t = (out, t')" and "sh_now (tk_shared t') < T"
  shows "out = Ready (Inr ()) \<and> (\<exists>slot < limit. sh_owned_slot (tk_shared t') = Some slot) \<and>
    (\<exists>e. sh_valid_until (tk_shared t') = Some e \<and> sh_now (tk_shared t) + lc_lease_ttl config \<le> e)"
  by (rule live_lease.refresh_live [OF assms])

theorem refresh_succeeds_witness:
  "\<exists>t'. refresh prompt_runtime sample_prefix sample_token (lease_config_new ''gw-1'')
       (lease_at 0 None None snapshot_new one_slot []) = (Ready (Inr ()), t') \<and>
     sh_owned_slot (tk_shared t') = Some 0 \<and>
     (\<exists>e. sh_valid_until (tk_shared t') = Some e \<and> 30000000000 \<le> e)"
proof -
  let ?t = "lease_at 0 None None snapshot_new one_slot []"
  obtain out t' where run: "refresh prompt_runtime sample_prefix sample_token (lease_config_new ''gw-1'') ?t = (out, t')"
    by fastforce
  let ?T = "Suc (sh_now (tk_shared t'))"
  have config: "lease_validate (lease_config_new ''gw-1'') = Inr ()"
    by (simp add: lease_validate_def lease_config_new_def as_millis_def subsec_nanos_def from_secs_def)
  have limit: "undisturbed quiet sw_db ?T
      (\<lambda>now d. holds_until (simple_live now d (limit_key sample_prefix)) (show_nat 1) ?T) (tk_shared ?t)"
    by (rule quiet_reads)
      (simp add: holds_until_def simple_live_def lease_at_def sample_shared_def one_slot_def show_nat_01 [simplified])
  have none: "sh_owned_slot (tk_shared ?t) = None" by (simp add: lease_at_def)
  have "undisturbed quiet sw_db ?T (\<lambda>now d. simple_free now d (slot_key sample_prefix 0)) (tk_shared ?t)"
    by (rule quiet_free)
      (simp add: simple_free_def simple_live_def lease_at_def sample_shared_def one_slot_def sample_keys)
  then have slot: "\<exists>j < 1. undisturbed quiet sw_db ?T (\<lambda>now d. simple_free now d (slot_key sample_prefix j)) (tk_shared ?t)"
    by simp
  have "out = Ready (Inr ()) \<and> (\<exists>slot < 1. sh_owned_slot (tk_shared t') = Some slot) \<and>
    (\<exists>e. sh_valid_until (tk_shared t') = Some e \<and> sh_now (tk_shared ?t) + lc_lease_ttl (lease_config_new ''gw-1'') \<le> e)"
    by (rule refresh_succeeds [OF prompt.live_lease_axioms config _ limit _ run])
      (use slot none in simp_all)
  with run show ?thesis by (auto simp: sample_ttl lease_at_def)
qed

end
