(* ===== verification/Timing.thy ===== *)
theory Timing
  imports Liveness
begin

text \<open>
  How long eligibility lasts. \<open>Liveness\<close> shows that one refresh succeeds on an answering Redis;
  this theory adds time: the locale \<open>timed_lease\<close> bounds the calls, the sleeps and the random
  stretch of the refresh interval, and the lemmas show that the rule "refresh at most one third of
  the lease time" of \<open>lease_validate\<close> leaves room enough for every renewal to come before the
  previous lease ends, cycle after cycle.
\<close>

section \<open>Bounded calls and sleeps\<close>

locale timed_lease = live_lease exec live RT db set_db rely free counts prefix token
  for exec :: "'db redis_exec" and live :: "'db live_view" and RT :: "('w, 'i) runtime"
    and db :: "'w \<Rightarrow> 'db" and set_db :: "'db \<Rightarrow> 'w \<Rightarrow> 'w" and rely
    and free :: "instant \<Rightarrow> 'db \<Rightarrow> string \<Rightarrow> bool"
    and counts :: "instant \<Rightarrow> 'db \<Rightarrow> string \<Rightarrow> string \<Rightarrow> nat option"
    and prefix :: string and token :: string +
  fixes lat :: duration and slack :: duration
  assumes call_time: "rt_redis RT req s = (out, s') \<Longrightarrow> sh_now s' \<le> sh_now s + lat"
    and lock_time: "rt_lock RT s = (r, s') \<Longrightarrow> r = Ready () \<and> sh_now s' \<le> sh_now s + lat"
    and sleep_time: "rt_sleep RT delay s = (r, s') \<Longrightarrow> r = Ready () \<and> sh_now s' \<le> sh_now s + delay + slack"
    and jitter_bound: "5 * fst (rt_jitter RT band interval w) \<le> 6 * interval"
begin

lemma reply_time:
  assumes "await_ok (redis_call RT req) (\<lambda>v. ret (f v)) t = (out, t')"
  shows "sh_now (tk_shared t') \<le> sh_now (tk_shared t) + lat"
  using await_call_shared [OF assms] by (auto dest: call_time)

lemma renew_ends:
  assumes "sh_owned_slot (tk_shared t) = Some slot" and "renew_or_elect RT prefix token config limit t = (out, t')"
  obtains r t1 where "lease_renew RT (slot_key prefix slot) token (as_millis (lc_lease_ttl config)) t = (r, t1)"
    and "sh_now (tk_shared t') = sh_now (tk_shared t1)" and "sh_world (tk_shared t') = sh_world (tk_shared t1)"
proof -
  obtain r t1 where renew: "lease_renew RT (slot_key prefix slot) token (as_millis (lc_lease_ttl config)) t = (r, t1)"
    by fastforce
  have "sh_now (tk_shared t') = sh_now (tk_shared t1) \<and> sh_world (tk_shared t') = sh_world (tk_shared t1)"
    using assms renew
    by (cases r) (auto simp: renew_or_elect_def await_def await_ok_def owned_slot_def instant_now_def clear_def publish_def
        modify_def set_owned_slot_def split: sum.splits if_splits)
  with renew that show thesis by blast
qed

lemma renew_frames_limit:
  assumes "0 < ms" and "ms \<le> i64_max"
  shows "frames (\<lambda>now d. holds_until (live now d (limit_key prefix)) v T) (Eval RENEW [slot_key prefix slot] [token, show_nat ms])"
  unfolding frames_def
proof (intro allI impI)
  fix now d
  let ?k = "slot_key prefix slot"
  have ne: "limit_key prefix \<noteq> ?k" by (simp add: limit_key_def slot_key_def)
  assume "holds_until (live now d (limit_key prefix)) v T"
  moreover have "live now (snd (run_script exec now RENEW [?k] [token, show_nat ms] d)) (limit_key prefix) =
      live now d (limit_key prefix)"
  proof (cases "\<exists>x. live now d ?k = Some (token, x)")
    case True
    then obtain x where "live now d ?k = Some (token, x)" by blast
    from renew_owner(2) [OF this assms, of "[]"] ne show ?thesis by simp
  qed (simp add: script_not_owner(2) del: run_script.simps)
  ultimately show "holds_until (live now (snd (run_request exec now (Eval RENEW [?k] [token, show_nat ms]) d)) (limit_key prefix)) v T"
    by (simp del: run_script.simps)
qed

text \<open>A renewing refresh takes two calls and leaves the limit alone.\<close>

lemma refresh_ends:
  assumes config: "lease_validate config = Inr u" and limit: "limit \<le> u64_max"
    and lim: "undisturbed rely db T (\<lambda>now d. holds_until (live now d (limit_key prefix)) (show_nat limit) T) (tk_shared t)"
    and own: "sh_owned_slot (tk_shared t) = Some slot" "slot < limit"
    and run: "refresh RT prefix token config t = (out, t')" and late: "sh_now (tk_shared t') < T"
  shows "sh_now (tk_shared t') \<le> sh_now (tk_shared t) + 2 * lat \<and>
    undisturbed rely db T (\<lambda>now d. holds_until (live now d (limit_key prefix)) (show_nat limit) T) (tk_shared t')"
proof (rule refresh_first [OF limit _ lim _ _ _ run late])
  let ?Q = "\<lambda>now d. holds_until (live now d (limit_key prefix)) (show_nat limit) T"
  fix t1
  assume read: "read_limit RT (limit_key prefix) t = (Ready (Inr limit), t1)"
    and rest: "renew_or_elect RT prefix token config limit t1 = (out, t')"
    and own1: "sh_owned_slot (tk_shared t1) = sh_owned_slot (tk_shared t)"
    and Q1: "undisturbed rely db T ?Q (tk_shared t1)"
  obtain r t2 where renew: "lease_renew RT (slot_key prefix slot) token (as_millis (lc_lease_ttl config)) t1 = (r, t2)"
    and end_now: "sh_now (tk_shared t') = sh_now (tk_shared t2)" "sh_world (tk_shared t') = sh_world (tk_shared t2)"
    by (rule renew_ends [OF own1 [unfolded own(1)] rest])
  note renew' = renew [unfolded lease_renew_def lease_transition_def]
  from eval_transition_shared [OF renew'] obtain x where
    "rt_redis RT (Eval RENEW [slot_key prefix slot] [token, show_nat (as_millis (lc_lease_ttl config))]) (tk_shared t1) =
      (x, tk_shared t2)" by (elim exE conjE)
  from undisturbed_call [OF this Q1 renew_frames_limit [OF lease_validate_ok(1,2) [OF config]]]
  have "undisturbed rely db T ?Q (tk_shared t2)" .
  then have "undisturbed rely db T ?Q (tk_shared t')" by (rule undisturbed_same) (simp_all add: end_now)
  moreover have "sh_now (tk_shared t1) \<le> sh_now (tk_shared t) + lat"
    by (rule reply_time [OF read [unfolded read_limit_def command_def]])
  moreover have "sh_now (tk_shared t2) \<le> sh_now (tk_shared t1) + lat"
    by (rule reply_time [OF renew' [unfolded eval_transition_def]])
  ultimately show ?thesis using end_now by simp
qed (use own in \<open>auto simp: frames_def get_keeps\<close>)

lemma refresh_policy_returns:
  "\<exists>t'. refresh_policy L R from_json RT store config t = (Ready (), t') \<and>
    sh_now (tk_shared t') \<le> sh_now (tk_shared t) + 2 * lat"
proof -
  let ?k = "\<lambda>value. case value of
      NilReply \<Rightarrow> publish_policy L R from_json None
    | BulkString bytes \<Rightarrow> publish_policy L R from_json (Some bytes)
    | _ \<Rightarrow> ret (Inl (invalid ''API policy must be a JSON string''))"
  obtain s0 where lock: "rt_lock RT (tk_shared t) = (Ready (), s0)" and s0: "sh_now s0 \<le> sh_now (tk_shared t) + lat"
    using lock_time [OF surjective_pairing, of "tk_shared t"] by (metis prod.collapse)
  obtain out s1 where call: "rt_redis RT (Command [''GET'', ps_key store]) s0 = (out, s1)" by fastforce
  from answered [OF call] obtain r where r: "out = Ready r" by blast
  let ?t1 = "\<lparr>tk_shared = s1, tk_log = tk_log t @ [Command [''GET'', ps_key store]]\<rparr>"
  have s1: "sh_now (tk_shared ?t1) \<le> sh_now (tk_shared t) + 2 * lat" using call_time [OF call] s0 by simp
  have reply: "\<exists>res t'. ?k v ?t1 = (Ready res, t') \<and> sh_now (tk_shared t') = sh_now (tk_shared ?t1)" for v
    by (cases v) (auto simp: publish_policy_def Let_def split: sum.split)
  have "\<exists>res t'. load_policy L R from_json RT store t = (Ready res, t') \<and> sh_now (tk_shared t') = sh_now (tk_shared ?t1)"
  proof (cases r)
    case (Inl e)
    with lock call r show ?thesis
      by (simp add: load_policy_def tokio_timeout_def await_def await_ok_def lift_shared_def command_def redis_call_def map_err_def)
  next
    case (Inr v)
    from reply [of v] obtain res t' where k: "?k v ?t1 = (Ready res, t')" "sh_now (tk_shared t') = sh_now (tk_shared ?t1)" by blast
    have "command RT [''GET'', ps_key store] (t\<lparr>tk_shared := s0\<rparr>) = (Ready (Inr v), ?t1)"
      using call r Inr by (simp add: command_def redis_call_def)
    from await_ok_Inr [where c = "command RT [''GET'', ps_key store]" and k = ?k, OF this] k(1)
    have "await (lift_shared (rt_lock RT)) (\<lambda>_. await_ok (command RT [''GET'', ps_key store]) ?k) t = (Ready res, t')"
      using lock by (simp add: await_def [of "lift_shared (rt_lock RT)"] lift_shared_def del: redis_value.case)
    with k(2) show ?thesis by (simp add: load_policy_def tokio_timeout_def)
  qed
  with s1 show ?thesis by (auto simp: refresh_policy_def await_def tokio_timeout_def)
qed

section \<open>Cycles\<close>

text \<open>
  A gateway in use: the limit is in place, the slot is below it, and the next renewal has time to
  finish before the lease ends.
\<close>

definition steady :: "instant \<Rightarrow> nat \<Rightarrow> nat \<Rightarrow> duration \<Rightarrow> ('w, 'i) shared \<Rightarrow> bool" where
  "steady T limit slot ttl s \<longleftrightarrow>
     undisturbed rely db T (\<lambda>now d. holds_until (live now d (limit_key prefix)) (show_nat limit) T) s \<and>
     inv ttl s \<and> sh_owned_slot s = Some slot \<and> slot < limit \<and>
     (\<exists>e. sh_valid_until s = Some e \<and> sh_now s + 2 * lat < e)"

lemma pause_keeps:
  assumes "undisturbed rely db T (\<lambda>now d. holds_until (live now d (limit_key prefix)) (show_nat limit) T) (tk_shared t) \<and>
      inv ttl (tk_shared t) \<and> sh_owned_slot (tk_shared t) = Some slot \<and> sh_valid_until (tk_shared t) = Some e \<and>
      n \<le> sh_now (tk_shared t)" (is "?P (tk_shared t)")
  shows "?P (tk_shared (snd (refresh_policy L R from_json RT store config t)))"
    and "?P (tk_shared (snd (jittered RT band interval t)))"
    and "?P (tk_shared (snd (lift_shared (rt_sleep RT d) t)))"
proof -
  let ?Q = "\<lambda>now d. holds_until (live now d (limit_key prefix)) (show_nat limit) T"
  have rely: "?P s'" if "?P s" "rely s s'" for s s'
    using that undisturbed_rely [OF _ that(2)] inv_rely [OF _ that(2)] rely_local [OF that(2)] rely_clock [OF that(2)] by simp
  have get: "?P s'" if "?P s" "rt_redis RT (Command [''GET'', ps_key store]) s = (out, s')" for s out s'
    using that undisturbed_call [OF that(2), of T ?Q] request_step [OF that(2) _ disjI1 [OF keeps_get], of ttl]
    by (simp add: frames_def get_keeps)
  have snap: "?P (s\<lparr>sh_snapshot := x\<rparr>)" if "?P s" for s x
    using that undisturbed_same [of rely db T ?Q s "s\<lparr>sh_snapshot := x\<rparr>"] by (simp add: inv_frame)
  have world: "?P (s\<lparr>sh_world := w\<rparr>)" if "?P s" "db w = db (sh_world s)" for s w
    using that undisturbed_same [of rely db T ?Q s "s\<lparr>sh_world := w\<rparr>"] by (simp add: inv_frame)
  note keeps = background_keeps [where P = ?P, OF rely get snap world]
  show "?P (tk_shared (snd (refresh_policy L R from_json RT store config t)))"
    by (rule runsD [OF keeps(1) _ surjective_pairing]) (simp_all add: assms)
  show "?P (tk_shared (snd (jittered RT band interval t)))"
    by (rule runsD [OF keeps(2) _ surjective_pairing]) (simp_all add: assms)
  show "?P (tk_shared (snd (lift_shared (rt_sleep RT d) t)))"
    by (rule runsD [OF keeps(3) _ surjective_pairing]) (simp_all add: assms)
qed

lemma advances_background [advances_intros]:
  "advances (refresh_policy L R from_json RT store config)" "advances (jittered RT band interval)"
  "advances (lift_shared (rt_sleep RT d))" "advances valid_now"
proof -
  have clock: "n \<le> sh_now s'" if "n \<le> sh_now s" "rely s s'" for n and s s' :: "('w, 'i) shared"
    using that rely_clock [OF that(2)] by simp
  have call: "n \<le> sh_now s'" if "n \<le> sh_now s" "rt_redis RT req s = (out, s')" for n req out and s s' :: "('w, 'i) shared"
    using that slot.call_clock [OF that(2)] by simp
  have keeps:
    "runs (\<lambda>t. n \<le> sh_now (tk_shared t)) (refresh_policy L R from_json RT store config) (\<lambda>_ t. n \<le> sh_now (tk_shared t))"
    "runs (\<lambda>t. n \<le> sh_now (tk_shared t)) (jittered RT band interval) (\<lambda>_ t. n \<le> sh_now (tk_shared t))"
    "runs (\<lambda>t. n \<le> sh_now (tk_shared t)) (lift_shared (rt_sleep RT d)) (\<lambda>_ t. n \<le> sh_now (tk_shared t))" for n
    by (rule background_keeps [where P = "\<lambda>s. n \<le> sh_now s"], erule (1) clock, erule (1) call, simp_all)+
  show "advances (refresh_policy L R from_json RT store config)" "advances (jittered RT band interval)"
    "advances (lift_shared (rt_sleep RT d))"
    using keeps unfolding runs_def advances_def by blast+
  show "advances valid_now" by (simp add: advances_def valid_now_def)
qed

lemma advances_refresh [advances_intros]: "advances (refresh RT prefix token config)"
  unfolding refresh_def by (intro advances_intros advances_read_limit) (auto intro!: advances_intros)

text \<open>The pause between two refreshes: a policy load, then the jittered sleep.\<close>

lemma pause_time:
  assumes run: "await (refresh_policy L R from_json RT store config) (\<lambda>_. await valid_now (\<lambda>valid.
      await (jittered RT (if valid then Renewing else Waiting) interval) (\<lambda>d. lift_shared (rt_sleep RT d)))) t = (out, t')"
    and P: "undisturbed rely db T (\<lambda>now d. holds_until (live now d (limit_key prefix)) (show_nat limit) T) (tk_shared t) \<and>
      inv ttl (tk_shared t) \<and> sh_owned_slot (tk_shared t) = Some slot \<and> sh_valid_until (tk_shared t) = Some e \<and>
      n \<le> sh_now (tk_shared t)" (is "?P (tk_shared t)")
  shows "out = Ready () \<and> ?P (tk_shared t') \<and> 5 * sh_now (tk_shared t') \<le> 5 * sh_now (tk_shared t) + 10 * lat + 6 * interval + 5 * slack"
proof -
  obtain t1 where policy: "refresh_policy L R from_json RT store config t = (Ready (), t1)"
    and t1: "sh_now (tk_shared t1) \<le> sh_now (tk_shared t) + 2 * lat"
    using refresh_policy_returns by blast
  let ?band = "if lease_is_valid (tk_shared t1) then Renewing else Waiting"
  obtain d w where draw: "rt_jitter RT ?band interval (sh_world (tk_shared t1)) = (d, w)" by fastforce
  let ?t2 = "t1\<lparr>tk_shared := (tk_shared t1)\<lparr>sh_world := w\<rparr>\<rparr>"
  have jitter: "jittered RT ?band interval t1 = (Ready d, ?t2)" using draw by (simp add: jittered_def)
  have d: "5 * d \<le> 6 * interval" using jitter_bound [of ?band interval "sh_world (tk_shared t1)"] draw by simp
  obtain s3 where sleep: "rt_sleep RT d (tk_shared ?t2) = (Ready (), s3)" and s3: "sh_now s3 \<le> sh_now (tk_shared ?t2) + d + slack"
    using sleep_time [OF surjective_pairing, of d "tk_shared ?t2"] by (metis prod.collapse)
  have slept: "lift_shared (rt_sleep RT d) ?t2 = (Ready (), ?t2\<lparr>tk_shared := s3\<rparr>)"
    using sleep by (simp add: lift_shared_def)
  have eq: "out = Ready ()" "t' = ?t2\<lparr>tk_shared := s3\<rparr>"
    using run policy jitter slept by (simp_all add: await_def valid_now_def)
  note P1 = pause_keeps(1) [OF P, of L R from_json store config, unfolded policy snd_conv]
  note P2 = pause_keeps(2) [OF P1, of ?band interval, unfolded jitter snd_conv]
  note P3 = pause_keeps(3) [OF P2, of d, unfolded slept snd_conv]
  have "?P (tk_shared t')" using P3 unfolding eq(2) .
  moreover have "5 * sh_now (tk_shared t') \<le> 5 * sh_now (tk_shared t) + 10 * lat + 6 * interval + 5 * slack"
    using t1 s3 d eq(2) by simp
  ultimately show ?thesis using eq(1) by blast
qed

lemma cycle_steady:
  assumes config: "lease_validate config = Inr u" and limit: "limit \<le> u64_max"
    and budget: "5 * (6 * lat + slack) < 3 * lc_lease_ttl config"
    and steady: "steady T limit slot (lc_lease_ttl config) (tk_shared t)"
    and run: "cycle L R from_json RT store prefix token config t = (out, t')" and late: "sh_now (tk_shared t') < T"
  shows "out = Ready () \<and> steady T limit slot (lc_lease_ttl config) (tk_shared t')"
proof -
  let ?ttl = "lc_lease_ttl config"
  let ?refresh = "tokio_timeout (lc_refresh_interval config) (refresh RT prefix token config)"
  from steady obtain e where lim: "undisturbed rely db T (\<lambda>now d. holds_until (live now d (limit_key prefix)) (show_nat limit) T) (tk_shared t)"
    and inv: "inv ?ttl (tk_shared t)" and own: "sh_owned_slot (tk_shared t) = Some slot" "slot < limit"
    and e: "sh_valid_until (tk_shared t) = Some e" "sh_now (tk_shared t) + 2 * lat < e"
    by (auto simp: steady_def)
  have hold: "holds_until (live (sh_now (tk_shared t)) (db (sh_world (tk_shared t))) (slot_key prefix slot)) token e"
    using inv own e by (simp add: lease_inv_def)
  obtain o1 t1 where timed: "?refresh t = (o1, t1)" and t1: "sh_now (tk_shared t1) \<le> sh_now (tk_shared t')"
    and cont: "\<And>result. o1 = Ready result \<Longrightarrow> await (case result of Inl _ \<Rightarrow> clear | Inr _ \<Rightarrow> ret ()) (\<lambda>_.
         await (refresh_policy L R from_json RT store config) (\<lambda>_. await valid_now (\<lambda>valid.
             await (jittered RT (if valid then Renewing else Waiting) (lc_refresh_interval config)) (\<lambda>d.
               lift_shared (rt_sleep RT d))))) t1 = (out, t')"
    by (rule await_first [OF run [unfolded cycle_def]]) (auto intro!: advances_intros split: sum.split)
  obtain r where ref: "refresh RT prefix token config t = (r, t1)"
    using timed by (metis prod.collapse snd_conv tokio_timeout_snd)
  from t1 late have late1: "sh_now (tk_shared t1) < T" by simp
  note ends = refresh_ends [OF config limit lim own ref late1]
  with e have "sh_now (tk_shared t1) < e" by simp
  from refresh_renews [OF config limit lim own hold ref late1 this] obtain d where
    r: "r = Ready (Inr ())" and own1: "sh_owned_slot (tk_shared t1) = Some slot"
    and d: "sh_valid_until (tk_shared t1) = Some d" "sh_now (tk_shared t) + ?ttl \<le> d" by blast
  note inv1 = refresh_inv [OF ref inv config]
  from timed ref r have o1: "o1 = Ready (Inr ())" by (simp add: tokio_timeout_def)
  from pause_time [OF cont [OF o1, simplified], where e = d and n = 0] ends inv1 own1 d
  have "out = Ready ()" and P: "undisturbed rely db T (\<lambda>now d. holds_until (live now d (limit_key prefix)) (show_nat limit) T) (tk_shared t')"
    "inv ?ttl (tk_shared t')" "sh_owned_slot (tk_shared t') = Some slot" "sh_valid_until (tk_shared t') = Some d"
    and time: "5 * sh_now (tk_shared t') \<le> 5 * sh_now (tk_shared t1) + 10 * lat + 6 * lc_refresh_interval config + 5 * slack"
    by blast+
  have "sh_now (tk_shared t') + 2 * lat < d"
    using time ends d(2) budget lease_validate_ok(4) [OF config] by simp
  with P own(2) \<open>out = Ready ()\<close> show ?thesis by (simp add: steady_def)
qed

lemma advances_cycles: "advances (cycles L R from_json RT store prefix token config n)"
proof -
  have "advances (cycle L R from_json RT store prefix token config)"
    unfolding cycle_def by (intro advances_intros) (auto intro!: advances_intros split: sum.split)
  then show ?thesis by (induction n) (auto simp only: cycles.simps intro!: advances_intros)
qed

lemma cycles_steady:
  assumes config: "lease_validate config = Inr u" and limit: "limit \<le> u64_max"
    and budget: "5 * (6 * lat + slack) < 3 * lc_lease_ttl config"
  shows "steady T limit slot (lc_lease_ttl config) (tk_shared t) \<Longrightarrow>
    cycles L R from_json RT store prefix token config n t = (out, t') \<Longrightarrow> sh_now (tk_shared t') < T \<Longrightarrow>
    out = Ready () \<and> steady T limit slot (lc_lease_ttl config) (tk_shared t')"
proof (induction n arbitrary: t)
  case (Suc n)
  obtain o1 t1 where first: "cycle L R from_json RT store prefix token config t = (o1, t1)"
    and t1: "sh_now (tk_shared t1) \<le> sh_now (tk_shared t')"
    and cont: "\<And>x. o1 = Ready x \<Longrightarrow> cycles L R from_json RT store prefix token config n t1 = (out, t')"
    by (rule await_first [OF Suc.prems(2) [unfolded cycles.simps]]) (auto intro: advances_cycles)
  from cycle_steady [OF config limit budget Suc.prems(1) first] t1 Suc.prems(3)
  have "o1 = Ready ()" and "steady T limit slot (lc_lease_ttl config) (tk_shared t1)" by simp_all
  with Suc.IH [OF _ cont] Suc.prems(3) show ?case by blast
qed simp

end

section \<open>Properties\<close>

text \<open>The executable connection: a millisecond per call, exact sleeps and no stretch.\<close>

interpretation prompt_timed: timed_lease simple_exec simple_live "prompt_runtime :: (simple_world, 'i) runtime"
  sw_db "\<lambda>d w. w\<lparr>sw_db := d\<rparr>" quiet simple_free simple_counts prefix token 1000000 0 for prefix token
proof (unfold_locales, goal_cases)
  case (1 req s out s')
  then show ?case by (auto simp: prompt_runtime_def prompt_await_def simple_await_def Let_def split: prod.splits)
qed (auto simp: prompt_runtime_def simple_runtime_def)

text \<open>
  C11: an eligible gateway stays eligible. Suppose Redis answers every call within \<open>lat\<close>, sleeps
  overrun by at most \<open>slack\<close>, the random factor stretches the refresh interval by at most a fifth,
  and six calls and one overrun take less than three fifths of the lease time. The configuration
  check bounds the interval by a third of the lease time. Then a gateway that owns a slot below
  the limit, with time for the next renewal, gets through any number of background cycles without
  an error, as long as nobody changes the limit: it keeps its slot in Redis, and after each cycle
  the new deadline is again further away than the next renewal takes, so that eligibility is never
  interrupted.
\<close>

theorem eligibility_is_continuous:
  assumes link: "timed_lease exec live RT db set_db rely free counts prefix token lat slack"
    and config: "lease_validate config = Inr u" and limit: "limit \<le> u64_max"
    and budget: "5 * (6 * lat + slack) < 3 * lc_lease_ttl config"
    and lim: "undisturbed rely db T (\<lambda>now d. holds_until (live now d (limit_key prefix)) (show_nat limit) T) (tk_shared t)"
    and inv: "lease_inv live db prefix token (lc_lease_ttl config) (tk_shared t)"
    and own: "sh_owned_slot (tk_shared t) = Some slot" "slot < limit"
    and valid: "sh_valid_until (tk_shared t) = Some e" "sh_now (tk_shared t) + 2 * lat < e"
    and run: "cycles L R from_json RT store prefix token config n t = (out, t')" and late: "sh_now (tk_shared t') < T"
  shows "out = Ready () \<and> sh_owned_slot (tk_shared t') = Some slot \<and>
    (\<exists>e'. sh_valid_until (tk_shared t') = Some e' \<and> sh_now (tk_shared t') + 2 * lat < e' \<and>
       holds_until (live (sh_now (tk_shared t')) (db (sh_world (tk_shared t'))) (slot_key prefix slot)) token e')"
proof -
  have "timed_lease.steady live db rely prefix token lat T limit slot (lc_lease_ttl config) (tk_shared t)"
    using lim inv own valid by (simp add: timed_lease.steady_def [OF link])
  from timed_lease.cycles_steady [OF link config limit budget this run late] show ?thesis
    by (auto simp: timed_lease.steady_def [OF link] lease_inv_def)
qed

text \<open>Three cycles of the sample gateway after its election.\<close>

theorem eligibility_is_continuous_witness:
  "\<exists>t'. cycles assoc_lib segment_router (\<lambda>_. Inl ''json'') prompt_runtime sample_store sample_prefix sample_token
       (lease_config_new ''gw-1'') 3 (lease_at 2000000 (Some 30001000000) (Some 0) snapshot_new (won_slot 0) []) = (Ready (), t') \<and>
     sh_owned_slot (tk_shared t') = Some 0 \<and> lease_is_valid (tk_shared t')"
proof -
  let ?config = "lease_config_new ''gw-1''"
  let ?t = "lease_at 2000000 (Some 30001000000) (Some 0) snapshot_new (won_slot 0) []"
  obtain out t' where run: "cycles assoc_lib segment_router (\<lambda>_. Inl ''json'') prompt_runtime sample_store sample_prefix
      sample_token ?config 3 ?t = (out, t')" by fastforce
  let ?T = "Suc (sh_now (tk_shared t'))"
  have config: "lease_validate ?config = Inr ()"
    by (simp add: lease_validate_def lease_config_new_def as_millis_def subsec_nanos_def from_secs_def)
  have budget: "5 * (6 * 1000000 + 0) < 3 * lc_lease_ttl ?config" by (simp add: sample_ttl)
  have lim: "undisturbed quiet sw_db ?T
      (\<lambda>now d. holds_until (simple_live now d (limit_key sample_prefix)) (show_nat 1) ?T) (tk_shared ?t)"
    by (rule quiet_reads)
      (simp add: holds_until_def simple_live_def lease_at_def sample_shared_def won_slot_def one_slot_def sample_keys show_nat_01 [simplified])
  have inv: "lease_inv simple_live sw_db sample_prefix sample_token (lc_lease_ttl ?config) (tk_shared ?t)"
    by (simp add: lease_inv_def holds_until_def simple_live_def lease_at_def sample_shared_def won_slot_def one_slot_def
        sample_keys sample_ttl)
  have state: "sh_owned_slot (tk_shared ?t) = Some 0" "sh_valid_until (tk_shared ?t) = Some 30001000000"
    "sh_now (tk_shared ?t) + 2 * 1000000 < 30001000000" by (simp_all add: lease_at_def)
  have "out = Ready () \<and> sh_owned_slot (tk_shared t') = Some 0 \<and>
    (\<exists>e'. sh_valid_until (tk_shared t') = Some e' \<and> sh_now (tk_shared t') + 2 * 1000000 < e' \<and>
       holds_until (simple_live (sh_now (tk_shared t')) (sw_db (sh_world (tk_shared t'))) (slot_key sample_prefix 0)) sample_token e')"
    by (rule eligibility_is_continuous [OF prompt_timed.timed_lease_axioms config _ budget lim inv state(1) _ state(2,3) run]) simp_all
  with run show ?thesis by (auto simp: lease_is_valid_def)
qed

end
