(* ===== verification/Server.thy ===== *)
theory Server
  imports Gateway
begin

text \<open>
  Model of \<open>src/server.rs\<close>: the limits of a listener and how the gateway is handed to the HTTP/1
  server of \<open>brz-http-server\<close>. That server and \<open>TcpListener::bind\<close> are arguments. The server
  receives a factory that makes one request handler per peer address.
\<close>

section \<open>Definitions\<close>

datatype io_error = InvalidInput string | OtherIo string

definition MIN_HTTP1_BUFFER_SIZE :: nat where
  "MIN_HTTP1_BUFFER_SIZE = 8 * 1024"

record gateway_config =
  gc_max_connections :: nat
  gc_max_request_head_bytes :: nat
  gc_header_read_timeout :: duration
  gc_tcp_nodelay :: bool

definition gateway_config_default :: gateway_config where
  "gateway_config_default =
     \<lparr>gc_max_connections = 65536,
      gc_max_request_head_bytes = 32 * 1024,
      gc_header_read_timeout = from_secs 15,
      gc_tcp_nodelay = True\<rparr>"

definition gateway_config_validate :: "gateway_config \<Rightarrow> io_error + unit" where
  "gateway_config_validate self =
     (if gc_max_connections self = 0
      then Inl (InvalidInput ''max_connections must be greater than zero'')
      else if gc_max_request_head_bytes self < MIN_HTTP1_BUFFER_SIZE
      then Inl (InvalidInput ''max_request_head_bytes must be at least 8192'')
      else if gc_header_read_timeout self = 0
      then Inl (InvalidInput ''header_read_timeout must be greater than zero'')
      else Inr ())"

text \<open>\<open>brz_http_server::hyper::Config\<close> and its \<open>serve\<close>.\<close>

record hyper_config =
  hc_max_connections :: nat
  hc_max_request_head_bytes :: nat
  hc_header_read_timeout :: duration
  hc_shutdown_grace :: duration
  hc_tcp_nodelay :: bool

type_synonym ('l, 's, 'w, 'h, 'u, 'b, 'rc) hyper_server =
  "'l \<Rightarrow> (string \<Rightarrow> ('h, 'u, 'b) request \<Rightarrow> (('w, 'h, 'u, 'b) net, ('h, 'rc, 'b) gateway_response) fut) \<Rightarrow>
     's \<Rightarrow> hyper_config \<Rightarrow> (('w, 'h, 'u, 'b) net, io_error + unit) fut"

definition serve_with_config ::
  "('l, 's, 'w, 'h, 'u, 'b, 'rc) hyper_server \<Rightarrow> ('h, 'u) http_lib \<Rightarrow> 'i router_lib \<Rightarrow>
     ('c, 'h, 'rc, 'b) cors_lib \<Rightarrow> ('w, 'h, 'u, 'b, 'rc) hyper_lib \<Rightarrow> 'l \<Rightarrow>
     ('w, 'h, 'u, 'b, 'rc, 'i, 'c) gateway \<Rightarrow> 's \<Rightarrow> duration \<Rightarrow> gateway_config \<Rightarrow>
     (('w, 'h, 'u, 'b) net, io_error + unit) fut" where
  "serve_with_config hyper_serve L R C H listener gateway shutdown shutdown_grace config =
     (case gateway_config_validate config of
        Inl e \<Rightarrow> ret (Inl e)
      | Inr _ \<Rightarrow>
          await_ok
            (hyper_serve listener (\<lambda>peer_addr request. handle L R C H gateway request peer_addr) shutdown
              \<lparr>hc_max_connections = gc_max_connections config,
               hc_max_request_head_bytes = gc_max_request_head_bytes config,
               hc_header_read_timeout = gc_header_read_timeout config,
               hc_shutdown_grace = shutdown_grace,
               hc_tcp_nodelay = gc_tcp_nodelay config\<rparr>)
            (\<lambda>_. ret (Inr ())))"

definition serve ::
  "('l, 's, 'w, 'h, 'u, 'b, 'rc) hyper_server \<Rightarrow> ('h, 'u) http_lib \<Rightarrow> 'i router_lib \<Rightarrow>
     ('c, 'h, 'rc, 'b) cors_lib \<Rightarrow> ('w, 'h, 'u, 'b, 'rc) hyper_lib \<Rightarrow> 'l \<Rightarrow>
     ('w, 'h, 'u, 'b, 'rc, 'i, 'c) gateway \<Rightarrow> 's \<Rightarrow> duration \<Rightarrow>
     (('w, 'h, 'u, 'b) net, io_error + unit) fut" where
  "serve hyper_serve L R C H listener gateway shutdown shutdown_grace =
     serve_with_config hyper_serve L R C H listener gateway shutdown shutdown_grace gateway_config_default"

section \<open>Lemmas\<close>

lemma validate_Inr_iff:
  "gateway_config_validate config = Inr u \<longleftrightarrow>
     0 < gc_max_connections config \<and> 8192 \<le> gc_max_request_head_bytes config \<and>
     0 < gc_header_read_timeout config"
  by (auto simp: gateway_config_validate_def MIN_HTTP1_BUFFER_SIZE_def)

lemma await_ok_unit: "await_ok c (\<lambda>_. ret (Inr ())) = c"
  by (rule ext) (auto simp: await_ok_def await_def split: prod.split async.split sum.split)

section \<open>Properties\<close>

text \<open>
  C35: a listener runs with sane limits or not at all. A configuration is accepted exactly when
  it allows a connection, a request head of at least 8 KiB and a positive time for it; then the
  outcome is the HTTP server's own, run with exactly these limits, the given grace period and
  the gateway's handler for every peer. A rejected configuration returns an input error without
  touching the listener, and the defaults of \<open>serve\<close> are accepted.
\<close>

theorem server_limits:
  "(if 0 < gc_max_connections config \<and> 8192 \<le> gc_max_request_head_bytes config \<and>
       0 < gc_header_read_timeout config
    then serve_with_config hyper_serve L R C H listener gateway shutdown grace config s =
      hyper_serve listener (\<lambda>peer request. handle L R C H gateway request peer) shutdown
        \<lparr>hc_max_connections = gc_max_connections config,
         hc_max_request_head_bytes = gc_max_request_head_bytes config,
         hc_header_read_timeout = gc_header_read_timeout config, hc_shutdown_grace = grace,
         hc_tcp_nodelay = gc_tcp_nodelay config\<rparr> s
    else \<exists>message. serve_with_config hyper_serve L R C H listener gateway shutdown grace config s =
      (Ready (Inl (InvalidInput message)), s)) \<and>
   serve hyper_serve L R C H listener gateway shutdown grace s =
     hyper_serve listener (\<lambda>peer request. handle L R C H gateway request peer) shutdown
       \<lparr>hc_max_connections = 65536, hc_max_request_head_bytes = 32768,
        hc_header_read_timeout = from_secs 15, hc_shutdown_grace = grace, hc_tcp_nodelay = True\<rparr> s"
proof (intro conjI)
  let ?run = "serve_with_config hyper_serve L R C H listener gateway shutdown grace"
  have ok: "?run c = hyper_serve listener (\<lambda>peer request. handle L R C H gateway request peer) shutdown
        \<lparr>hc_max_connections = gc_max_connections c,
         hc_max_request_head_bytes = gc_max_request_head_bytes c,
         hc_header_read_timeout = gc_header_read_timeout c, hc_shutdown_grace = grace,
         hc_tcp_nodelay = gc_tcp_nodelay c\<rparr>" if "gateway_config_validate c = Inr ()" for c
    using that by (simp add: serve_with_config_def await_ok_unit)
  have bad: "\<exists>message. ?run config s = (Ready (Inl (InvalidInput message)), s)"
    if "gateway_config_validate config \<noteq> Inr ()"
    using that by (auto simp: serve_with_config_def gateway_config_validate_def split: if_splits)
  show "if 0 < gc_max_connections config \<and> 8192 \<le> gc_max_request_head_bytes config \<and>
       0 < gc_header_read_timeout config
    then ?run config s =
      hyper_serve listener (\<lambda>peer request. handle L R C H gateway request peer) shutdown
        \<lparr>hc_max_connections = gc_max_connections config,
         hc_max_request_head_bytes = gc_max_request_head_bytes config,
         hc_header_read_timeout = gc_header_read_timeout config, hc_shutdown_grace = grace,
         hc_tcp_nodelay = gc_tcp_nodelay config\<rparr> s
    else \<exists>message. ?run config s = (Ready (Inl (InvalidInput message)), s)"
  proof (cases "gateway_config_validate config = Inr ()")
    case True
    with validate_Inr_iff [of config "()"] ok [of config] show ?thesis by simp
  next
    case False
    then have no: "(0 < gc_max_connections config \<and> 8192 \<le> gc_max_request_head_bytes config \<and>
        0 < gc_header_read_timeout config) = False"
      using validate_Inr_iff [of config "()"] by blast
    show ?thesis unfolding no if_False by (rule bad [OF False])
  qed
  have "gateway_config_validate gateway_config_default = Inr ()"
    by (simp add: validate_Inr_iff gateway_config_default_def from_secs_def)
  from ok [OF this] show "serve hyper_serve L R C H listener gateway shutdown grace s =
     hyper_serve listener (\<lambda>peer request. handle L R C H gateway request peer) shutdown
       \<lparr>hc_max_connections = 65536, hc_max_request_head_bytes = 32768,
        hc_header_read_timeout = from_secs 15, hc_shutdown_grace = grace, hc_tcp_nodelay = True\<rparr> s"
    by (simp add: serve_def gateway_config_default_def)
qed

end
