(* ===== verification/Fallback_Log.thy ===== *)
theory Fallback_Log
  imports Gateway_Correct
begin

text \<open>
  The access log of \<open>src/gateway.rs\<close> under the feature \<open>fallback-log\<close>: the handler with its two
  logging blocks. The monotonic clock is an argument that reads milliseconds off the world, and
  the text of the event is returned beside the response.
\<close>

section \<open>Definitions\<close>

definition content_length :: "('h, 'u) http_lib \<Rightarrow> 'h \<Rightarrow> nat option" where
  "content_length L headers =
     Option.bind (Option.bind (hm_get L headers ''content-length'') (value_to_str L)) parse_u64"

definition optional_length :: "nat option \<Rightarrow> string" where
  "optional_length l = (case l of Some n \<Rightarrow> show_nat n | None \<Rightarrow> ''-'')"

record fallback_start =
  fl_started :: instant
  fl_method :: string
  fl_target :: string
  fl_request_len :: "nat option"

definition fallback_log_start ::
  "('h, 'u) http_lib \<Rightarrow> ('w \<Rightarrow> instant) \<Rightarrow> ('h, 'u, 'b) request \<Rightarrow> 'w \<Rightarrow> fallback_start" where
  "fallback_log_start L clock request w =
     \<lparr>fl_started = clock w,
      fl_method = rq_method request,
      fl_target = (case uri_path_and_query L (rq_uri request) of None \<Rightarrow> ''/'' | Some p \<Rightarrow> p),
      fl_request_len = content_length L (rq_headers request)\<rparr>"

definition fallback_log_line ::
  "('h, 'u) http_lib \<Rightarrow> ('w \<Rightarrow> instant) \<Rightarrow> fallback_start \<Rightarrow> ('h, 'rc, 'b) gateway_response \<Rightarrow> 'w \<Rightarrow> string" where
  "fallback_log_line L clock start response w =
     fl_method start @ '' '' @ fl_target start @ '' '' @ show_nat (rs_status response) @ '' '' @
     show_nat (as_millis (clock w - fl_started start)) @ ''ms '' @ optional_length (fl_request_len start) @ '' '' @
     optional_length (content_length L (rs_headers response))"

text \<open>From the decision on: open the entry, dispatch, finish the response, write the entry.\<close>

definition logged_dispatch ::
  "('h, 'u) http_lib \<Rightarrow> ('c, 'h, 'rc, 'b) cors_lib \<Rightarrow> ('w, 'h, 'u, 'b, 'rc) hyper_lib \<Rightarrow> ('w \<Rightarrow> instant) \<Rightarrow>
     ('w, 'h, 'u, 'b, 'rc, 'i, 'c) gateway \<Rightarrow> string option \<Rightarrow> string \<Rightarrow> bool \<Rightarrow> ('h, 'u, 'b) request \<Rightarrow>
     (('w, 'h, 'u, 'b) net, ('h, 'rc, 'b) gateway_response \<times> string option) fut" where
  "logged_dispatch L C H clock self origin peer matched request s =
     (let log = (if matched then None else Some (fallback_log_start L clock request (nw_world s)))
      in await (dispatch L H self matched request peer)
           (\<lambda>response s'.
              let response' = public_response C (gw_cors self) origin response
              in (Ready (response',
                         map_option (\<lambda>start. fallback_log_line L clock start response' (nw_world s')) log), s')) s)"

definition handle_logged ::
  "('h, 'u) http_lib \<Rightarrow> 'i router_lib \<Rightarrow> ('c, 'h, 'rc, 'b) cors_lib \<Rightarrow>
     ('w, 'h, 'u, 'b, 'rc) hyper_lib \<Rightarrow> ('w \<Rightarrow> instant) \<Rightarrow> ('w, 'h, 'u, 'b, 'rc, 'i, 'c) gateway \<Rightarrow>
     ('h, 'u, 'b) request \<Rightarrow> string \<Rightarrow>
     (('w, 'h, 'u, 'b) net, ('h, 'rc, 'b) gateway_response \<times> string option) fut" where
  "handle_logged L R C H clock self request0 peer =
     (let request = sanitize L C request0
      in case Option.bind (gw_cors self) (\<lambda>cors. preflight L C cors request) of
           Some response \<Rightarrow> ret (response, None)
         | None \<Rightarrow>
             (let origin = Option.bind (gw_cors self)
                             (\<lambda>_. map_option hv_bytes (hm_get L (rq_headers request) ''origin''));
                  selected = select R (gw_routes self) (rq_method request) (uri_path L (rq_uri request));
                  global = (global_rule L R self request \<noteq> None)
              in case effective_rule L R self request of
                   None \<Rightarrow> panic
                 | Some rule \<Rightarrow>
                     await (case rule of
                              None \<Rightarrow> ret (selected \<noteq> None, request)
                            | Some rule \<Rightarrow> admit L self global rule request)
                       (\<lambda>(matched, dispatched).
                          logged_dispatch L C H clock self origin peer matched dispatched)))"

section \<open>Logging is transparent\<close>

lemma logged_dispatch_response:
  "map_prod (map_async fst) id (logged_dispatch L C H clock self origin peer matched request s) =
     await (dispatch L H self matched request peer)
       (\<lambda>response. ret (public_response C (gw_cors self) origin response)) s"
  by (auto simp: logged_dispatch_def Let_def await_def split: prod.split async.split)

lemma handle_logged_response:
  "map_prod (map_async fst) id (handle_logged L R C H clock self r peer s) = handle L R C H self r peer s"
  unfolding handle_logged_def handle_def Let_def
  by (auto simp: await_def panic_def logged_dispatch_response [unfolded await_def] split: option.split prod.split async.split)

section \<open>What is logged\<close>

text \<open>Whether a request is sent to the fallback origin, by the decisions the handler takes.\<close>

definition takes_fallback ::
  "('h, 'u) http_lib \<Rightarrow> 'i router_lib \<Rightarrow> ('c, 'h, 'rc, 'b) cors_lib \<Rightarrow>
     ('w, 'h, 'u, 'b, 'rc, 'i, 'c) gateway \<Rightarrow> ('h, 'u, 'b) request \<Rightarrow> 'w \<Rightarrow> bool" where
  "takes_fallback L R C g r w \<longleftrightarrow>
     local_preflight L C g r = None \<and>
     (case effective_rule L R g (sanitize L C r) of
        None \<Rightarrow> False
      | Some None \<Rightarrow> select R (gw_routes g) (rq_method r) (uri_path L (rq_uri r)) = None
      | Some (Some rule) \<Rightarrow>
          (case registry_get (gw_admission g) (ar_provider rule) of
             None \<Rightarrow> False
           | Some P \<Rightarrow>
               admits L rule (fst (acquisition L P (global_rule L R g (sanitize L C r) \<noteq> None) rule
                 (sanitize L C r) w)) = None))"

lemma admit_Ready:
  assumes "admit L g global rule r s = (Ready (matched, q), s1)"
  obtains P out w' where "registry_get (gw_admission g) (ar_provider rule) = Some P"
    and "acquisition L P global rule r (nw_world s) = (out, w')" and "matched \<longleftrightarrow> admits L rule out \<noteq> None"
    and "s1 = s\<lparr>nw_world := w'\<rparr>" and "\<not> matched \<Longrightarrow> q = r"
proof -
  from assms obtain P where P: "registry_get (gw_admission g) (ar_provider rule) = Some P"
    by (auto simp: admit_def panic_def split: option.splits)
  obtain out w' where acq: "acquisition L P global rule r (nw_world s) = (out, w')" by fastforce
  have "out \<noteq> Panicked" using assms P acq by (auto simp: admit_def await_def lift_net_tokio_timeout)
  moreover have "ticket_scope L t \<noteq> None" if "out = Ready (Inr (Acquired t))" for t
    using assms P acq that by (auto simp: admit_def await_def lift_net_tokio_timeout panic_def split: option.splits)
  ultimately have "admit L g global rule r s =
    (case admits L rule out of
       Some t \<Rightarrow> (Ready (True, admitted_request L (gw_fallback g) t r), s\<lparr>nw_world := w'\<rparr>)
     | None \<Rightarrow> (Ready (False, r), s\<lparr>nw_world := w'\<rparr>))"
    by (rule admit_cases [OF P acq])
  then show thesis
    by (intro that [OF P acq]) (use assms in \<open>auto split: option.splits\<close>)
qed

lemma logged_dispatch_line:
  assumes "logged_dispatch L C H clock g origin peer matched q s = (Ready (resp, line), s')"
  shows "(line = None \<longleftrightarrow> matched) \<and>
    (\<forall>event. line = Some event \<longrightarrow>
       event = fallback_log_line L clock (fallback_log_start L clock q (nw_world s)) resp (nw_world s'))"
  using assms by (auto simp: logged_dispatch_def Let_def elim!: await_ReadyE split: if_splits)

lemma handle_logged_line:
  assumes run: "handle_logged L R C H clock g r peer s = (Ready (resp, line), s')"
  shows "(line \<noteq> None \<longleftrightarrow> takes_fallback L R C g r (nw_world s)) \<and>
    (\<forall>event. line = Some event \<longrightarrow>
       (\<exists>w. event = fallback_log_line L clock (fallback_log_start L clock (sanitize L C r) w) resp (nw_world s')))"
proof (cases "local_preflight L C g r")
  case (Some p)
  with run show ?thesis
    by (auto simp: handle_logged_def local_preflight_def takes_fallback_def Let_def)
next
  case None
  note pre = None
  let ?r = "sanitize L C r"
  let ?global = "global_rule L R g ?r \<noteq> None"
  let ?origin = "Option.bind (gw_cors g) (\<lambda>_. map_option hv_bytes (hm_get L (rq_headers ?r) ''origin''))"
  have body: "handle_logged L R C H clock g r peer =
      (case effective_rule L R g ?r of
         None \<Rightarrow> panic
       | Some rule \<Rightarrow>
           await (case rule of
                    None \<Rightarrow> ret (select R (gw_routes g) (rq_method ?r) (uri_path L (rq_uri ?r)) \<noteq> None, ?r)
                  | Some rule \<Rightarrow> admit L g ?global rule ?r)
             (\<lambda>(matched, q). logged_dispatch L C H clock g ?origin peer matched q))"
    using pre by (auto simp: handle_logged_def local_preflight_def Let_def split: option.split)
  from run body obtain er where er: "effective_rule L R g ?r = Some er"
    by (cases "effective_rule L R g ?r") (auto simp: panic_def)
  with run body obtain matched q s1 where
    dec: "(case er of
        None \<Rightarrow> ret (select R (gw_routes g) (rq_method ?r) (uri_path L (rq_uri ?r)) \<noteq> None, ?r)
      | Some rule \<Rightarrow> admit L g ?global rule ?r) s = (Ready (matched, q), s1)"
    and disp: "logged_dispatch L C H clock g ?origin peer matched q s1 = (Ready (resp, line), s')"
    by (auto elim!: await_ReadyE)
  have "(\<not> matched \<longleftrightarrow> takes_fallback L R C g r (nw_world s)) \<and> (\<not> matched \<longrightarrow> q = ?r)"
  proof (cases er)
    case None
    with dec er pre show ?thesis by (auto simp: takes_fallback_def)
  next
    case (Some rule)
    with dec have "admit L g ?global rule ?r s = (Ready (matched, q), s1)" by simp
    then show ?thesis
      by (rule admit_Ready) (use pre er Some in \<open>auto simp: takes_fallback_def\<close>)
  qed
  with logged_dispatch_line [OF disp] show ?thesis by (cases line) auto
qed

section \<open>Properties\<close>

text \<open>
  C33: the fallback log reports fallback traffic and nothing else. Logging never changes what the
  client receives nor what happens upstream; an event is written exactly when the request is
  sent to the fallback origin, not for preflights and not for requests that enter the matched
  service; and its text is method, raw target, the status of the response, elapsed milliseconds
  and the two content lengths, a dash standing for a missing or malformed one.
\<close>

theorem fallback_log_faithful:
  assumes "handle_logged L R C H clock g r peer s = (Ready (resp, line), s')"
  shows "handle L R C H g r peer s = (Ready resp, s') \<and>
    (line \<noteq> None \<longleftrightarrow> takes_fallback L R C g r (nw_world s)) \<and>
    (\<forall>event. line = Some event \<longrightarrow>
       (\<exists>ms. event = rq_method r @ '' '' @
          (case uri_path_and_query L (rq_uri r) of None \<Rightarrow> ''/'' | Some p \<Rightarrow> p) @ '' '' @
          show_nat (rs_status resp) @ '' '' @ show_nat ms @ ''ms '' @
          optional_length (content_length L (rq_headers (sanitize L C r))) @ '' '' @
          optional_length (content_length L (rs_headers resp))))"
  using handle_logged_response [of L R C H clock g r peer s] handle_logged_line [OF assms] assms
  by (auto simp: fallback_log_line_def fallback_log_start_def)

theorem fallback_log_faithful_witness:
  "\<exists>resp event s'. handle_logged assoc_lib segment_router plain_cors sample_hyper (\<lambda>_. 5) sample_gateway
       (sample_request ''GET'' ''/other?q=a'') ''10.0.0.7'' sample_net = (Ready (resp, Some event), s') \<and>
     (\<exists>ms. event = ''GET /other?q=a '' @ show_nat (rs_status resp) @ '' '' @ show_nat ms @ ''ms - '' @
        optional_length (content_length assoc_lib (rs_headers resp)))"
proof -
  let ?run = "handle_logged assoc_lib segment_router plain_cors sample_hyper (\<lambda>_. 5) sample_gateway
       (sample_request ''GET'' ''/other?q=a'') ''10.0.0.7'' sample_net"
  let ?handle = "handle assoc_lib segment_router plain_cors sample_hyper sample_gateway
       (sample_request ''GET'' ''/other?q=a'') ''10.0.0.7'' sample_net"
  have "map_async (\<lambda>_. ()) (fst ?handle) = Ready ()" by code_simp
  then have "map_async (\<lambda>_. ()) (fst ?run) = Ready ()"
    unfolding handle_logged_response [of _ _ _ _ "\<lambda>_. 5", symmetric] by (simp add: async.map_comp comp_def)
  then obtain resp line s' where run: "?run = (Ready (resp, line), s')"
    by (cases ?run; cases "fst ?run") auto
  have "takes_fallback assoc_lib segment_router plain_cors sample_gateway
      (sample_request ''GET'' ''/other?q=a'') (nw_world sample_net)"
    by code_simp
  with fallback_log_faithful [OF run] obtain event where line: "line = Some event" by auto
  have "rq_method (sample_request ''GET'' ''/other?q=a'') = ''GET''"
    and "uri_path_and_query assoc_lib (rq_uri (sample_request ''GET'' ''/other?q=a'')) = Some ''/other?q=a''"
    and "optional_length (content_length assoc_lib (rq_headers (sanitize assoc_lib plain_cors
      (sample_request ''GET'' ''/other?q=a'')))) = ''-''"
    by code_simp+
  with fallback_log_faithful [OF run] line have "\<exists>ms. event = ''GET'' @ '' '' @ ''/other?q=a'' @ '' '' @
      show_nat (rs_status resp) @ '' '' @ show_nat ms @ ''ms '' @ ''-'' @ '' '' @
      optional_length (content_length assoc_lib (rs_headers resp))"
    by (simp only: option.case option.inject)
  with run line show ?thesis by simp
qed

end
