(* ===== verification/Conformance.thy ===== *)
theory Conformance
  imports Policy
begin

text \<open>
  The unit tests of the repository, evaluated in the model: \<open>config.rs\<close> (module \<open>tests\<close>) and
  \<open>redis_admission/policy/tests.rs\<close>, one lemma per test, under the executable HTTP types and route
  index. Configurations are written as the decoders would return them; cases that only the TOML or
  JSON decoder rejects are outside the model.
\<close>

section \<open>Route tables\<close>

definition table_of :: "routes_config \<Rightarrow> indexed_rule list route_table option" where
  "table_of config = (case compile_table assoc_lib segment_router config of Inr t \<Rightarrow> Some t | Inl _ \<Rightarrow> None)"

definition plain_rule :: "string list \<Rightarrow> string \<Rightarrow> route_rule" where
  "plain_rule methods path = \<lparr>rr_methods = methods, rr_path = path, rr_admission = None\<rparr>"

definition selects :: "routes_config \<Rightarrow> string \<Rightarrow> string \<Rightarrow> nat option option" where
  "selects config m p = map_option (\<lambda>t. select segment_router t m p) (table_of config)"

definition matches_all :: "routes_config \<Rightarrow> (bool \<times> string \<times> string) list \<Rightarrow> bool" where
  "matches_all config cases \<longleftrightarrow>
     (case table_of config of
        None \<Rightarrow> False
      | Some t \<Rightarrow> list_all (\<lambda>(expected, m, p). table_matches segment_router t m p = expected) cases)"

lemma empty_table_falls_back_every_request:
  "\<not> table_matches segment_router (empty_table segment_router) ''GET'' ''/api/health''"
  by code_simp

lemma exact_rules_match_method:
  "matches_all \<lparr>rc_routes = [plain_rule [''GET''] ''/api/health''], rc_exclude = []\<rparr>
     [(True, ''GET'', ''/api/health''), (False, ''POST'', ''/api/health''),
      (False, ''GET'', ''/api/health/ready'')]"
  by code_simp

lemma templates_select_parameter_and_catch_all_paths:
  "matches_all
     \<lparr>rc_routes = [plain_rule [''GET''] ''/api/tasks/:task_id'', plain_rule [''GET''] ''/api/quota/*path''],
      rc_exclude = []\<rparr>
     [(True, ''GET'', ''/api/tasks/123''), (True, ''GET'', ''/api/quota/claude/quota''),
      (False, ''GET'', ''/api/quota'')]"
  by code_simp

definition admission_case :: "string \<Rightarrow> string \<Rightarrow> nat \<Rightarrow> routes_config" where
  "admission_case provider scope timeout =
     \<lparr>rc_routes = [(plain_rule [''POST''] ''/api/write'')\<lparr>rr_admission := Some
        \<lparr>ar_provider = provider, ar_scope = scope, ar_acquire_timeout_ms = timeout\<rparr>\<rparr>], rc_exclude = []\<rparr>"

lemma admission_uses_first_matching_route:
  "selects
     \<lparr>rc_routes =
        [(plain_rule [] ''/api/:id'')\<lparr>rr_admission := Some
           \<lparr>ar_provider = ''recording'', ar_scope = ''all-writes'',
            ar_acquire_timeout_ms = default_admission_acquire_timeout_ms\<rparr>\<rparr>,
         plain_rule [] ''/api/new''],
      rc_exclude = []\<rparr> ''POST'' ''/api/new'' = Some (Some 0)"
  by code_simp

lemma admission_validates_configuration:
  "list_all (\<lambda>(provider, scope, timeout).
       compile_table assoc_lib segment_router (admission_case provider scope timeout) = Inl (InvalidAdmission 0))
     [('''', ''scope'', 10), (''recording'', '''', 10), (''recording'', ''scope'', 0),
      (''recording'', CHR 0xE9 # CHR 0x9D # CHR 0x9E # ''ASCII'', 10)]"
  by code_simp

lemma exclusions_override_exact_and_wildcard_routes_for_only_the_given_method:
  "matches_all
     \<lparr>rc_routes = [plain_rule [] ''/api/*path'', plain_rule [] ''/api/events''],
      rc_exclude = [\<lparr>er_methods = [''GET''], er_path = ''/api/events''\<rparr>]\<rparr>
     [(False, ''GET'', ''/api/events''), (True, ''HEAD'', ''/api/events''), (True, ''POST'', ''/api/events''),
      (True, ''GET'', ''/api/events/child''), (True, ''GET'', ''/api/other'')]"
  by code_simp

lemma exclusions_support_templates_and_all_methods:
  "matches_all
     \<lparr>rc_routes = [plain_rule [] ''/api/*path''],
      rc_exclude = [\<lparr>er_methods = [], er_path = ''/api/private/:id''\<rparr>,
                    \<lparr>er_methods = [''GET''], er_path = ''/api/streams/*path''\<rparr>]\<rparr>
     ([(False, m, ''/api/private/42''). m \<leftarrow> [''GET'', ''POST'', ''CUSTOM'']] @
      [(True, m, ''/api/private/42/child''). m \<leftarrow> [''GET'', ''POST'', ''CUSTOM'']] @
      [(False, ''GET'', ''/api/streams/a/b''), (True, ''POST'', ''/api/streams/a/b'')])"
  by code_simp

lemma invalid_exclusions_fail_configuration_instead_of_being_ignored:
  "table_of \<lparr>rc_routes = [], rc_exclude = [\<lparr>er_methods = [''BAD METHOD''], er_path = ''/api/events''\<rparr>]\<rparr> = None"
  "table_of \<lparr>rc_routes = [], rc_exclude = [\<lparr>er_methods = [], er_path = ''/api/*path/child''\<rparr>]\<rparr> = None"
  by code_simp+

section \<open>API policies\<close>

definition apis :: "path_rule list \<Rightarrow> path_rule list \<Rightarrow> (string \<times> string option) list \<Rightarrow> bool" where
  "apis includes excludes cases \<longleftrightarrow>
     (case compile_policy assoc_lib segment_router \<lparr>pc_case_limit = None, pc_includes = includes, pc_excludes = excludes\<rparr> of
        Inl _ \<Rightarrow> False
      | Inr policy \<Rightarrow> list_all (\<lambda>(path, expected). api segment_router policy path = Some expected) cases)"

lemma omitted_and_empty_includes_allow_all_paths:
  "apis [] [] [(''/'', Some ''/''), (''/unlisted/path'', Some ''/unlisted/path'')]"
  by code_simp

lemma zero_limit_selects_nothing:
  assumes "compile_policy L R (policy_default\<lparr>pc_case_limit := Some 0\<rparr>) = Inr policy"
  shows "api R policy path = Some None"
  using assms by (auto simp: compile_policy_def api_def bind_ok_Inr_iff policy_default_def)

lemma prefix_matches_whole_segments_and_exact_patterns_define_count_identity:
  "apis [\<lparr>pa_path = ''/api/'', pa_kind = Prefix\<rparr>, \<lparr>pa_path = ''/api/:id/xxx'', pa_kind = Exact\<rparr>] []
     [(''/api'', Some ''/api''), (''/api/'', Some ''/api/''), (''/api/other'', Some ''/api/other''),
      (''/apix'', None), (''/api/123/xxx'', Some ''/api/:id/xxx''), (''/api/456/xxx'', Some ''/api/:id/xxx''),
      (''/api/123/xxx/tail'', Some ''/api/123/xxx/tail'')]"
  "apis [\<lparr>pa_path = ''/api/:id/xxx'', pa_kind = Exact\<rparr>] [] [(''/api/123/xxx/tail'', None)]"
  by code_simp+

lemma excludes_override_all_include_shapes:
  "apis [\<lparr>pa_path = ''/'', pa_kind = Prefix\<rparr>, \<lparr>pa_path = ''/private/:id'', pa_kind = Exact\<rparr>]
     [\<lparr>pa_path = ''/socket.io'', pa_kind = Prefix\<rparr>, \<lparr>pa_path = ''/private/:id'', pa_kind = Exact\<rparr>]
     ([(path, None). path \<leftarrow> [''/socket.io'', ''/socket.io/'', ''/socket.io/session'', ''/private/12'']] @
      [(path, Some path). path \<leftarrow> [''/'', ''/socket.io-other'', ''/private/12/tail'', ''/other'']])"
  by code_simp

lemma invalid_policies_are_rejected:
  "list_all (\<lambda>rule. \<not> apis [rule] [] [])
     [\<lparr>pa_path = ''relative'', pa_kind = Prefix\<rparr>, \<lparr>pa_path = ''/api?query=1'', pa_kind = Prefix\<rparr>,
      \<lparr>pa_path = ''/api#fragment'', pa_kind = Exact\<rparr>, \<lparr>pa_path = ''/api/:id'', pa_kind = Prefix\<rparr>]"
  "\<exists>e. compile_policy L R (policy_default\<lparr>pc_case_limit := Some (i64_max + 1)\<rparr>) = Inl e"
  by code_simp (simp add: compile_policy_def)

end
