(* ===== verification/Spec2Isabelle.thy ===== *)
theory Spec2Isabelle
  imports Single_Slot Timing Server Fallback_Log Conformance
begin

text \<open>
  Verification of the Breeze HTTP gateway (\<open>src/src\<close>), a reusable HTTP/1.1 migration gateway:
  route rules select requests for an application service, every other request is streamed to a
  fallback origin, and selected requests can be recorded, one at a time across all gateways,
  under admission control in Redis.

  \<^bold>\<open>How the program works.\<close> \<open>Gateway::handle\<close> removes client-supplied control headers, answers CORS
  preflights, selects a route, asks an admission provider for a ticket where a rule says so, and
  dispatches to the matched service or to the fallback proxy. \<open>OriginService\<close> sends recorded
  requests to the recorder named by the ticket and replays them once to the original origin when
  the recorder cannot be reached or answers 404. \<open>RedisAdmissionProvider\<close> reserves one slot per
  scope with \<open>SET NX PX\<close>; it looks the recorder up in Redis with a local cooldown, applies an
  API policy that is reloaded in the background, and serves only while a background task holds
  one of N participation leases. Recorders register with \<open>RecorderRegistration\<close> and release or
  extend the reservations of the tickets they receive.

  \<^bold>\<open>How it is modelled.\<close> Asynchronous code is state passing: \<open>('w, 'a) fut\<close> maps a world to an
  outcome and a world, the outcome being a value, a cancellation (the future was dropped at an
  await, as a timeout does) or a panic. Fallible code returns a sum whose left side is the error.
  Libraries that are not part of the repository are arguments: the HTTP types (\<open>http_lib\<close>), the
  route index (\<open>router_lib\<close>), the CORS engine (\<open>cors_lib\<close>), the HTTP client (\<open>hyper_lib\<close>), the
  Redis client, clock, random numbers and mutex (\<open>runtime\<close>), the JSON and TOML decoders and the
  HTTP server. What the code relies on of them are the assumptions of locales (\<open>http_crate\<close>,
  \<open>router_crate\<close>, \<open>cors_crate\<close>, \<open>http_client\<close>, \<open>redis_server\<close>, \<open>redis_link\<close>,
  \<open>token_link\<close>, \<open>lease_link\<close>, \<open>group_link\<close>, \<open>sole_client\<close>, \<open>slot_group\<close>, \<open>redis_answers\<close>,
  \<open>live_link\<close>, \<open>live_lease\<close>, \<open>timed_lease\<close>, \<open>address_codec\<close>, \<open>redis_backend\<close>), each interpreted on
  an executable instance; \<open>provider_contract\<close> and \<open>service_contract\<close> are the interfaces between the
  gateway and its providers and services, and are interpreted on the model's own services and on
  the Redis provider.

  \<^bold>\<open>The theories\<close>, in the order of the code:
  \<^item> \<open>Prelude\<close>: outcomes and await combinators, the judgement \<open>runs\<close>, sequences, byte strings,
    decimal and hexadecimal numbers, durations.
  \<^item> \<open>Http_Types\<close>: requests, responses, headers; \<open>Admission\<close> (\<open>admission.rs\<close>): tickets, outcomes,
    errors, the provider interface, the registry.
  \<^item> \<open>Routing\<close> (\<open>config.rs\<close>): validation, compilation and selection of routes and exclusions, with a
    specification that reads the configuration; \<open>Segment_Router\<close>: an executable route index and
    the agreement of compiled and configured selection, errors included.
  \<^item> \<open>Proxy\<close> (\<open>proxy.rs\<close>) and \<open>Replay\<close> (\<open>proxy/replay.rs\<close>): what is put on the wire, upgrades, body
    retention and the single replay; \<open>Sample_Client\<close>: an executable HTTP client;
    \<open>Proxy_Correct\<close>: the properties of tickets, headers, forwarding and replay.
  \<^item> \<open>Gateway\<close> (\<open>gateway.rs\<close>, \<open>cors.rs\<close>): construction and the handler, with the provider and service
    contracts; \<open>Gateway_Correct\<close>: where requests go, what leaves, what is hidden, no panics;
    \<open>Fallback_Log\<close>: the handler with the feature \<open>fallback-log\<close>; \<open>Server\<close> (\<open>server.rs\<close>): limits
    and hand-over to the HTTP server.
  \<^item> \<open>Discovery\<close> (\<open>redis_admission/discovery.rs\<close>): cooldown and single lookup as a step relation;
    \<open>Policy\<close> and \<open>Policy_Store\<close> (\<open>redis_admission/policy.rs\<close>): compilation against a reading of
    the configuration, atomic publication.
  \<^item> \<open>Redis_Client\<close>: requests, replies, shared state, the Lua scripts, reservations and token-checked
    transitions; \<open>Redis_Server\<close>: the documented effect of the commands, the lemmas on keys that
    hold a token, and an executable server.
  \<^item> \<open>Lease\<close> and \<open>Lease_Correct\<close> (\<open>redis_admission/lease.rs\<close>): the background task and the lease
    invariant; \<open>Registration\<close> (\<open>redis_admission/registration.rs\<close>).
  \<^item> \<open>Redis_Admission\<close> (\<open>redis_admission.rs\<close>): the provider; \<open>Redis_Admission_Correct\<close>: commands,
    discovery and reservation of an acquisition; \<open>Redis_Provider\<close>: the provider contract and the
    provider's properties; \<open>Redis_Group\<close>: many clients on one Redis, which requests leave a token
    alone, and the reliance of the safety proofs discharged for every operation of the program;
    \<open>Single_Slot\<close>: a gateway occupies the one slot it has recorded, whatever outcomes are lost;
    \<open>Liveness\<close>: what is achieved when Redis answers, elections, renewals and acquisitions;
    \<open>Timing\<close>: with bounded latency and sleeps, eligibility lasts from cycle to cycle.
  \<^item> \<open>Conformance\<close>: the unit tests of \<open>config.rs\<close> and \<open>redis_admission/policy/tests.rs\<close>, evaluated in
    the model.
  \<^item> This theory: gateways whose providers are Redis providers.

  \<^bold>\<open>State.\<close> The record \<open>shared\<close> is what the clones of a provider and its background task share:
  the clock, the discovery state, the policy snapshot, the lease deadline, the owned slot and the
  outside world. An await may change it arbitrarily within the relation \<open>rely\<close> of \<open>redis_link\<close>,
  so every statement about Redis covers all interleavings with other gateways, recorders and
  tasks. \<open>tk_log\<close> and \<open>nw_log\<close> are ghost logs of the requests sent to Redis and to HTTP origins.

  \<^bold>\<open>What is shown.\<close> Requests leave the gateway with tickets this call acquired or with none; what
  reaches the recorder is reserved, a slot records one case at a time, a ticket acts on its own
  reservation only; an eligible gateway holds its lease and at most N are eligible; other clients of
  this program cannot break either, whatever they do and when; a gateway never occupies a slot it
  has lost track of; if Redis answers and nobody else interferes, a request whose slot is free is
  recorded and a gateway becomes eligible; with bounded latency it stays eligible, because the
  configuration check leaves room for each renewal; a standby
  gateway does not contact Redis; compiled routes and policies mean what their configuration
  says; bodies are replayed at most once and only in the documented cases; configuration errors
  are reported exactly; nothing built by the constructors panics.

  \<^bold>\<open>Bounds and loops.\<close> The background task runs forever; \<open>run\<close> takes the number of cycles, and its
  properties hold for every number. All other loops are structural recursions. Integers that
  overflow or are parsed at a width (\<open>u64\<close>, \<open>usize\<close> at 64 bits, \<open>i64\<close> limits, 128-bit random
  numbers) carry their bounds; durations and instants are natural numbers of nanoseconds.

  \<^bold>\<open>Assumptions.\<close> The clock of a task advances only at awaits, so the reads of the clock between two
  awaits agree. A Redis request is executed at one moment during its await or not at all; one
  that was dropped is not executed later. Mutexes are not poisoned, since no code panics while
  holding one.

  Sleeps take the refresh interval times a random factor; which factor is drawn when is modelled,
  its floating-point product with the interval is a parameter (\<open>rt_jitter\<close>), bounded only in
  \<open>Timing\<close>. The budgets of \<open>timeout\<close> are passed on as in the code; that a budget has run out shows
  as a cancelled await, at any await.

  \<^bold>\<open>Not modelled.\<close> When the last clone of a provider is dropped its background task is aborted,
  which is a cancellation of \<open>run\<close> at an await; the drop itself, reference counting, is not
  modelled. Nor are the warnings of \<open>tracing\<close> other than the fallback log; \<open>bind\<close> and the relay of
  upgraded connections, which are I/O of libraries; the Debug output of the registry; \<open>lib.rs\<close>,
  which only declares and re-exports modules; examples and integration tests.
\<close>

section \<open>Gateways with Redis admission\<close>

text \<open>Every registered provider is a Redis provider on one client.\<close>

definition redis_registry ::
  "('h, 'u) http_lib \<Rightarrow> 'i router_lib \<Rightarrow> (string \<Rightarrow> address option) \<Rightarrow> ('w, 'i) runtime \<Rightarrow>
     (('w, 'i) task, 'u) admission_registry \<Rightarrow> bool" where
  "redis_registry L R J RT reg \<longleftrightarrow>
     (\<forall>name P. registry_get reg name = Some P \<longrightarrow> (\<exists>self. P = redis_admission L R J RT self))"

lemma redis_providers_ok:
  assumes "redis_backend L R tm RT" and "redis_registry L R J RT (gw_admission g)"
  shows "providers_ok L (\<lambda>t. snapshot_wf L R policy_json (sh_snapshot (tk_shared t))) g"
  unfolding providers_ok_def
proof (intro allI impI)
  fix name P
  assume "registry_get (gw_admission g) name = Some P"
  with assms(2) obtain self where "P = redis_admission L R J RT self"
    by (auto simp: redis_registry_def)
  then show "provider_contract L P (\<lambda>t. snapshot_wf L R policy_json (sh_snapshot (tk_shared t)))"
    using redis_backend.keeps_contract [OF assms(1)] by simp
qed

lemma redis_acquisition:
  assumes "acquisition L (redis_admission L R J RT self) global rule r w = (Ready (Inr (Acquired tk)), w')"
  shows "\<exists>quota. acquire L J RT self (ar_scope rule) quota w = (Ready (Inr (Acquired tk)), w')"
  using assms
  by (auto simp: acquisition_def redis_admission_def acquire_request_def panic_def split: if_splits option.splits)

text \<open>
  The quota of an admission: a route rule has none, a global rule takes it from the policy in
  force. \<open>None\<close> means that the policy does not admit the path.
\<close>

definition admission_quota ::
  "'i router_lib \<Rightarrow> bool \<Rightarrow> 'i snapshot \<Rightarrow> string \<Rightarrow> (string \<times> nat) option option" where
  "admission_quota R global snap path =
     (if \<not> global then Some None
      else case sn_policy snap of
             None \<Rightarrow> None
           | Some policy \<Rightarrow>
               (case api R policy path of
                  Some (Some field) \<Rightarrow> Some (map_option (\<lambda>limit. (field, limit)) (cp_case_limit policy))
                | _ \<Rightarrow> None))"

lemma acquisition_quota:
  assumes "admission_quota R global (sh_snapshot (tk_shared w)) (uri_path L (rq_uri r)) = Some quota"
    and "is_participating self (tk_shared w)"
  shows "acquisition L (redis_admission L R J RT self) global rule r w = acquire L J RT self (ar_scope rule) quota w"
  using assms
  by (auto simp: admission_quota_def acquisition_def redis_admission_def acquire_request_def
      split: if_splits option.splits)

section \<open>An executable recording gateway\<close>

type_synonym redis_world = "(simple_world, indexed_rule list) task"

text \<open>A matched service that records what reaches it, and an HTTP client whose connections all fail.\<close>

definition record_service :: "(redis_world, assoc_headers, simple_uri, string, bool) service" where
  "record_service r peer s =
     (Ready \<lparr>rs_status = 200, rs_headers = [], rs_cors = None, rs_body = Full []\<rparr>,
      s\<lparr>nw_log := nw_log s @ [Sent (map_request Streamed r)]\<rparr>)"

definition offline_hyper :: "(redis_world, assoc_headers, simple_uri, string, bool) hyper_lib" where
  "offline_hyper =
     \<lparr>hy_request = (\<lambda>_ w. (Ready (Inl \<lparr>ce_is_connect = True\<rparr>), w)),
      hy_collect = (\<lambda>b w. (Ready (Inr (b, None)), w)),
      hy_request_upgrade = (\<lambda>_. 1),
      hy_on_upgrade = (\<lambda>_. 2),
      hy_response_upgrade = (\<lambda>_. 3)\<rparr>"

definition redis_gateway ::
  "(simple_world, indexed_rule list) runtime \<Rightarrow> redis_provider \<Rightarrow> (redis_world, assoc_headers, simple_uri, string, bool, indexed_rule list, string) gateway" where
  "redis_gateway RT self =
     \<lparr>gw_routes = sample_table, gw_matched = record_service,
      gw_fallback = \<lparr>fp_scheme = ''http'', fp_authority = Some ''original:9000''\<rparr>,
      gw_admission = [''recorder'' \<mapsto> redis_admission assoc_lib segment_router unquote_json RT self],
      gw_recording = None, gw_cors = Some ''https://app''\<rparr>"

interpretation offline: http_client offline_hyper
  by unfold_locales (simp_all add: offline_hyper_def)

interpretation recorded: service_contract assoc_lib plain_cors record_service
proof (unfold_locales, goal_cases)
  case (1 r peer s res s')
  then show ?case
    by (intro exI [of _ "[Sent (map_request Streamed r)]"])
      (auto simp: record_service_def wire_clean_def clean_request_def ticket_consistent_def)
qed (simp add: record_service_def)

interpretation prompt_backend: redis_backend assoc_lib segment_router template_match
  "prompt_runtime :: (simple_world, indexed_rule list) runtime"
proof (unfold_locales, goal_cases)
  case (1 req s)
  then show ?case using prompt_answered [where req = req and s = s, OF surjective_pairing] by auto
qed

lemma redis_gateway_wf: "gateway_wf assoc_lib segment_router (redis_gateway RT self)"
  using sample_gateway_wf
  by (auto simp: gateway_wf_def redis_gateway_def sample_gateway_def sample_registry_eq registry_get_def split: if_splits)

lemma redis_gateway_registry:
  "redis_registry assoc_lib segment_router unquote_json RT (gw_admission (redis_gateway RT self))"
  by (auto simp: redis_registry_def redis_gateway_def registry_get_def split: if_splits)

lemma redis_gateway_sel:
  "gw_routes (redis_gateway RT self) = gw_routes sample_gateway" "gw_recording (redis_gateway RT self) = None"
  "gw_recording sample_gateway = None" "gw_cors (redis_gateway RT self) = gw_cors sample_gateway"
  by (simp_all add: redis_gateway_def sample_gateway_def)

lemma redis_order_facts:
  "local_preflight assoc_lib plain_cors (redis_gateway RT self) order_request = None"
  "effective_rule assoc_lib segment_router (redis_gateway RT self) (sanitize assoc_lib plain_cors order_request)
     = Some (Some order_rule)"
  "global_rule assoc_lib segment_router (redis_gateway RT self) (sanitize assoc_lib plain_cors order_request) = None"
  "registry_get (gw_admission (redis_gateway RT self)) (ar_provider order_rule) =
     Some (redis_admission assoc_lib segment_router unquote_json RT self)"
proof -
  show "local_preflight assoc_lib plain_cors (redis_gateway RT self) order_request = None"
    using order_facts(1) by (simp add: local_preflight_def redis_gateway_sel)
  show "effective_rule assoc_lib segment_router (redis_gateway RT self) (sanitize assoc_lib plain_cors order_request)
      = Some (Some order_rule)"
    using order_facts(2) by (simp only: effective_rule_def global_rule_def redis_gateway_sel)
qed (simp_all add: global_rule_def redis_gateway_sel redis_gateway_def registry_get_def order_rule_def)

definition redis_net :: "redis_world \<Rightarrow> (redis_world, assoc_headers, simple_uri, string) net" where
  "redis_net w = \<lparr>nw_world = w, nw_log = []\<rparr>"

lemma new_snapshot_wf: "snapshot_wf L R from_json (sh_snapshot (tk_shared (provider_at now disc d log)))"
  by (simp add: snapshot_wf_def provider_at_def sample_shared_def snapshot_new_def)

section \<open>Properties\<close>

text \<open>
  C1: what reaches the recorder is reserved in Redis. In a gateway whose providers are Redis
  providers, the handler does not panic, and every request it puts on the wire with a ticket
  carries a ticket that one acquisition of this very call obtained for the scope of the rule. At
  the end of that acquisition Redis holds the ticket's token on the slot of the scope until the
  reservation time of the provider has passed since the request arrived, provided that other
  clients leave this token alone.
\<close>

theorem recorded_request_is_reserved:
  assumes cors: "cors_crate L C" and client: "http_client H" and backend: "redis_backend L R tm RT"
    and wf: "gateway_wf L R g" and svc: "service_contract L C (gw_matched g)"
    and reg: "redis_registry L R J RT (gw_admission g)"
    and snap: "snapshot_wf L R policy_json (sh_snapshot (tk_shared (nw_world s)))"
    and run: "handle L R C H g r peer s = (res, s')"
  shows "res \<noteq> Panicked \<and> (\<exists>evs. nw_log s' = nw_log s @ evs \<and>
    (\<forall>q \<in> set (sent_of evs). \<forall>tk. ext_ticket (rq_ext q) = Some tk \<longrightarrow>
      (\<exists>rule self quota w' token.
         effective_rule L R g (sanitize L C r) = Some (Some rule) \<and>
         acquire L J RT self (ar_scope rule) quota (nw_world s) = (Ready (Inr (Acquired tk)), w') \<and>
         ticket_token L tk = Some token \<and>
         (\<forall>d. token_link exec live RT db set_db rely (inflight_key self (ar_scope rule)) token \<longrightarrow>
            d \<le> sh_now (tk_shared (nw_world s)) + reservation_ttl self \<longrightarrow> sh_now (tk_shared w') < d \<longrightarrow>
            holds_until (live (sh_now (tk_shared w')) (db (sh_world (tk_shared w')))
              (inflight_key self (ar_scope rule))) token d))))"
proof (intro conjI)
  note ok = redis_providers_ok [where policy_json = policy_json, OF backend reg]
  show "res \<noteq> Panicked"
    using handle_no_panic [where s = s and r = r and peer = peer, OF cors client wf svc ok snap] run by simp
  have http: "http_crate L" using backend by (simp add: redis_backend_def)
  from handle_sent [OF cors wf svc ok snap run] obtain evs where log: "nw_log s' = nw_log s @ evs"
    and own: "\<And>q tk. q \<in> set (sent_of evs) \<Longrightarrow> ext_ticket (rq_ext q) = Some tk \<Longrightarrow>
      (\<exists>rule P. effective_rule L R g (sanitize L C r) = Some (Some rule) \<and>
         registry_get (gw_admission g) (ar_provider rule) = Some P \<and>
         fst (acquisition L P (global_rule L R g (sanitize L C r) \<noteq> None) rule (sanitize L C r)
           (nw_world s)) = Ready (Inr (Acquired tk)))"
    by blast
  let ?reserved = "\<lambda>tk. \<exists>rule self quota w' token.
         effective_rule L R g (sanitize L C r) = Some (Some rule) \<and>
         acquire L J RT self (ar_scope rule) quota (nw_world s) = (Ready (Inr (Acquired tk)), w') \<and>
         ticket_token L tk = Some token \<and>
         (\<forall>d. token_link exec live RT db set_db rely (inflight_key self (ar_scope rule)) token \<longrightarrow>
            d \<le> sh_now (tk_shared (nw_world s)) + reservation_ttl self \<longrightarrow> sh_now (tk_shared w') < d \<longrightarrow>
            holds_until (live (sh_now (tk_shared w')) (db (sh_world (tk_shared w')))
              (inflight_key self (ar_scope rule))) token d)"
  have "?reserved tk" if "q \<in> set (sent_of evs)" "ext_ticket (rq_ext q) = Some tk" for q tk
  proof -
    from own [OF that] reg obtain rule self where rule: "effective_rule L R g (sanitize L C r) = Some (Some rule)"
      and acq: "fst (acquisition L (redis_admission L R J RT self) (global_rule L R g (sanitize L C r) \<noteq> None) rule
        (sanitize L C r) (nw_world s)) = Ready (Inr (Acquired tk))"
      unfolding redis_registry_def by blast
    then obtain w' where "acquisition L (redis_admission L R J RT self) (global_rule L R g (sanitize L C r) \<noteq> None) rule
        (sanitize L C r) (nw_world s) = (Ready (Inr (Acquired tk)), w')"
      by (metis prod.collapse)
    from redis_acquisition [OF this] obtain quota where
      a: "acquire L J RT self (ar_scope rule) quota (nw_world s) = (Ready (Inr (Acquired tk)), w')" by blast
    from http_crate.acquire_outcome_sent [OF http a] obtain token where token: "ticket_token L tk = Some token" by auto
    have "holds_until (live (sh_now (tk_shared w')) (db (sh_world (tk_shared w')))
        (inflight_key self (ar_scope rule))) token d"
      if "token_link exec live RT db set_db rely (inflight_key self (ar_scope rule)) token"
        "d \<le> sh_now (tk_shared (nw_world s)) + reservation_ttl self" "sh_now (tk_shared w') < d" for d
      using token_link.acquired_held [OF that(1) a token refl] that(2,3) by (simp add: reservation_ttl_def)
    with rule a token show ?thesis by blast
  qed
  with log show "\<exists>evs. nw_log s' = nw_log s @ evs \<and>
      (\<forall>q \<in> set (sent_of evs). \<forall>tk. ext_ticket (rq_ext q) = Some tk \<longrightarrow> ?reserved tk)"
    by blast
qed

text \<open>The sample order is recorded, and its reservation holds for a minute.\<close>

theorem recorded_request_is_reserved_witness:
  "\<exists>q tk res s'. handle assoc_lib segment_router plain_cors offline_hyper (redis_gateway simple_runtime sample_provider) order_request
       ''10.0.0.7'' (redis_net (provider_at 0 discovery_default recorder_db [])) = (res, s') \<and> res \<noteq> Panicked \<and>
     sent_of (nw_log s') = [q] \<and> ext_ticket (rq_ext q) = Some tk \<and>
     (\<exists>quota w'. acquire assoc_lib unquote_json simple_runtime sample_provider ''writes'' quota
        (provider_at 0 discovery_default recorder_db []) = (Ready (Inr (Acquired tk)), w'))"
proof -
  let ?w = "provider_at 0 discovery_default recorder_db []"
  let ?g = "redis_gateway simple_runtime sample_provider"
  let ?run = "handle assoc_lib segment_router plain_cors offline_hyper ?g order_request ''10.0.0.7'' (redis_net ?w)"
  obtain tk w' where acq: "acquire assoc_lib unquote_json simple_runtime sample_provider ''writes'' None ?w =
      (Ready (Inr (Acquired tk)), w')" and scope: "ticket_scope assoc_lib tk = Some ''writes''"
    using sample_free by blast
  let ?q = "admitted_request assoc_lib (gw_fallback ?g) tk (sanitize assoc_lib plain_cors order_request)"
  have "acquisition assoc_lib (redis_admission assoc_lib segment_router unquote_json simple_runtime sample_provider)
      (global_rule assoc_lib segment_router ?g (sanitize assoc_lib plain_cors order_request) \<noteq> None) order_rule
      (sanitize assoc_lib plain_cors order_request) (nw_world (redis_net ?w)) = (Ready (Inr (Acquired tk)), w')"
    using acq by (simp add: acquisition_def redis_order_facts redis_admission_def redis_net_def order_rule_def)
  from handle_admission [OF redis_order_facts(1,2,4) simple_backend.keeps_contract [where policy_json = "\<lambda>_. Inl []"] _ this]
  have run: "?run = answer assoc_lib plain_cors ?g order_request (record_service ?q ''10.0.0.7'')
      ((redis_net ?w)\<lparr>nw_world := w'\<rparr>)"
    using scope by (simp add: new_snapshot_wf redis_net_def order_rule_def redis_gateway_def)
  then obtain res s' where res: "?run = (res, s')" and log: "sent_of (nw_log s') = [map_request Streamed ?q]"
    by (cases ?run) (simp add: answer_def await_def record_service_def redis_net_def)
  have snap: "snapshot_wf assoc_lib segment_router (\<lambda>_. Inl []) (sh_snapshot (tk_shared (nw_world (redis_net ?w))))"
    by (simp add: redis_net_def new_snapshot_wf)
  have svc: "service_contract assoc_lib plain_cors (gw_matched ?g)"
    by (simp add: redis_gateway_def recorded.service_contract_axioms)
  have sent: "map_request Streamed ?q \<in> set (sent_of (nw_log s'))" by (simp add: log)
  have ticket: "ext_ticket (rq_ext (map_request Streamed ?q)) = Some tk"
    by (simp add: admitted_request_def Let_def)
  have "res \<noteq> Panicked"
    using recorded_request_is_reserved [OF plain.cors_crate_axioms offline.http_client_axioms
        simple_backend.redis_backend_axioms redis_gateway_wf svc redis_gateway_registry snap res]
    by blast
  with res log ticket acq show ?thesis by blast
qed

text \<open>
  C9: a free slot is used. Suppose an admission rule with a Redis provider applies to a request,
  by a route or globally under a policy that admits the path; the gateway participates and may
  look up; Redis answers in time, a recorder is registered, the slot of the scope is free and the
  quota, if any, leaves room; and nobody else ends any of this before the acquisition returns.
  Then the request is not lost to the fallback: the handler passes it, with a ticket for the scope
  of the rule attached and the fallback remembered for a replay, to the matched service and
  answers with what that returns.
\<close>

theorem free_slot_is_recorded:
  assumes backend: "redis_backend L R tm RT" and link: "live_link exec live RT db set_db rely free counts"
    and pre: "local_preflight L C g r = None"
    and rule: "effective_rule L R g (sanitize L C r) = Some (Some rule)"
    and prov: "registry_get (gw_admission g) (ar_provider rule) = Some (redis_admission L R J RT self)"
    and snap: "snapshot_wf L R policy_json (sh_snapshot (tk_shared (nw_world s)))"
    and quota: "admission_quota R (global_rule L R g (sanitize L C r) \<noteq> None) (sh_snapshot (tk_shared (nw_world s)))
      (uri_path L (rq_uri r)) = Some quota"
    and ttl: "0 < rp_ttl_ms self" "rp_ttl_ms self \<le> i64_max"
    and scope: "\<not> trim_is_empty (ar_scope rule)" "graphic (ar_scope rule)"
    and keys: "inflight_key self (ar_scope rule) \<noteq> rp_recorder_url_key self"
      "ps_counts_key (rp_policy self) \<noteq> inflight_key self (ar_scope rule)"
    and part: "is_participating self (tk_shared (nw_world s))"
    and look: "try_lookup (sh_now (tk_shared (nw_world s))) (sh_discovery (tk_shared (nw_world s))) = (Inr guard, state)"
    and url: "undisturbed rely db T (\<lambda>now d. holds_until (live now d (rp_recorder_url_key self)) v T) (tk_shared (nw_world s))"
    and origin: "recorder_origin L J v = Inr origin" "is_origin L origin"
    and free: "undisturbed rely db T (\<lambda>now d. free now d (inflight_key self (ar_scope rule))) (tk_shared (nw_world s))"
    and room: "undisturbed rely db T (has_room counts self quota) (tk_shared (nw_world s))"
    and acq: "acquire L J RT self (ar_scope rule) quota (nw_world s) = (out, w')"
    and late: "sh_now (tk_shared w') < T" and still: "is_participating self (tk_shared w')"
  shows "\<exists>ticket. ticket_scope L ticket = Some (ar_scope rule) \<and>
    handle L R C H g r peer s =
      answer L C g r (gw_matched g (admitted_request L (gw_fallback g) ticket (sanitize L C r)) peer) (s\<lparr>nw_world := w'\<rparr>)"
proof -
  have http: "http_crate L" using backend by (simp add: redis_backend_def)
  have path: "rq_uri (sanitize L C r) = rq_uri r" by (simp add: sanitize_def)
  from live_link.acquire_live [OF link http ttl scope keys part look url origin free room acq late] still
  obtain ticket where out: "out = Ready (Inr (Acquired ticket))" and tk: "ticket_scope L ticket = Some (ar_scope rule)" by auto
  have "acquisition L (redis_admission L R J RT self) (global_rule L R g (sanitize L C r) \<noteq> None) rule (sanitize L C r)
      (nw_world s) = (out, w')"
    using acquisition_quota [where r = "sanitize L C r" and L = L, unfolded path, OF quota part] acq by simp
  from handle_admission [OF pre rule prov redis_backend.keeps_contract [OF backend] snap this] out tk
  show ?thesis by auto
qed

text \<open>The sample order is recorded when its slot is free.\<close>

theorem free_slot_is_recorded_witness:
  "\<exists>ticket w'. ticket_scope assoc_lib ticket = Some ''writes'' \<and>
     handle assoc_lib segment_router plain_cors offline_hyper (redis_gateway prompt_runtime sample_provider) order_request
       ''10.0.0.7'' (redis_net (provider_at 0 discovery_default recorder_db [])) =
     answer assoc_lib plain_cors (redis_gateway prompt_runtime sample_provider) order_request
       (record_service (admitted_request assoc_lib (gw_fallback (redis_gateway prompt_runtime sample_provider)) ticket
          (sanitize assoc_lib plain_cors order_request)) ''10.0.0.7'')
       ((redis_net (provider_at 0 discovery_default recorder_db []))\<lparr>nw_world := w'\<rparr>)"
proof -
  let ?s = "redis_net (provider_at 0 discovery_default recorder_db [])"
  let ?g = "redis_gateway prompt_runtime sample_provider"
  obtain out w' where acq: "acquire assoc_lib unquote_json prompt_runtime sample_provider (ar_scope order_rule) None (nw_world ?s) = (out, w')"
    by fastforce
  let ?T = "Suc (sh_now (tk_shared w'))"
  have world: "nw_world ?s = provider_at 0 discovery_default recorder_db []" by (simp add: redis_net_def)
  have rule: "ar_scope order_rule = ''writes''" by (simp add: order_rule_def)
  have scope: "\<not> trim_is_empty (ar_scope order_rule)" "graphic (ar_scope order_rule)" "is_origin assoc_lib sample_url"
    unfolding rule by code_simp+
  have url: "undisturbed quiet sw_db ?T (\<lambda>now d. holds_until (simple_live now d (rp_recorder_url_key sample_provider))
      ''http://10.0.0.12:9001'' ?T) (tk_shared (nw_world ?s))"
    unfolding world by (rule quiet_reads)
      (simp add: holds_until_def simple_live_def provider_at_def sample_shared_def recorder_db_def sample_keys_of)
  have free: "undisturbed quiet sw_db ?T (\<lambda>now d. simple_free now d (inflight_key sample_provider (ar_scope order_rule))) (tk_shared (nw_world ?s))"
    unfolding world by (rule quiet_free)
      (simp add: simple_free_def simple_live_def provider_at_def sample_shared_def recorder_db_def sample_keys_of rule)
  have room: "undisturbed quiet sw_db ?T (has_room simple_counts sample_provider None) (tk_shared (nw_world ?s))"
    unfolding world by (rule quiet_undisturbed) (simp_all add: has_room_def)
  have look: "try_lookup (sh_now (tk_shared (nw_world ?s))) (sh_discovery (tk_shared (nw_world ?s))) = (Inr \<lparr>lk_available = False\<rparr>, looking)"
    unfolding world by (simp add: provider_at_def try_lookup_def cooling_down_def discovery_default_def)
  have quota: "admission_quota segment_router (global_rule assoc_lib segment_router ?g (sanitize assoc_lib plain_cors order_request) \<noteq> None)
      (sh_snapshot (tk_shared (nw_world ?s))) (uri_path assoc_lib (rq_uri order_request)) = Some None"
    by (simp add: admission_quota_def redis_order_facts)
  have "\<exists>ticket. ticket_scope assoc_lib ticket = Some (ar_scope order_rule) \<and>
    handle assoc_lib segment_router plain_cors offline_hyper ?g order_request ''10.0.0.7'' ?s =
      answer assoc_lib plain_cors ?g order_request (gw_matched ?g (admitted_request assoc_lib (gw_fallback ?g) ticket
        (sanitize assoc_lib plain_cors order_request)) ''10.0.0.7'') (?s\<lparr>nw_world := w'\<rparr>)"
    by (rule free_slot_is_recorded [where policy_json = "\<lambda>_. Inl []", OF prompt_backend.redis_backend_axioms prompt.live_link_axioms
          redis_order_facts(1,2,4) _ quota _ _ scope(1,2) _ _ _ look url sample_origin_read scope(3) free room acq])
      (simp_all only: world, simp_all add: sample_keys_of rule new_snapshot_wf)
  then show ?thesis unfolding rule by (auto simp: redis_gateway_def)
qed

text \<open>
  C22: a standby gateway is transparent. While a gateway's lease is not valid, a request that an
  admission rule of its Redis provider applies to is forwarded, sanitized, to the fallback
  origin: nothing is sent to Redis, the matched service is not called and no shared state
  changes before the request is forwarded.
\<close>

theorem standby_gateway_is_transparent:
  assumes "local_preflight L C g r = None"
    and "effective_rule L R g (sanitize L C r) = Some (Some rule)"
    and "registry_get (gw_admission g) (ar_provider rule) = Some (redis_admission L R J RT self)"
    and "rp_participation self" and "\<not> lease_is_valid (tk_shared (nw_world s))"
  shows "handle L R C H g r peer s = answer L C g r (forward L H (gw_fallback g) (sanitize L C r) peer) s"
proof -
  let ?P = "redis_admission L R J RT self"
  have acq: "acquisition L ?P (global_rule L R g (sanitize L C r) \<noteq> None) rule (sanitize L C r) (nw_world s) =
      (Ready (Inr NotParticipant), nw_world s)"
    using assms(4,5)
    by (simp add: acquisition_def redis_admission_def acquire_def acquire_request_def is_participating_def)
  have "admit L g (global_rule L R g (sanitize L C r) \<noteq> None) rule (sanitize L C r) s =
      (Ready (False, sanitize L C r), s)"
    using admit_cases [OF assms(3) acq] by simp
  then show ?thesis
    unfolding handle_cases [OF assms(1)] assms(2)
    by (simp add: await_def [of "admit _ _ _ _ _"] dispatch_def)
qed

theorem standby_gateway_is_transparent_witness:
  "handle assoc_lib segment_router plain_cors offline_hyper (redis_gateway simple_runtime (sample_provider\<lparr>rp_participation := True\<rparr>))
      order_request ''10.0.0.7'' (redis_net (provider_at 0 discovery_default recorder_db [])) =
    answer assoc_lib plain_cors (redis_gateway simple_runtime (sample_provider\<lparr>rp_participation := True\<rparr>)) order_request
      (forward assoc_lib offline_hyper (gw_fallback (redis_gateway simple_runtime (sample_provider\<lparr>rp_participation := True\<rparr>)))
        (sanitize assoc_lib plain_cors order_request) ''10.0.0.7'')
      (redis_net (provider_at 0 discovery_default recorder_db []))"
proof -
  have "\<not> lease_is_valid (tk_shared (nw_world (redis_net (provider_at 0 discovery_default recorder_db []))))"
    by (simp add: lease_is_valid_def redis_net_def provider_at_def sample_shared_def)
  then show ?thesis
    by (intro standby_gateway_is_transparent [OF redis_order_facts(1,2,4)]) simp_all
qed

end
